(* ===== verification/Pi_Prelude.thy ===== *)
theory Pi_Prelude
  imports Main "HOL-Library.Word"
begin

text \<open>
  Shared vocabulary of the development: the fixed-width integers of the Pi (an ARM11, so
  \<open>unsigned\<close> and pointers are 32 bits wide and \<open>char\<close> is an unsigned byte), the faults
  that end a run of the kernel, byte-addressed memory with its little-endian 32-bit accesses,
  and the generic lemmas on lists, words and memory that the component theories share.
\<close>

unbundle bit_operations_syntax

section \<open>Types\<close>

type_synonym u8 = "8 word"
type_synonym u16 = "16 word"
type_synonym u32 = "32 word"

text \<open>
  \<open>panic\<close>, a failed \<open>assert\<close> and a failed \<open>demand\<close> (libpi/assert.h) print a message and
  call \<open>rpi_reboot\<close>, which does not return: each is a fault. \<open>BadAccess\<close> marks an access
  outside an array of the source, whose effect C leaves undefined.
\<close>

datatype fault = PanicFault | AssertFault | DemandFault | BadAccess

type_synonym 'a res = "fault + 'a"

fun rbind :: "'a res \<Rightarrow> ('a \<Rightarrow> 'b res) \<Rightarrow> 'b res" where
  "rbind (Inl e) f = Inl e"
| "rbind (Inr x) f = f x"

definition assert_that :: "bool \<Rightarrow> unit res" where
  "assert_that b = (if b then Inr () else Inl AssertFault)"

definition demand_that :: "bool \<Rightarrow> unit res" where
  "demand_that b = (if b then Inr () else Inl DemandFault)"

lemma rbind_eq_Inr [simp]: "rbind m f = Inr y \<longleftrightarrow> (\<exists>x. m = Inr x \<and> f x = Inr y)"
  by (cases m) auto

lemma rbind_eq_Inl: "rbind m f = Inl e \<longleftrightarrow> m = Inl e \<or> (\<exists>x. m = Inr x \<and> f x = Inl e)"
  by (cases m) auto

lemma rbind_assoc: "rbind (rbind m f) g = rbind m (\<lambda>x. rbind (f x) g)"
  by (cases m) auto

lemma assert_that_eq_Inr [simp]: "assert_that b = Inr u \<longleftrightarrow> b"
  by (simp add: assert_that_def)

lemma demand_that_eq_Inr [simp]: "demand_that b = Inr u \<longleftrightarrow> b"
  by (simp add: demand_that_def)

lemma assert_that_True [simp]: "assert_that True = Inr ()"
  by (simp add: assert_that_def)

lemma demand_that_True [simp]: "demand_that True = Inr ()"
  by (simp add: demand_that_def)

lemma assert_that_False [simp]: "assert_that False = Inl AssertFault"
  by (simp add: assert_that_def)

lemma demand_that_False [simp]: "demand_that False = Inl DemandFault"
  by (simp add: demand_that_def)

section \<open>Words\<close>

named_theorems word_nat_simps \<open>reading word operations as arithmetic on natural numbers\<close>

lemma word_cases_zero: "(w :: 'a::len word) \<noteq> 0 \<Longrightarrow> 0 < unat w"
  using unat_gt_0 by blast

lemma unat_of_nat_lt: "n < 2 ^ LENGTH('a) \<Longrightarrow> unat (of_nat n :: 'a::len word) = n"
  by (simp add: unat_of_nat)

lemma of_nat_eq_word_iff:
  "i < 2 ^ LENGTH('a) \<Longrightarrow> j < 2 ^ LENGTH('a) \<Longrightarrow>
   (of_nat i = (of_nat j :: 'a::len word)) \<longleftrightarrow> i = j"
  by (metis unat_of_nat_lt)

lemma unat_drop_bit: "unat (drop_bit n (w :: 'a::len word)) = unat w div 2 ^ n"
  by (subst unat_drop_bit_eq) (simp add: drop_bit_eq_div)

lemma unat_u32_lt: "unat (w :: u32) < 4294967296"
  using unsigned_less [of w] by simp

lemma unat_u8_lt: "unat (w :: u8) < 256"
  using unsigned_less [of w] by simp

lemma unat_u16_lt: "unat (w :: u16) < 65536"
  using unsigned_less [of w] by simp

lemma unat_of_nat_u32: "i < 4294967296 \<Longrightarrow> unat (of_nat i :: u32) = i"
  by (simp add: unat_of_nat)

lemma word_xor_left_cancel: "a XOR b = a XOR c \<longleftrightarrow> b = (c :: 'a::len word)"
  by (auto simp: bit_eq_iff bit_simps)

lemma unat_neg_u32: "0 < unat w \<Longrightarrow> unat (- w) = 4294967296 - unat (w :: u32)"
proof -
  assume w: "0 < unat w"
  have "(unat w + unat (- w)) mod 4294967296 = unat (w + - w)"
    by (subst unat_word_ariths) simp
  also have "\<dots> = 0" by simp
  finally obtain k where k: "unat w + unat (- w) = 4294967296 * k" by auto
  then have "0 < 4294967296 * k" using w by linarith
  moreover have "4294967296 * k < 4294967296 * 2"
    using k unat_u32_lt [of w] unat_u32_lt [of "- w"] by linarith
  ultimately have "k = 1" by simp
  with k show ?thesis by linarith
qed

lemma word_and_bit_nonzero: "(w AND push_bit n 1 \<noteq> 0) \<longleftrightarrow> bit w n \<and> n < LENGTH('a)" for w :: "'a::len word"
proof -
  have "w AND push_bit n 1 = (if bit w n then push_bit n 1 else 0)"
    by (rule bit_word_eqI) (auto simp: bit_simps)
  then show ?thesis
    by (auto simp: bit_imp_le_length push_bit_eq_0_iff dest: bit_imp_le_length)
qed

lemma unat_Suc_u32: "(i :: u32) < n \<Longrightarrow> unat (i + 1) = Suc (unat i)"
  using unat_u32_lt [of n] by (simp add: word_less_nat_alt unat_word_ariths)

lemma unat_diff_less_u32: "(i :: u32) < n \<Longrightarrow> unat n - unat (i + 1) < unat n - unat i"
  by (simp add: unat_Suc_u32 word_less_nat_alt diff_less_mono2)

section \<open>Little-endian encoding\<close>

definition word_bytes :: "u32 \<Rightarrow> u8 list" where
  "word_bytes u = [ucast u, ucast (drop_bit 8 u), ucast (drop_bit 16 u), ucast (drop_bit 24 u)]"

fun bytes_word :: "u8 list \<Rightarrow> u32" where
  "bytes_word [] = 0"
| "bytes_word (b # bs) = ucast b OR push_bit 8 (bytes_word bs)"

lemma length_word_bytes [simp]: "length (word_bytes u) = 4"
  by (simp add: word_bytes_def)

lemma bytes_word_bytes [simp]: "bytes_word (word_bytes u) = u"
proof (rule bit_word_eqI)
  fix n assume n: "n < LENGTH(32)"
  then consider "n < 8" | "8 \<le> n \<and> n < 16" | "16 \<le> n \<and> n < 24" | "24 \<le> n \<and> n < 32"
    by fastforce
  then show "bit (bytes_word (word_bytes u)) n \<longleftrightarrow> bit u n"
    by cases (auto simp: word_bytes_def bit_simps)
qed

lemma word_bytes_bytes:
  assumes "length bs = 4" shows "word_bytes (bytes_word bs) = bs"
proof -
  obtain b0 b1 b2 b3 where bs: "bs = [b0, b1, b2, b3]"
    using assms by (auto simp: eval_nat_numeral length_Suc_conv)
  have "ucast (bytes_word bs) = b0" "ucast (drop_bit 8 (bytes_word bs)) = b1"
    "ucast (drop_bit 16 (bytes_word bs)) = b2" "ucast (drop_bit 24 (bytes_word bs)) = b3"
    unfolding bs by (rule bit_word_eqI; auto simp: bit_simps dest: bit_imp_le_length)+
  then show ?thesis by (simp add: word_bytes_def bs)
qed

lemma bit_bytes_word_lt: "bit (bytes_word bs) n \<Longrightarrow> n < 8 * length bs"
proof (induction bs arbitrary: n)
  case (Cons b bs)
  then consider "bit b n" | "8 \<le> n" "bit (bytes_word bs) (n - 8)"
    by (auto simp: bit_simps)
  then show ?case
  proof cases
    case 1
    then have "n < 8" using bit_imp_le_length by fastforce
    then show ?thesis by simp
  next
    case 2
    then show ?thesis using Cons.IH by fastforce
  qed
qed simp

lemma bytes_word_inj:
  "length xs = length ys \<Longrightarrow> length xs \<le> 4 \<Longrightarrow> bytes_word xs = bytes_word ys \<Longrightarrow> xs = ys"
proof (induction xs ys rule: list_induct2)
  case (Cons x xs y ys)
  have bits: "bit (ucast x OR push_bit 8 (bytes_word xs)) n
      = bit (ucast y OR push_bit 8 (bytes_word ys)) n" for n
    using Cons.prems(2) by simp
  have "bit x n = bit y n" if "n < 8" for n
    using bits [of n] that by (auto simp: bit_simps)
  then have "x = y" by (intro bit_word_eqI) simp
  have "bit (bytes_word xs) n = bit (bytes_word ys) n" if "n < 24" for n
    using bits [of "n + 8"] that by (auto simp: bit_simps dest: bit_imp_le_length)
  moreover have "\<not> bit (bytes_word xs) n \<and> \<not> bit (bytes_word ys) n" if "\<not> n < 24" for n
    using that Cons.hyps Cons.prems(1) by (auto dest!: bit_bytes_word_lt)
  ultimately have "bytes_word xs = bytes_word ys"
    by (auto simp: bit_eq_iff)
  with Cons \<open>x = y\<close> show ?case by simp
qed simp

section \<open>Byte-addressed memory\<close>

type_synonym mem = "u32 \<Rightarrow> u8"

definition load_bytes :: "mem \<Rightarrow> u32 \<Rightarrow> nat \<Rightarrow> u8 list" where
  "load_bytes m a n = map (\<lambda>i. m (a + of_nat i)) [0..<n]"

definition store_bytes :: "mem \<Rightarrow> u32 \<Rightarrow> u8 list \<Rightarrow> mem" where
  "store_bytes m a bs = (\<lambda>x. if unat (x - a) < length bs then bs ! unat (x - a) else m x)"

definition GET32 :: "mem \<Rightarrow> u32 \<Rightarrow> u32" where
  "GET32 m a = bytes_word (load_bytes m a 4)"

definition PUT32 :: "mem \<Rightarrow> u32 \<Rightarrow> u32 \<Rightarrow> mem" where
  "PUT32 m a v = store_bytes m a (word_bytes v)"

lemma unat_offset [simp]: "i < 4294967296 \<Longrightarrow> unat ((a + of_nat i) - a :: u32) = i"
  by (simp add: unat_of_nat)

lemma length_load_bytes [simp]: "length (load_bytes m a n) = n"
  by (simp add: load_bytes_def)

lemma nth_load_bytes [simp]: "i < n \<Longrightarrow> load_bytes m a n ! i = m (a + of_nat i)"
  by (simp add: load_bytes_def)

lemma load_bytes_0 [simp]: "load_bytes m a 0 = []"
  by (simp add: load_bytes_def)

lemma load_bytes_Suc: "load_bytes m a (Suc n) = m a # load_bytes m (a + 1) n"
  by (simp add: load_bytes_def upt_conv_Cons map_Suc_upt [symmetric] comp_def ac_simps
      del: upt_Suc)

lemma load_bytes_numeral:
  "load_bytes m a (numeral k) = m a # load_bytes m (a + 1) (pred_numeral k)"
  by (simp add: numeral_eq_Suc load_bytes_Suc)

lemma load_bytes_append:
  "load_bytes m a (j + k) = load_bytes m a j @ load_bytes m (a + of_nat j) k"
  by (rule nth_equalityI) (auto simp: load_bytes_def nth_append algebra_simps of_nat_diff)

lemma load_store_bytes [simp]:
  "length bs \<le> 4294967296 \<Longrightarrow> load_bytes (store_bytes m a bs) a (length bs) = bs"
  by (rule nth_equalityI) (simp_all add: store_bytes_def unat_of_nat_u32)

lemma store_bytes_outside:
  "length bs \<le> unat (x - a) \<Longrightarrow> store_bytes m a bs x = m x"
  by (simp add: store_bytes_def)

lemma GET32_PUT32 [simp]: "GET32 (PUT32 m a v) a = v"
  unfolding GET32_def PUT32_def
  using load_store_bytes [of "word_bytes v" m a] by simp

lemma GET32_PUT32_disjoint:
  assumes "4 \<le> unat (b - a)" "4 \<le> unat (a - b)"
  shows "GET32 (PUT32 m a v) b = GET32 m b"
proof -
  have "load_bytes (PUT32 m a v) b 4 = load_bytes m b 4"
  proof (rule nth_equalityI)
    fix i assume "i < length (load_bytes (PUT32 m a v) b 4)"
    then have i: "i < 4" by simp
    have "b + of_nat i - a = (b - a) + of_nat i" by simp
    moreover have "unat ((b - a) + of_nat i) \<ge> 4"
    proof (rule ccontr)
      assume "\<not> ?thesis"
      then have lt: "unat ((b - a) + of_nat i) < 4" by simp
      have "unat ((b - a) + of_nat i) = (unat (b - a) + i) mod 4294967296"
        using i by (simp add: unat_word_ariths unat_of_nat)
      then have "unat ((b - a) + of_nat i) = unat (b - a) + i"
        if "unat (b - a) + i < 4294967296"
        using that by simp
      with lt assms(1) have "unat (b - a) + i \<ge> 4294967296" by linarith
      then have "4294967296 - unat (b - a) \<le> 3" using i by linarith
      moreover have "unat (a - b) = 4294967296 - unat (b - a)"
        using assms(1) unat_neg_u32 [of "b - a"] by simp
      ultimately show False using assms(2) by linarith
    qed
    ultimately have "length (word_bytes v) \<le> unat (b + of_nat i - a)"
      by (simp only: length_word_bytes)
    then show "load_bytes (PUT32 m a v) b 4 ! i = load_bytes m b 4 ! i"
      using i by (simp only: PUT32_def nth_load_bytes store_bytes_outside)
  qed simp
  then show ?thesis by (simp add: GET32_def)
qed

lemma store_bytes_Nil [simp]: "store_bytes m a [] = m"
  by (simp add: store_bytes_def)

lemma store_bytes_Cons:
  assumes "length bs < 4294967296"
  shows "store_bytes m a (b # bs) = store_bytes (m(a := b)) (a + 1) bs"
proof
  fix x
  show "store_bytes m a (b # bs) x = store_bytes (m(a := b)) (a + 1) bs x"
  proof (cases "x = a")
    case True
    then show ?thesis using assms by (simp add: store_bytes_def unsigned_minus_1_eq_mask mask_eq_exp_minus_1)
  next
    case False
    then have "x - a \<noteq> 0" by simp
    then have "unat (x - a) \<noteq> 0" "unat (x - a - 1) = unat (x - a) - 1"
      by (simp only: unat_eq_zero not_False_eq_True, rule unat_minus_one)
    moreover have "x - a - 1 = x - (a + 1)" by simp
    ultimately have "unat (x - a) = Suc (unat (x - (a + 1)))" by simp
    then show ?thesis using False by (simp add: store_bytes_def)
  qed
qed

lemma store_bytes_append:
  "length xs + length ys \<le> 4294967296 \<Longrightarrow>
   store_bytes m a (xs @ ys) = store_bytes (store_bytes m a xs) (a + of_nat (length xs)) ys"
proof (induction xs arbitrary: m a)
  case (Cons x xs)
  then show ?case by (simp add: store_bytes_Cons algebra_simps)
qed simp

lemma PUT32_GET32: "PUT32 m a (GET32 m b) = store_bytes m a (load_bytes m b 4)"
  by (simp add: PUT32_def GET32_def word_bytes_bytes)

text \<open>The addresses of a block, and blocks without a common address.\<close>

definition region :: "u32 \<Rightarrow> nat \<Rightarrow> u32 set" where
  "region a n = (\<lambda>i. a + of_nat i) ` {..<n}"

definition apart :: "u32 \<Rightarrow> nat \<Rightarrow> u32 \<Rightarrow> nat \<Rightarrow> bool" where
  "apart a n b k \<longleftrightarrow> region a n \<inter> region b k = {}"

lemma region_sub: "i + k \<le> n \<Longrightarrow> region (a + of_nat i) k \<subseteq> region a n"
proof
  fix x assume le: "i + k \<le> n" and "x \<in> region (a + of_nat i) k"
  then obtain j where "j < k" "x = a + of_nat (i + j)" by (auto simp: region_def algebra_simps)
  then show "x \<in> region a n" using le unfolding region_def by (intro image_eqI [of _ _ "i + j"]) auto
qed

lemma apart_sub:
  "apart a n b k \<Longrightarrow> i + n' \<le> n \<Longrightarrow> j + k' \<le> k \<Longrightarrow> apart (a + of_nat i) n' (b + of_nat j) k'"
  unfolding apart_def using region_sub [of i n' n a] region_sub [of j k' k b] by blast

lemma region_Suc: "region a (Suc n) = insert a (region (a + 1) n)"
proof -
  have "{..<Suc n} = insert 0 (Suc ` {..<n})" by (auto simp: less_Suc_eq_0_disj)
  then show ?thesis by (simp add: region_def image_image algebra_simps)
qed

lemma region_numeral: "region a (numeral k) = insert a (region (a + 1) (pred_numeral k))"
  by (simp add: numeral_eq_Suc region_Suc)

lemma region_0 [simp]: "region a 0 = {}"
  by (simp add: region_def)

lemma store_bytes_notin: "x \<notin> region a (length bs) \<Longrightarrow> store_bytes m a bs x = m x"
proof (rule store_bytes_outside, rule ccontr)
  assume "x \<notin> region a (length bs)" "\<not> length bs \<le> unat (x - a)"
  moreover have "x = a + of_nat (unat (x - a))" by simp
  ultimately show False unfolding region_def by (metis imageI lessThan_iff linorder_not_le)
qed

lemma load_bytes_cong: "(\<And>x. x \<in> region a n \<Longrightarrow> m x = m' x) \<Longrightarrow> load_bytes m a n = load_bytes m' a n"
  by (auto simp: load_bytes_def region_def)

lemma load_store_apart:
  "apart a n b (length bs) \<Longrightarrow> load_bytes (store_bytes m b bs) a n = load_bytes m a n"
  by (rule load_bytes_cong, rule store_bytes_notin) (auto simp: apart_def)

lemma apart_consecutive:
  assumes "j + k \<le> 4294967296" shows "apart a j (a + of_nat j) k"
proof -
  have "(of_nat i :: u32) \<noteq> of_nat (j + l)" if "i < j" "l < k" for i l
    using that assms by (simp add: of_nat_eq_word_iff del: of_nat_add)
  then show ?thesis by (auto simp: apart_def region_def algebra_simps)
qed

end
