(* ===== verification/Pi_Crc32.thy ===== *)
theory Pi_Crc32
  imports Pi_Prelude
begin

text \<open>
  The checksum of libpi/crc32.c (unix-side/support/simple-boot.h holds the same table and the
  same loop): \<open>crc32_tab\<close> is the table as written, \<open>crc32\<close> the loop over the bytes of the
  buffer. The lemmas show that the table-driven loop computes the bitwise CRC of the reversed
  polynomial 0xEDB88320, and that it tells apart any two messages that differ inside one
  aligned or unaligned run of four bytes, the unit in which the boot protocol sends data.
\<close>

section \<open>The code\<close>

definition crc32_tab :: "u32 list" where
  "crc32_tab = [
   0x00000000, 0x77073096, 0xee0e612c, 0x990951ba, 0x076dc419, 0x706af48f,
   0xe963a535, 0x9e6495a3, 0x0edb8832, 0x79dcb8a4, 0xe0d5e91e, 0x97d2d988,
   0x09b64c2b, 0x7eb17cbd, 0xe7b82d07, 0x90bf1d91, 0x1db71064, 0x6ab020f2,
   0xf3b97148, 0x84be41de, 0x1adad47d, 0x6ddde4eb, 0xf4d4b551, 0x83d385c7,
   0x136c9856, 0x646ba8c0, 0xfd62f97a, 0x8a65c9ec, 0x14015c4f, 0x63066cd9,
   0xfa0f3d63, 0x8d080df5, 0x3b6e20c8, 0x4c69105e, 0xd56041e4, 0xa2677172,
   0x3c03e4d1, 0x4b04d447, 0xd20d85fd, 0xa50ab56b, 0x35b5a8fa, 0x42b2986c,
   0xdbbbc9d6, 0xacbcf940, 0x32d86ce3, 0x45df5c75, 0xdcd60dcf, 0xabd13d59,
   0x26d930ac, 0x51de003a, 0xc8d75180, 0xbfd06116, 0x21b4f4b5, 0x56b3c423,
   0xcfba9599, 0xb8bda50f, 0x2802b89e, 0x5f058808, 0xc60cd9b2, 0xb10be924,
   0x2f6f7c87, 0x58684c11, 0xc1611dab, 0xb6662d3d, 0x76dc4190, 0x01db7106,
   0x98d220bc, 0xefd5102a, 0x71b18589, 0x06b6b51f, 0x9fbfe4a5, 0xe8b8d433,
   0x7807c9a2, 0x0f00f934, 0x9609a88e, 0xe10e9818, 0x7f6a0dbb, 0x086d3d2d,
   0x91646c97, 0xe6635c01, 0x6b6b51f4, 0x1c6c6162, 0x856530d8, 0xf262004e,
   0x6c0695ed, 0x1b01a57b, 0x8208f4c1, 0xf50fc457, 0x65b0d9c6, 0x12b7e950,
   0x8bbeb8ea, 0xfcb9887c, 0x62dd1ddf, 0x15da2d49, 0x8cd37cf3, 0xfbd44c65,
   0x4db26158, 0x3ab551ce, 0xa3bc0074, 0xd4bb30e2, 0x4adfa541, 0x3dd895d7,
   0xa4d1c46d, 0xd3d6f4fb, 0x4369e96a, 0x346ed9fc, 0xad678846, 0xda60b8d0,
   0x44042d73, 0x33031de5, 0xaa0a4c5f, 0xdd0d7cc9, 0x5005713c, 0x270241aa,
   0xbe0b1010, 0xc90c2086, 0x5768b525, 0x206f85b3, 0xb966d409, 0xce61e49f,
   0x5edef90e, 0x29d9c998, 0xb0d09822, 0xc7d7a8b4, 0x59b33d17, 0x2eb40d81,
   0xb7bd5c3b, 0xc0ba6cad, 0xedb88320, 0x9abfb3b6, 0x03b6e20c, 0x74b1d29a,
   0xead54739, 0x9dd277af, 0x04db2615, 0x73dc1683, 0xe3630b12, 0x94643b84,
   0x0d6d6a3e, 0x7a6a5aa8, 0xe40ecf0b, 0x9309ff9d, 0x0a00ae27, 0x7d079eb1,
   0xf00f9344, 0x8708a3d2, 0x1e01f268, 0x6906c2fe, 0xf762575d, 0x806567cb,
   0x196c3671, 0x6e6b06e7, 0xfed41b76, 0x89d32be0, 0x10da7a5a, 0x67dd4acc,
   0xf9b9df6f, 0x8ebeeff9, 0x17b7be43, 0x60b08ed5, 0xd6d6a3e8, 0xa1d1937e,
   0x38d8c2c4, 0x4fdff252, 0xd1bb67f1, 0xa6bc5767, 0x3fb506dd, 0x48b2364b,
   0xd80d2bda, 0xaf0a1b4c, 0x36034af6, 0x41047a60, 0xdf60efc3, 0xa867df55,
   0x316e8eef, 0x4669be79, 0xcb61b38c, 0xbc66831a, 0x256fd2a0, 0x5268e236,
   0xcc0c7795, 0xbb0b4703, 0x220216b9, 0x5505262f, 0xc5ba3bbe, 0xb2bd0b28,
   0x2bb45a92, 0x5cb36a04, 0xc2d7ffa7, 0xb5d0cf31, 0x2cd99e8b, 0x5bdeae1d,
   0x9b64c2b0, 0xec63f226, 0x756aa39c, 0x026d930a, 0x9c0906a9, 0xeb0e363f,
   0x72076785, 0x05005713, 0x95bf4a82, 0xe2b87a14, 0x7bb12bae, 0x0cb61b38,
   0x92d28e9b, 0xe5d5be0d, 0x7cdcefb7, 0x0bdbdf21, 0x86d3d2d4, 0xf1d4e242,
   0x68ddb3f8, 0x1fda836e, 0x81be16cd, 0xf6b9265b, 0x6fb077e1, 0x18b74777,
   0x88085ae6, 0xff0f6a70, 0x66063bca, 0x11010b5c, 0x8f659eff, 0xf862ae69,
   0x616bffd3, 0x166ccf45, 0xa00ae278, 0xd70dd2ee, 0x4e048354, 0x3903b3c2,
   0xa7672661, 0xd06016f7, 0x4969474d, 0x3e6e77db, 0xaed16a4a, 0xd9d65adc,
   0x40df0b66, 0x37d83bf0, 0xa9bcae53, 0xdebb9ec5, 0x47b2cf7f, 0x30b5ffe9,
   0xbdbdf21c, 0xcabac28a, 0x53b39330, 0x24b4a3a6, 0xbad03605, 0xcdd70693,
   0x54de5729, 0x23d967bf, 0xb3667a2e, 0xc4614ab8, 0x5d681b02, 0x2a6f2b94,
   0xb40bbe37, 0xc30c8ea1, 0x5a05df1b, 0x2d02ef8d]"

definition crc32_step :: "u32 \<Rightarrow> u8 \<Rightarrow> u32" where
  "crc32_step crc b =
     crc32_tab ! unat ((crc XOR ucast b) AND 0xFF) XOR drop_bit 8 crc"

fun crc32_loop :: "u32 \<Rightarrow> u8 list \<Rightarrow> u32" where
  "crc32_loop crc [] = crc"
| "crc32_loop crc (b # bs) = crc32_loop (crc32_step crc b) bs"

definition crc32 :: "u8 list \<Rightarrow> u32" where
  "crc32 buf = crc32_loop (0 XOR NOT 0) buf XOR NOT 0"

section \<open>The bitwise reference\<close>

definition crc_bit :: "u32 \<Rightarrow> u32" where
  "crc_bit c = (if bit c 0 then drop_bit 1 c XOR 0xEDB88320 else drop_bit 1 c)"

definition crc_ref :: "u8 list \<Rightarrow> u32" where
  "crc_ref bs = foldl (\<lambda>c b. (crc_bit ^^ 8) (c XOR ucast b)) (NOT 0) bs XOR NOT 0"

lemma crc_bit_xor: "crc_bit (x XOR y) = crc_bit x XOR crc_bit y"
  by (rule bit_word_eqI) (auto simp: crc_bit_def bit_simps)

lemma crc_bit_funpow_xor: "(crc_bit ^^ n) (x XOR y) = (crc_bit ^^ n) x XOR (crc_bit ^^ n) y"
  by (induction n) (simp_all add: crc_bit_xor)

lemma crc_bit_even: "\<not> bit c 0 \<Longrightarrow> crc_bit c = drop_bit 1 c"
  by (simp add: crc_bit_def)

lemma crc_bit_funpow_shift:
  "(\<forall>i<n. \<not> bit c i) \<Longrightarrow> (crc_bit ^^ n) c = drop_bit n c"
proof (induction n arbitrary: c)
  case 0
  then show ?case by simp
next
  case (Suc n)
  from Suc.prems have "crc_bit c = drop_bit 1 c" by (simp add: crc_bit_even)
  moreover have "\<forall>i<n. \<not> bit (drop_bit 1 c) i"
    using Suc.prems by (simp add: bit_simps)
  ultimately show ?case
    using Suc.IH [of "drop_bit 1 c"] by (simp add: funpow_swap1)
qed

text \<open>
  The table is checked by linearity: the entries of the eight powers of two are single steps of
  one another, and each half of the table is the other half combined with one such entry.
\<close>

definition crc_byte :: "u32 \<Rightarrow> u32" where
  "crc_byte c = (crc_bit ^^ 8) c"

lemma crc_byte_xor: "crc_byte (x XOR y) = crc_byte x XOR crc_byte y"
  by (simp add: crc_byte_def crc_bit_funpow_xor)

lemma crc_byte_shift: "(\<forall>i<8. \<not> bit c i) \<Longrightarrow> crc_byte c = drop_bit 8 c"
  by (simp add: crc_byte_def crc_bit_funpow_shift)

lemma crc_byte_crc_bit: "crc_byte (crc_bit c) = crc_bit (crc_byte c)"
  by (simp add: crc_byte_def funpow_swap1)

lemma crc_bit_odd_iff: "crc_bit c = (if odd c then drop_bit 1 c XOR 0xEDB88320 else drop_bit 1 c)"
  by (simp add: crc_bit_def bit_0)

lemma crc_byte_powers:
  "crc_byte 128 = 0xEDB88320" "crc_byte 64 = 0x76DC4190" "crc_byte 32 = 0x3B6E20C8"
  "crc_byte 16 = 0x1DB71064" "crc_byte 8 = 0x0EDB8832" "crc_byte 4 = 0x076DC419"
  "crc_byte 2 = 0xEE0E612C" "crc_byte 1 = 0x77073096"
proof -
  have half: "crc_bit 256 = 128" "crc_bit 128 = 64" "crc_bit 64 = 32" "crc_bit 32 = 16"
    "crc_bit 16 = 8" "crc_bit 8 = 4" "crc_bit 4 = 2" "crc_bit 2 = 1" "crc_bit 1 = 0xEDB88320"
    by (simp_all add: crc_bit_odd_iff)
  have "crc_byte 256 = 1"
    by (simp add: crc_byte_def eval_nat_numeral half [unfolded eval_nat_numeral])
  then show "crc_byte 128 = 0xEDB88320" by (metis crc_byte_crc_bit half(1,9))
  then show "crc_byte 64 = 0x76DC4190"
    using crc_byte_crc_bit [of 128] by (simp add: half crc_bit_odd_iff [of "0xEDB88320"])
  then show "crc_byte 32 = 0x3B6E20C8"
    using crc_byte_crc_bit [of 64] by (simp add: half crc_bit_odd_iff [of "0x76DC4190"])
  then show "crc_byte 16 = 0x1DB71064"
    using crc_byte_crc_bit [of 32] by (simp add: half crc_bit_odd_iff [of "0x3B6E20C8"])
  then show "crc_byte 8 = 0x0EDB8832"
    using crc_byte_crc_bit [of 16] by (simp add: half crc_bit_odd_iff [of "0x1DB71064"])
  then show "crc_byte 4 = 0x076DC419"
    using crc_byte_crc_bit [of 8] by (simp add: half crc_bit_odd_iff [of "0x0EDB8832"])
  then show "crc_byte 2 = 0xEE0E612C"
    using crc_byte_crc_bit [of 4] by (simp add: half crc_bit_odd_iff [of "0x076DC419"])
  then show "crc_byte 1 = 0x77073096"
    using crc_byte_crc_bit [of 2] by (simp add: half crc_bit_odd_iff [of "0xEE0E612C"])
qed

lemma crc32_tab_halves:
  "take (Suc 0) (drop (Suc 0) crc32_tab) = map (\<lambda>x. x XOR 0x77073096) (take (Suc 0) crc32_tab)"
  "take 2 (drop 2 crc32_tab) = map (\<lambda>x. x XOR 0xEE0E612C) (take 2 crc32_tab)"
  "take 4 (drop 4 crc32_tab) = map (\<lambda>x. x XOR 0x076DC419) (take 4 crc32_tab)"
  "take 8 (drop 8 crc32_tab) = map (\<lambda>x. x XOR 0x0EDB8832) (take 8 crc32_tab)"
  "take 16 (drop 16 crc32_tab) = map (\<lambda>x. x XOR 0x1DB71064) (take 16 crc32_tab)"
  "take 32 (drop 32 crc32_tab) = map (\<lambda>x. x XOR 0x3B6E20C8) (take 32 crc32_tab)"
  "take 64 (drop 64 crc32_tab) = map (\<lambda>x. x XOR 0x76DC4190) (take 64 crc32_tab)"
  "take 128 (drop 128 crc32_tab) = map (\<lambda>x. x XOR 0xEDB88320) (take 128 crc32_tab)"
  unfolding crc32_tab_def by simp_all

lemma length_crc32_tab [simp]: "length crc32_tab = 256"
  by (simp add: crc32_tab_def)

lemma xor_power_of_nat: "i < 2 ^ k \<Longrightarrow> of_nat (2 ^ k + i) = 2 ^ k XOR (of_nat i :: u32)"
proof -
  assume i: "i < 2 ^ k"
  then have "take_bit k i = i" by (simp add: take_bit_nat_eq_self)
  then have "\<not> bit i k" by (metis bit_take_bit_iff less_irrefl)
  then have "2 ^ k AND i = 0"
    by (intro bit_eqI) (auto simp: bit_simps)
  then have "2 ^ k + i = 2 ^ k XOR i" by (rule disjunctive_add_eq_xor)
  then show ?thesis by (simp only: of_nat_xor_eq of_nat_power of_nat_numeral)
qed

lemma crc32_tab_half:
  assumes "k < 8"
  shows "take (2 ^ k) (drop (2 ^ k) crc32_tab) = map (\<lambda>x. x XOR crc_byte (2 ^ k)) (take (2 ^ k) crc32_tab)"
proof -
  from assms consider "k = 0" | "k = 1" | "k = 2" | "k = 3" | "k = 4" | "k = 5" | "k = 6" | "k = 7"
    by linarith
  then show ?thesis by cases (simp_all add: crc32_tab_halves crc_byte_powers)
qed

lemma crc32_tab_below: "k \<le> 8 \<Longrightarrow> i < 2 ^ k \<Longrightarrow> crc32_tab ! i = crc_byte (of_nat i)"
proof (induction k arbitrary: i)
  case 0
  have "crc_byte 0 = 0" using crc_byte_xor [of 0 0] by simp
  with 0 show ?case by (simp add: crc32_tab_def)
next
  case (Suc k)
  have k8: "(2::nat) ^ Suc k \<le> 256"
    using Suc.prems(1) power_increasing [of "Suc k" 8 "2::nat"] by simp
  show ?case
  proof (cases "i < 2 ^ k")
    case True
    then show ?thesis using Suc by simp
  next
    case False
    define j where "j = i - 2 ^ k"
    have j: "j < 2 ^ k" "i = 2 ^ k + j" using False Suc.prems by (auto simp: j_def)
    have "crc32_tab ! i = take (2 ^ k) (drop (2 ^ k) crc32_tab) ! j"
      using j k8 by simp
    also have "\<dots> = crc_byte (of_nat j) XOR crc_byte (2 ^ k)"
      using j k8 Suc by (simp add: crc32_tab_half)
    also have "\<dots> = crc_byte (of_nat i)"
      unfolding j(2) xor_power_of_nat [OF j(1)] crc_byte_xor by (simp add: xor.commute)
    finally show ?thesis .
  qed
qed

lemma crc32_tab_nth: "i < 256 \<Longrightarrow> crc32_tab ! i = crc_byte (of_nat i)"
  using crc32_tab_below [of 8 i] by simp

section \<open>The loop computes the bitwise checksum\<close>

lemma mask_8: "mask 8 = (0xFF :: u32)"
  by (simp add: mask_eq_exp_minus_1)

lemma crc_byte_split: "crc_byte c = crc_byte (c AND 0xFF) XOR drop_bit 8 c"
proof -
  have "c = (c AND 0xFF) XOR push_bit 8 (drop_bit 8 c)"
    unfolding mask_8 [symmetric] by (rule bit_word_eqI) (auto simp: bit_simps)
  then have "crc_byte c = crc_byte (c AND 0xFF) XOR crc_byte (push_bit 8 (drop_bit 8 c))"
    by (metis crc_byte_xor)
  moreover have "drop_bit 8 (push_bit 8 (drop_bit 8 c)) = drop_bit 8 c"
    by (rule bit_word_eqI) (auto simp: bit_simps dest: bit_imp_le_length)
  ultimately show ?thesis
    by (simp add: crc_byte_shift bit_simps)
qed

lemma crc32_step_bitwise: "crc32_step crc b = crc_byte (crc XOR ucast b)"
proof -
  have "unat ((crc XOR ucast b) AND 0xFF) < 256"
    using word_and_le1 [of "crc XOR ucast b" "0xFF"] by (simp add: word_le_nat_alt)
  then have "crc32_step crc b = crc_byte ((crc XOR ucast b) AND 0xFF) XOR drop_bit 8 crc"
    by (simp add: crc32_step_def crc32_tab_nth)
  moreover have "drop_bit 8 (crc XOR ucast b) = drop_bit 8 crc"
    by (rule bit_word_eqI) (auto simp: bit_simps dest: bit_imp_le_length)
  ultimately show ?thesis by (simp add: crc_byte_split [of "crc XOR ucast b"])
qed

lemma crc32_loop_foldl: "crc32_loop c bs = foldl (\<lambda>c b. crc_byte (c XOR ucast b)) c bs"
  by (induction bs arbitrary: c) (simp_all add: crc32_step_bitwise)

lemma crc_bit_inj: "crc_bit x = crc_bit y \<Longrightarrow> x = y"
proof -
  have top: "bit (crc_bit c) 31 = bit c 0" for c
    by (simp add: crc_bit_def bit_simps) (auto dest: bit_imp_le_length)
  assume eq: "crc_bit x = crc_bit y"
  then have low: "bit x 0 = bit y 0" using top by metis
  then have "crc_bit x XOR (if bit x 0 then 0xEDB88320 else 0) = drop_bit 1 x"
    "crc_bit y XOR (if bit x 0 then 0xEDB88320 else 0) = drop_bit 1 y"
    by (simp_all add: crc_bit_def xor.assoc)
  with eq have "drop_bit 1 x = drop_bit 1 y" by simp
  then have "bit (drop_bit 1 x) n = bit (drop_bit 1 y) n" for n by simp
  then have "bit x (Suc n) = bit y (Suc n)" for n by (simp add: bit_simps)
  with low have "bit x n = bit y n" for n by (cases n) auto
  then show "x = y" by (simp add: bit_eq_iff)
qed

lemma crc_byte_inj: "crc_byte x = crc_byte y \<Longrightarrow> x = y"
proof -
  have "(crc_bit ^^ n) x = (crc_bit ^^ n) y \<Longrightarrow> x = y" for n
    by (induction n) (auto dest: crc_bit_inj)
  then show "crc_byte x = crc_byte y \<Longrightarrow> x = y" by (simp add: crc_byte_def)
qed

lemma crc_byte_funpow_inj: "(crc_byte ^^ n) x = (crc_byte ^^ n) y \<Longrightarrow> x = y"
  by (induction n) (auto dest: crc_byte_inj)

lemma crc32_loop_inj: "crc32_loop c zs = crc32_loop d zs \<Longrightarrow> c = d"
proof (induction zs arbitrary: c d)
  case (Cons z zs)
  then have "crc_byte (c XOR ucast z) = crc_byte (d XOR ucast z)"
    by (simp add: crc32_step_bitwise)
  then have "c XOR ucast z = d XOR ucast z" by (rule crc_byte_inj)
  then have "(c XOR ucast z) XOR ucast z = (d XOR ucast z) XOR ucast z" by simp
  then show ?case by (simp add: xor.assoc)
qed simp

lemma crc32_loop_append: "crc32_loop c (xs @ ys) = crc32_loop (crc32_loop c xs) ys"
  by (induction xs arbitrary: c) simp_all

text \<open>Up to four bytes at a time enter the state as one little-endian word.\<close>

lemma crc32_loop_word:
  "length bs \<le> 4 \<Longrightarrow> crc32_loop c bs = (crc_byte ^^ length bs) (c XOR bytes_word bs)"
proof (induction bs arbitrary: c)
  case (Cons b bs)
  define w where "w = bytes_word bs"
  have w: "\<not> bit w n" if "24 \<le> n" for n
    using that Cons.prems bit_bytes_word_lt [of bs n] by (auto simp: w_def)
  have "drop_bit 8 (push_bit 8 w) = w"
  proof (rule bit_word_eqI)
    fix n assume "n < LENGTH(32)"
    show "bit (drop_bit 8 (push_bit 8 w)) n = bit w n"
      using w [of n] by (cases "n < 24") (auto simp: bit_simps)
  qed
  then have "crc_byte (push_bit 8 w) = w"
    by (simp add: crc_byte_shift bit_simps)
  moreover have "ucast b OR push_bit 8 w = ucast b XOR push_bit 8 w"
    by (rule bit_word_eqI) (auto simp: bit_simps dest: bit_imp_le_length)
  ultimately have "crc_byte (c XOR ucast b) XOR w = crc_byte (c XOR bytes_word (b # bs))"
    by (simp add: crc_byte_xor w_def xor.assoc)
  with Cons show ?case
    by (simp add: crc32_step_bitwise w_def funpow_swap1)
qed simp

text \<open>
  C38: the table-driven loop of libpi/crc32.c computes, for every buffer, the bitwise CRC-32 of
  the reflected polynomial 0xEDB88320 with initial value and final complement of all ones.
\<close>

theorem crc32_bitwise: "crc32 buf = crc_ref buf"
  by (simp add: crc32_def crc_ref_def crc32_loop_foldl crc_byte_def)

lemma crc32_word_inj:
  assumes "length xs = length ys" "length xs \<le> 4"
  shows "crc32 (pre @ xs @ post) = crc32 (pre @ ys @ post) \<longleftrightarrow> xs = ys"
proof
  assume "crc32 (pre @ xs @ post) = crc32 (pre @ ys @ post)"
  then have "NOT (crc32_loop (NOT 0) (pre @ xs @ post)) = NOT (crc32_loop (NOT 0) (pre @ ys @ post))"
    by (simp add: crc32_def)
  then have "crc32_loop (crc32_loop (NOT 0) pre) xs = crc32_loop (crc32_loop (NOT 0) pre) ys"
    by (simp add: crc32_loop_append) (metis bit.double_compl crc32_loop_inj)
  then have "crc32_loop (NOT 0) pre XOR bytes_word xs = crc32_loop (NOT 0) pre XOR bytes_word ys"
    using assms crc_byte_funpow_inj [of "length ys"] by (simp add: crc32_loop_word)
  then have "bytes_word xs = bytes_word ys"
    by (simp add: word_xor_left_cancel)
  with assms show "xs = ys" by (simp add: bytes_word_inj)
qed simp

text \<open>
  C39: two messages that differ only inside one run of at most four bytes have different
  checksums, so corruption of a single transmitted word is always detected.
\<close>

theorem crc32_detects_word_error:
  assumes "length xs = length ys" "length xs \<le> 4"
  shows "crc32 (pre @ xs @ post) = crc32 (pre @ ys @ post) \<longleftrightarrow> xs = ys"
  using assms by (rule crc32_word_inj)

theorem crc32_detects_word_error_witness:
  "crc32 ([7] @ [1, 2, 3, 4] @ [9, 9]) \<noteq> crc32 ([7] @ [1, 2, 0x83, 4] @ [9, 9])"
  by (subst crc32_detects_word_error) simp_all

end
