(* ===== verification/Pi_Math.thy ===== *)
theory Pi_Math
  imports Pi_Prelude
begin

text \<open>
  The arithmetic helpers of libpi: \<open>int_log2\<close> (math.c), the linear-feedback shift register
  \<open>rpi_rand\<close> (rand.c), the line-drawing pulse-width modulation of pwm.c, and the microsecond
  delay of timer.c over a stream of timer readings.
\<close>

section \<open>Integer logarithm (math.c)\<close>

definition log2_b :: "u32 list" where
  "log2_b = [0x2, 0xC, 0xF0, 0xFF00, 0xFFFF0000]"

definition log2_S :: "u32 list" where
  "log2_S = [1, 2, 4, 8, 16]"

text \<open>The loop variable \<open>i\<close> runs from 4 down to 0; the argument is \<open>i + 1\<close>.\<close>

fun int_log2_loop :: "nat \<Rightarrow> u32 \<Rightarrow> u32 \<Rightarrow> u32" where
  "int_log2_loop 0 v r = r"
| "int_log2_loop (Suc i) v r =
     (if v AND log2_b ! i \<noteq> 0
      then int_log2_loop i (drop_bit (unat (log2_S ! i)) v) (r OR log2_S ! i)
      else int_log2_loop i v r)"

definition int_log2 :: "u32 \<Rightarrow> u32" where
  "int_log2 v = int_log2_loop 5 v 0"

section \<open>Pseudo-random numbers (rand.c)\<close>

record rand_state =
  lfsr :: u16
  rbit :: u32

definition rand_init :: rand_state where
  "rand_init = \<lparr>lfsr = 0xACE1, rbit = 0\<rparr>"

definition rpi_rand :: "rand_state \<Rightarrow> u16 \<times> rand_state" where
  "rpi_rand s =
     (let l = (ucast (lfsr s) :: u32);
          b = (drop_bit 0 l XOR drop_bit 2 l XOR drop_bit 3 l XOR drop_bit 5 l) AND 1;
          l' = (ucast (drop_bit 1 l OR push_bit 15 b) :: u16)
      in (l', \<lparr>lfsr = l', rbit = b\<rparr>))"

section \<open>Pulse-width modulation (pwm.c)\<close>

text \<open>
  \<open>int_line\<close> walks from (0, 0) to (x1, y1); the choices are collected in the order in which
  the code stores them. The C variables are \<open>int\<close>s; the walk keeps \<open>\<bar>err\<bar> < max x1 y1\<close>,
  so they do not overflow for any line that fits in memory. The loop is a partial function:
  \<open>None\<close> is a walk that misses the end point and runs on.
\<close>

partial_function (option) int_line_loop ::
  "int \<Rightarrow> int \<Rightarrow> int \<Rightarrow> int \<Rightarrow> int \<Rightarrow> nat list \<Rightarrow> nat list option" where
  "int_line_loop dx dy x0 y0 err out =
     (if x0 = dx \<and> y0 = dy then Some out
      else
        let e2 = err;
            (err1, x0', out1) = (if e2 > - dx then (err - dy, x0 + 1, out @ [1]) else (err, x0, out));
            (err2, y0', out2) = (if e2 < dy then (err1 + dx, y0 + 1, out1 @ [0]) else (err1, y0, out1))
        in int_line_loop dx dy x0' y0' err2 out2)"

definition int_line :: "nat \<Rightarrow> nat \<Rightarrow> nat \<Rightarrow> nat list option res" where
  "int_line n x1 y1 =
     (let dx = int x1; dy = int y1;
          err = (if dx > dy then dx div 2 else - (dy div 2))
      in rbind (assert_that (n = x1 + y1)) (\<lambda>_.
         case int_line_loop dx dy 0 0 err [] of
           None \<Rightarrow> Inr None
         | Some out \<Rightarrow> rbind (assert_that (length out = n)) (\<lambda>_. Inr (Some out))))"

definition pwm_compute :: "nat \<Rightarrow> nat \<Rightarrow> nat list option res" where
  "pwm_compute on n =
     rbind (assert_that (on \<le> n)) (\<lambda>_. int_line n on (n - on))"

section \<open>Delays (timer.c)\<close>

text \<open>
  \<open>timer k\<close> is the k-th reading of the free-running 32-bit counter. \<open>delay_us\<close> returns the
  number of the reading at which it leaves its loop.
\<close>

partial_function (option) delay_us_loop ::
  "(nat \<Rightarrow> u32) \<Rightarrow> u32 \<Rightarrow> u32 \<Rightarrow> nat \<Rightarrow> nat option" where
  "delay_us_loop timer rb us k =
     (if timer k - rb \<ge> us then Some k else delay_us_loop timer rb us (Suc k))"

definition delay_us :: "(nat \<Rightarrow> u32) \<Rightarrow> u32 \<Rightarrow> nat option" where
  "delay_us timer us = delay_us_loop timer (timer 0) us 1"

definition delay_ms :: "(nat \<Rightarrow> u32) \<Rightarrow> u32 \<Rightarrow> nat option" where
  "delay_ms timer ms = delay_us timer (ms * 1000)"

section \<open>Correctness of the logarithm\<close>

lemma log2_S_nth: "i < 5 \<Longrightarrow> log2_S ! i = 2 ^ (i :: nat)"
  by (auto simp: log2_S_def less_Suc_eq numeral_eq_Suc)

lemma log2_b_nth: "i < 5 \<Longrightarrow> log2_b ! i = push_bit (2 ^ i) (mask (2 ^ i))"
  by (auto simp: log2_b_def mask_eq_exp_minus_1 push_bit_eq_mult less_Suc_eq numeral_eq_Suc)

lemma and_high_half_iff:
  fixes v :: u32
  assumes "unat v < 2 ^ (2 * k)"
  shows "v AND push_bit k (mask k) \<noteq> 0 \<longleftrightarrow> 2 ^ k \<le> unat v"
proof -
  have small: "n < 2 * k" if "bit v n" for n
  proof -
    have "take_bit (2 * k) (unat v) = unat v" using assms by (simp add: take_bit_nat_eq_self)
    then have "bit (take_bit (2 * k) (unat v)) n" using that by (simp add: bit_unsigned_iff)
    then show ?thesis by (simp add: bit_take_bit_iff)
  qed
  have "bit (v AND push_bit k (mask k)) n = (bit v n \<and> k \<le> n)" for n
    using small [of n] bit_imp_le_length [of v n] by (auto simp: bit_simps)
  then have "v AND push_bit k (mask k) = 0 \<longleftrightarrow> (\<forall>n. bit v n \<longrightarrow> \<not> k \<le> n)"
    using bit_imp_le_length [of v] by (fastforce simp: bit_eq_iff)
  moreover have "drop_bit k v = 0 \<longleftrightarrow> (\<forall>n. \<not> bit v (k + n))"
    using bit_imp_le_length [of v] by (fastforce simp: bit_eq_iff bit_drop_bit_eq)
  then have "drop_bit k v = 0 \<longleftrightarrow> (\<forall>n. bit v n \<longrightarrow> \<not> k \<le> n)"
    by (metis le_Suc_ex le_add1)
  moreover have "drop_bit k v = 0 \<longleftrightarrow> unat v < 2 ^ k"
    by (metis div_eq_0_iff power_not_zero unat_drop_bit unat_eq_0 zero_neq_numeral)
  ultimately show ?thesis by auto
qed

lemma or_exp_add:
  fixes r :: u32
  assumes "\<not> bit r i" shows "r OR 2 ^ i = r + 2 ^ i"
proof -
  have "r AND 2 ^ i = 0" using assms by (intro bit_word_eqI) (auto simp: bit_simps)
  then show ?thesis by (simp add: disjunctive_add_eq_or)
qed

lemma int_log2_loop_correct:
  assumes "i \<le> 5" "v \<noteq> 0" "unat v < 2 ^ (2 ^ i)" "\<forall>j<i. \<not> bit r j"
  shows "\<exists>e. int_log2_loop i v r = r + of_nat e \<and> e < 2 ^ i \<and> 2 ^ e \<le> unat v \<and> unat v < 2 ^ (e + 1)"
  using assms
proof (induction i arbitrary: v r)
  case 0
  then have "unat v = 1" using word_cases_zero [of v] by simp
  then show ?case by (intro exI [of _ 0]) simp
next
  case (Suc i)
  have S: "log2_S ! i = 2 ^ i" and b: "log2_b ! i = push_bit (2 ^ i) (mask (2 ^ i))"
    using Suc.prems(1) by (simp_all add: log2_S_nth log2_b_nth)
  have shift: "unat (2 ^ i :: u32) = 2 ^ i"
    using unat_of_nat_u32 [of "2 ^ i"] Suc.prems(1) power_increasing [of i 4 "2::nat"] by simp
  have test: "v AND log2_b ! i \<noteq> 0 \<longleftrightarrow> 2 ^ (2 ^ i) \<le> unat v"
    unfolding b by (rule and_high_half_iff) (use Suc.prems(3) in simp)
  show ?case
  proof (cases "2 ^ (2 ^ i) \<le> unat v")
    case False
    with Suc.IH [of v r] Suc.prems test show ?thesis by (fastforce simp: mult_2)
  next
    case True
    let ?v = "drop_bit (2 ^ i) v" and ?r = "r OR 2 ^ i"
    have uv: "unat ?v = unat v div 2 ^ (2 ^ i)" by (rule unat_drop_bit)
    have "0 < unat ?v" unfolding uv using True by (simp add: div_greater_zero_iff)
    then have "?v \<noteq> 0" by auto
    moreover have "unat ?v < 2 ^ (2 ^ i)"
      unfolding uv using Suc.prems(3) by (simp add: less_mult_imp_div_less power_add mult_2)
    moreover have "\<forall>j<i. \<not> bit ?r j" using Suc.prems(4) by (auto simp: bit_simps)
    ultimately obtain e where e: "int_log2_loop i ?v ?r = ?r + of_nat e" "e < 2 ^ i"
      "2 ^ e \<le> unat ?v" "unat ?v < 2 ^ (e + 1)"
      using Suc.IH [of ?v ?r] Suc.prems(1) by auto
    have "?r = r + 2 ^ i" using Suc.prems(4) by (intro or_exp_add) simp
    with e(1) True test have "int_log2_loop (Suc i) v r = r + of_nat (2 ^ i + e)"
      by (simp add: S shift)
    moreover have "2 ^ (2 ^ i + e) \<le> unat v" "unat v < 2 ^ (2 ^ i + e + 1)"
      using e(3,4) unfolding uv
      by (simp_all add: power_add less_eq_div_iff_mult_less_eq div_less_iff_less_mult mult.commute
          mult.left_commute)
    ultimately show ?thesis using e(2) by (intro exI [of _ "2 ^ i + e"]) (simp add: mult_2)
  qed
qed

text \<open>
  For every nonzero argument \<open>int_log2\<close> returns the base-2 logarithm rounded down, the
  contract stated in rpi.h.
\<close>

theorem int_log2_floor:
  assumes "v \<noteq> 0"
  shows "2 ^ unat (int_log2 v) \<le> unat v \<and> unat v < 2 ^ (unat (int_log2 v) + 1)"
proof -
  obtain e where "int_log2 v = of_nat e" "e < 32" "2 ^ e \<le> unat v" "unat v < 2 ^ (e + 1)"
    using int_log2_loop_correct [of 5 v 0] assms unat_u32_lt [of v] by (auto simp: int_log2_def)
  then show ?thesis by (simp add: unat_of_nat)
qed

theorem int_log2_floor_witness:
  "2 ^ unat (int_log2 100) \<le> unat (100 :: u32) \<and> unat (100 :: u32) < 2 ^ (unat (int_log2 100) + 1)"
  using int_log2_floor [of 100] by simp

section \<open>The shift register never sticks\<close>

lemma bit_rpi_rand:
  "n < 16 \<Longrightarrow> bit (fst (rpi_rand s)) n \<longleftrightarrow>
     (if n = 15 then (bit (lfsr s) 0 \<noteq> bit (lfsr s) 2) \<noteq> (bit (lfsr s) 3 \<noteq> bit (lfsr s) 5)
      else bit (lfsr s) (Suc n))"
  by (auto simp: rpi_rand_def Let_def bit_simps dest: bit_imp_le_length)

lemma rpi_rand_inj: "fst (rpi_rand s) = fst (rpi_rand t) \<Longrightarrow> lfsr s = lfsr t"
proof (rule bit_word_eqI)
  assume eq: "fst (rpi_rand s) = fst (rpi_rand t)"
  have hi: "bit (lfsr s) (Suc n) = bit (lfsr t) (Suc n)" if "n < 15" for n
    using bit_rpi_rand [of n s] bit_rpi_rand [of n t] eq that by simp
  have "bit (lfsr s) 0 = bit (lfsr t) 0"
    using bit_rpi_rand [of 15 s] bit_rpi_rand [of 15 t] eq hi [of 1] hi [of 2] hi [of 4]
    by (auto simp: numeral_eq_Suc)
  then show "bit (lfsr s) n = bit (lfsr t) n" if "n < LENGTH(16)" for n
    using hi that by (cases n) auto
qed

lemma rpi_rand_zero_iff: "fst (rpi_rand s) = 0 \<longleftrightarrow> lfsr s = 0"
proof -
  have "fst (rpi_rand \<lparr>lfsr = 0, rbit = 0\<rparr>) = 0" by (simp add: rpi_rand_def)
  then show ?thesis
    using rpi_rand_inj [of s "\<lparr>lfsr = 0, rbit = 0\<rparr>"] by (auto simp: rpi_rand_def)
qed

lemma lfsr_snd_rpi_rand [simp]: "lfsr (snd (rpi_rand s)) = fst (rpi_rand s)"
  by (simp add: rpi_rand_def Let_def)

text \<open>
  From the seed, every number \<open>rpi_rand\<close> returns is nonzero, so the register never enters
  its absorbing state, and the step is a permutation of the register values.
\<close>

theorem rpi_rand_never_zero:
  "fst (rpi_rand (((\<lambda>s. snd (rpi_rand s)) ^^ n) rand_init)) \<noteq> 0
   \<and> bij (\<lambda>l. fst (rpi_rand \<lparr>lfsr = l, rbit = b\<rparr>))"
proof
  have "lfsr (((\<lambda>s. snd (rpi_rand s)) ^^ n) rand_init) \<noteq> 0"
    by (induction n) (simp_all add: rand_init_def rpi_rand_zero_iff)
  then show "fst (rpi_rand (((\<lambda>s. snd (rpi_rand s)) ^^ n) rand_init)) \<noteq> 0"
    by (simp add: rpi_rand_zero_iff)
  have "inj (\<lambda>l. fst (rpi_rand \<lparr>lfsr = l, rbit = b\<rparr>))"
    by (rule injI) (use rpi_rand_inj in fastforce)
  then show "bij (\<lambda>l. fst (rpi_rand \<lparr>lfsr = l, rbit = b\<rparr>))"
    by (simp add: bij_def finite_UNIV_inj_surj)
qed

section \<open>The modulation is proportional\<close>

definition balanced :: "int \<Rightarrow> int \<Rightarrow> nat list \<Rightarrow> bool" where
  "balanced dx dy out \<longleftrightarrow> (\<forall>k \<le> length out.
     \<bar>int (count_list (take k out) 1) * (dx + dy) - int k * dx\<bar> < dx + dy)"

lemma count_list_snoc: "count_list (xs @ [x]) y = count_list xs y + (if x = y then 1 else 0)"
  by simp

lemma balanced_snoc:
  "balanced dx dy (out @ [c]) \<longleftrightarrow> balanced dx dy out \<and>
     \<bar>int (count_list (out @ [c]) 1) * (dx + dy) - int (length out + 1) * dx\<bar> < dx + dy"
proof -
  have "(\<forall>k \<le> Suc (length out). P (take k (out @ [c])) k) \<longleftrightarrow>
      (\<forall>k \<le> length out. P (take k out) k) \<and> P (out @ [c]) (Suc (length out))" for P
    by (auto simp: le_Suc_eq)
  from this [of "\<lambda>xs k. \<bar>int (count_list xs 1) * (dx + dy) - int k * dx\<bar> < dx + dy"]
  show ?thesis by (simp add: balanced_def)
qed

text \<open>The state of the walk after some rounds: what has been stored and how far it drifted.\<close>

definition line_inv :: "int \<Rightarrow> int \<Rightarrow> int \<Rightarrow> int \<Rightarrow> int \<Rightarrow> int \<Rightarrow> nat list \<Rightarrow> bool" where
  "line_inv dx dy err0 x0 y0 err out \<longleftrightarrow>
     int (length out) = x0 + y0 \<and> int (count_list out 1) = x0 \<and> balanced dx dy out \<and>
     err = err0 - x0 * dy + y0 * dx"

lemma line_inv_on:
  assumes "line_inv dx dy err0 x0 y0 err out" "\<bar>err0 - err + dy\<bar> < dx + dy"
  shows "line_inv dx dy err0 (x0 + 1) y0 (err - dy) (out @ [1])"
proof -
  have "(x0 + 1) * (dx + dy) - (x0 + y0 + 1) * dx = err0 - err + dy"
    using assms(1) by (simp add: line_inv_def algebra_simps)
  then have "\<bar>int (count_list (out @ [1]) 1) * (dx + dy) - int (length out + 1) * dx\<bar> < dx + dy"
    using assms by (simp add: line_inv_def ac_simps)
  then show ?thesis
    using assms(1) unfolding line_inv_def balanced_snoc by (auto simp: algebra_simps)
qed

lemma line_inv_off:
  assumes "line_inv dx dy err0 x0 y0 err out" "\<bar>err0 - err - dx\<bar> < dx + dy"
  shows "line_inv dx dy err0 x0 (y0 + 1) (err + dx) (out @ [0])"
proof -
  have "x0 * (dx + dy) - (x0 + y0 + 1) * dx = err0 - err - dx"
    using assms(1) by (simp add: line_inv_def algebra_simps)
  then have "\<bar>int (count_list (out @ [0]) 1) * (dx + dy) - int (length out + 1) * dx\<bar> < dx + dy"
    using assms by (simp add: line_inv_def ac_simps)
  then show ?thesis
    using assms(1) unfolding line_inv_def balanced_snoc by (auto simp: algebra_simps)
qed

lemma multiple_in_band:
  fixes k :: int
  assumes "\<bar>m * k\<bar> < m" shows "k = 0"
proof (rule ccontr)
  assume "k \<noteq> 0"
  then have "\<bar>m\<bar> * 1 \<le> \<bar>m\<bar> * \<bar>k\<bar>" by (intro mult_left_mono) auto
  with assms show False by (simp add: abs_mult)
qed

text \<open>A line with more on than off steps: every round stores a 1.\<close>

lemma int_line_loop_flat:
  assumes "0 \<le> dy" "dy < dx" "0 \<le> err0" "err0 < dx" "0 \<le> err" "err < dx"
    and "line_inv dx dy err0 x0 y0 err out" "dx - x0 = int k"
  shows "\<exists>out'. int_line_loop dx dy x0 y0 err out = Some out'
           \<and> (\<exists>err'. line_inv dx dy err0 dx dy err' out')"
  using assms(5-8)
proof (induction k arbitrary: x0 y0 err out)
  case 0
  then have x0: "x0 = dx" by simp
  with 0 have "dx * (y0 - dy) = err - err0" by (simp add: line_inv_def algebra_simps)
  then have "y0 - dy = 0" using assms(3,4) 0 by (intro multiple_in_band [of dx]) auto
  with 0 x0 show ?case by (subst int_line_loop.simps) auto
next
  case (Suc k)
  have on: "line_inv dx dy err0 (x0 + 1) y0 (err - dy) (out @ [1])"
    by (rule line_inv_on) (use Suc assms(1-4) in auto)
  show ?case
  proof (cases "err < dy")
    case True
    then have "line_inv dx dy err0 (x0 + 1) (y0 + 1) (err - dy + dx) (out @ [1] @ [0])"
      using line_inv_off [OF on] Suc assms(1-4) by simp
    with Suc.IH [of "err - dy + dx" "x0 + 1" "y0 + 1" "out @ [1] @ [0]"] True Suc.prems assms(1-4)
    show ?thesis by (subst int_line_loop.simps) auto
  next
    case False
    with Suc.IH [of "err - dy" "x0 + 1" y0 "out @ [1]"] on Suc.prems assms(1-4)
    show ?thesis by (subst int_line_loop.simps) auto
  qed
qed

text \<open>A line with at least as many off as on steps: every round stores a 0.\<close>

lemma int_line_loop_steep:
  assumes "0 \<le> dx" "dx \<le> dy" "- dy < err0" "err0 \<le> 0" "- dy < err" "err \<le> 0"
    and "line_inv dx dy err0 x0 y0 err out" "dy - y0 = int k"
  shows "\<exists>out'. int_line_loop dx dy x0 y0 err out = Some out'
           \<and> (\<exists>err'. line_inv dx dy err0 dx dy err' out')"
  using assms(5-8)
proof (induction k arbitrary: x0 y0 err out)
  case 0
  then have y0: "y0 = dy" by simp
  with 0 have "dy * (x0 - dx) = err0 - err" by (simp add: line_inv_def algebra_simps)
  then have "x0 - dx = 0" using assms(3,4) 0 by (intro multiple_in_band [of dy]) auto
  with 0 y0 show ?case by (subst int_line_loop.simps) auto
next
  case (Suc k)
  show ?case
  proof (cases "- dx < err")
    case True
    have on: "line_inv dx dy err0 (x0 + 1) y0 (err - dy) (out @ [1])"
      by (rule line_inv_on) (use Suc True assms(1-4) in auto)
    then have "line_inv dx dy err0 (x0 + 1) (y0 + 1) (err - dy + dx) (out @ [1] @ [0])"
      using line_inv_off [OF on] Suc True assms(1-4) by simp
    with Suc.IH [of "err - dy + dx" "x0 + 1" "y0 + 1" "out @ [1] @ [0]"] True Suc.prems assms(1-4)
    show ?thesis by (subst int_line_loop.simps) auto
  next
    case False
    have "line_inv dx dy err0 x0 (y0 + 1) (err + dx) (out @ [0])"
      by (rule line_inv_off) (use Suc False assms(1-4) in auto)
    with Suc.IH [of "err + dx" x0 "y0 + 1" "out @ [0]"] False Suc.prems assms(1-4)
    show ?thesis by (subst int_line_loop.simps) auto
  qed
qed

lemma int_line_loop_total:
  assumes "0 < x1 + y1"
  shows "\<exists>out err0 err'. int_line_loop (int x1) (int y1) 0 0
      (if int x1 > int y1 then int x1 div 2 else - (int y1 div 2)) [] = Some out
    \<and> line_inv (int x1) (int y1) err0 (int x1) (int y1) err' out"
proof -
  have init: "line_inv (int x1) (int y1) e 0 0 e []" for e
    using assms by (auto simp: line_inv_def balanced_def)
  show ?thesis
  proof (cases "y1 < x1")
    case True
    then show ?thesis
      using int_line_loop_flat [of "int y1" "int x1" "int x1 div 2" "int x1 div 2" 0 0 "[]" x1] init
      by fastforce
  next
    case False
    then show ?thesis
      using int_line_loop_steep [of "int x1" "int y1" "- (int y1 div 2)" "- (int y1 div 2)" 0 0 "[]" y1]
        init assms by fastforce
  qed
qed

text \<open>
  For every \<open>on \<le> n\<close> with \<open>n\<close> positive, \<open>pwm_compute\<close> terminates without tripping its
  assertions, fills exactly \<open>n\<close> slots of which exactly \<open>on\<close> are 1, and in every prefix the
  number of 1s is within one of the exact proportion \<open>k * on / n\<close>.
\<close>

theorem pwm_compute_proportional:
  assumes "on \<le> n" "0 < n"
  shows "\<exists>out. pwm_compute on n = Inr (Some out) \<and> length out = n \<and> count_list out 1 = on
    \<and> (\<forall>k \<le> n. \<bar>int (count_list (take k out) 1) * int n - int k * int on\<bar> < int n)"
proof -
  obtain out err0 err' where out:
    "int_line_loop (int on) (int (n - on)) 0 0
       (if int on > int (n - on) then int on div 2 else - (int (n - on) div 2)) [] = Some out"
    "line_inv (int on) (int (n - on)) err0 (int on) (int (n - on)) err' out"
    using int_line_loop_total [of on "n - on"] assms by auto
  from out(2) assms have len: "length out = n" and cnt: "count_list out 1 = on"
    by (auto simp: line_inv_def)
  have "balanced (int on) (int (n - on)) out" using out(2) by (simp add: line_inv_def)
  moreover have "int on + int (n - on) = int n" using assms by simp
  ultimately have bal: "\<forall>k \<le> n. \<bar>int (count_list (take k out) 1) * int n - int k * int on\<bar> < int n"
    by (simp add: balanced_def len)
  have "int_line n on (n - on) = Inr (Some out)"
    unfolding int_line_def Let_def out(1) using assms len by simp
  then have "pwm_compute on n = Inr (Some out)"
    using assms by (simp add: pwm_compute_def)
  with len cnt bal show ?thesis by blast
qed

theorem pwm_compute_proportional_witness:
  "\<exists>out. pwm_compute 3 10 = Inr (Some out) \<and> length out = 10 \<and> count_list out 1 = 3
    \<and> (\<forall>k \<le> 10. \<bar>int (count_list (take k out) 1) * int 10 - int k * int 3\<bar> < int 10)"
  by (rule pwm_compute_proportional) simp_all

section \<open>Delays across counter wrap-around\<close>

lemma delay_us_loop_first:
  assumes "k \<le> n" "timer n - rb \<ge> us" "\<forall>j. k \<le> j \<and> j < n \<longrightarrow> \<not> timer j - rb \<ge> us"
  shows "delay_us_loop timer rb us k = Some n"
  using assms
proof (induction "n - k" arbitrary: k)
  case 0
  then show ?case by (subst delay_us_loop.simps) simp
next
  case (Suc d)
  then have "delay_us_loop timer rb us (Suc k) = Some n" by (intro Suc.hyps(1)) auto
  with Suc show ?case
    by (subst delay_us_loop.simps) (auto simp: le_less)
qed

text \<open>
  \<open>delay_us\<close> waits for the right time also when the 32-bit counter wraps: if the reading k
  is the start value plus the true elapsed time \<open>el k\<close> (taken modulo \<open>2^32\<close>), and n is the first
  reading at which at least \<open>us\<close> microseconds have elapsed, then \<open>delay_us\<close> stops exactly at
  reading n, provided that reading comes before a full turn of the counter.
\<close>

theorem delay_us_waits:
  assumes "\<And>k. timer k = timer 0 + of_nat (el k)" "1 \<le> n" "unat us \<le> el n" "el n < 2 ^ 32"
    and "\<And>k. 1 \<le> k \<Longrightarrow> k < n \<Longrightarrow> el k < unat us"
  shows "delay_us timer us = Some n"
proof -
  have diff: "timer k - timer 0 = of_nat (el k)" for k using assms(1) [of k] by simp
  have "us \<le> of_nat (el n)"
    using assms(3,4) by (simp add: word_le_nat_alt unat_of_nat)
  moreover have "\<not> us \<le> of_nat (el k)" if "1 \<le> k" "k < n" for k
    using assms(5) [OF that] unat_u32_lt [of us] by (simp add: word_le_nat_alt unat_of_nat)
  ultimately show ?thesis
    unfolding delay_us_def using assms(2) by (intro delay_us_loop_first) (auto simp: diff)
qed

theorem delay_us_waits_witness:
  "delay_us (\<lambda>k. 0xFFFFFFFF + of_nat (10 * k)) 25 = Some 3"
  by (rule delay_us_waits [where el = "\<lambda>k. 10 * k"]) auto

end
