(* ===== verification/Pi_Stdlib.thy ===== *)
theory Pi_Stdlib
  imports Pi_Prelude
begin

text \<open>
  The C library routines of pi-side/libpi/stdlib.c on byte-addressed memory. Counters are 32-bit
  words and run as the loops of the source do. A loop that stops at a NUL byte (or at a
  difference) is a partial function: it has no result when memory holds no such byte.
  \<open>char\<close> is unsigned on the target, so a character promoted to \<open>int\<close> is its byte value.
\<close>

section \<open>Blocks of memory\<close>

function memset_loop :: "u32 \<Rightarrow> u32 \<Rightarrow> u8 \<Rightarrow> mem \<Rightarrow> mem" where
  "memset_loop p e c m = (if p < e then memset_loop (p + 1) e c (m(p := c)) else m)"
  by pat_completeness auto
termination
  by (relation "measure (\<lambda>(p, e, c, m). unat e - unat p)") (simp_all add: unat_diff_less_u32)

definition memset :: "u32 \<Rightarrow> u8 \<Rightarrow> u32 \<Rightarrow> mem \<Rightarrow> u32 \<times> mem" where
  "memset p c n m = (p, memset_loop p (p + n) c m)"

function memcmp_loop :: "u32 \<Rightarrow> u32 \<Rightarrow> u32 \<Rightarrow> u32 \<Rightarrow> mem \<Rightarrow> int" where
  "memcmp_loop i nbytes s1 s2 m =
     (if i < nbytes then
        let v = uint (m (s1 + i)) - uint (m (s2 + i)) in
        if v \<noteq> 0 then v else memcmp_loop (i + 1) nbytes s1 s2 m
      else 0)"
  by pat_completeness auto
termination
  by (relation "measure (\<lambda>(i, n, s1, s2, m). unat n - unat i)") (simp_all add: unat_diff_less_u32)

definition memcmp :: "u32 \<Rightarrow> u32 \<Rightarrow> u32 \<Rightarrow> mem \<Rightarrow> int" where
  "memcmp s1 s2 nbytes m = memcmp_loop 0 nbytes s1 s2 m"

definition aligned4 :: "u32 \<Rightarrow> bool" where
  "aligned4 p \<longleftrightarrow> p mod 4 = 0"

function memcpy_words :: "u32 \<Rightarrow> u32 \<Rightarrow> u32 \<Rightarrow> u32 \<Rightarrow> mem \<Rightarrow> mem" where
  "memcpy_words i n d s m =
     (if i < n then memcpy_words (i + 1) n d s (PUT32 m (d + 4 * i) (GET32 m (s + 4 * i))) else m)"
  by pat_completeness auto
termination
  by (relation "measure (\<lambda>(i, n, d, s, m). unat n - unat i)") (simp_all add: unat_diff_less_u32)

function memcpy_bytes :: "u32 \<Rightarrow> u32 \<Rightarrow> u32 \<Rightarrow> u32 \<Rightarrow> mem \<Rightarrow> mem" where
  "memcpy_bytes i nbytes d s m =
     (if i < nbytes then memcpy_bytes (i + 1) nbytes d s (m(d + i := m (s + i))) else m)"
  by pat_completeness auto
termination
  by (relation "measure (\<lambda>(i, n, d, s, m). unat n - unat i)") (simp_all add: unat_diff_less_u32)

definition memcpy :: "u32 \<Rightarrow> u32 \<Rightarrow> u32 \<Rightarrow> mem \<Rightarrow> u32 \<times> mem" where
  "memcpy dst src nbytes m =
     (dst, if aligned4 dst \<and> aligned4 src \<and> aligned4 nbytes
           then memcpy_words 0 (nbytes div 4) dst src m
           else memcpy_bytes 0 nbytes dst src m)"

section \<open>Strings\<close>

partial_function (option) strcmp :: "u32 \<Rightarrow> u32 \<Rightarrow> mem \<Rightarrow> int option" where
  "strcmp a b m =
     (if m a \<noteq> 0 \<and> m a = m b then strcmp (a + 1) (b + 1) m else Some (uint (m a) - uint (m b)))"

fun strncmp_loop :: "nat \<Rightarrow> u32 \<Rightarrow> u32 \<Rightarrow> mem \<Rightarrow> int" where
  "strncmp_loop 0 s1 s2 m = 0"
| "strncmp_loop (Suc n) s1 s2 m =
     (if m s1 \<noteq> m s2 then uint (m s1) - uint (m s2) else strncmp_loop n (s1 + 1) (s2 + 1) m)"

definition strncmp :: "u32 \<Rightarrow> u32 \<Rightarrow> u32 \<Rightarrow> mem \<Rightarrow> int" where
  "strncmp s1 s2 n m = strncmp_loop (unat n) s1 s2 m"

partial_function (option) strcat_end :: "u32 \<Rightarrow> mem \<Rightarrow> u32 option" where
  "strcat_end s1 m = (let c = m s1; s1 = s1 + 1 in if c \<noteq> 0 then strcat_end s1 m else Some s1)"

partial_function (option) strcat_copy :: "u32 \<Rightarrow> u32 \<Rightarrow> mem \<Rightarrow> mem option" where
  "strcat_copy s1 s2 m =
     (let c = m s2; s2 = s2 + 1; s1 = s1 + 1; m = m(s1 := c)
      in if c \<noteq> 0 then strcat_copy s1 s2 m else Some m)"

definition strcat :: "u32 \<Rightarrow> u32 \<Rightarrow> mem \<Rightarrow> (u32 \<times> mem) option" where
  "strcat dest src m =
     (case strcat_end dest m of None \<Rightarrow> None
      | Some s1 \<Rightarrow> map_option (Pair dest) (strcat_copy (s1 - 2) src m))"

partial_function (option) strlen_loop :: "u32 \<Rightarrow> u32 \<Rightarrow> mem \<Rightarrow> u32 option" where
  "strlen_loop ret p m = (if m (p + ret) \<noteq> 0 then strlen_loop (ret + 1) p m else Some ret)"

definition strlen :: "u32 \<Rightarrow> mem \<Rightarrow> u32 option" where
  "strlen p m = strlen_loop 0 p m"

partial_function (option) strcpy_loop :: "u32 \<Rightarrow> u32 \<Rightarrow> mem \<Rightarrow> mem option" where
  "strcpy_loop s s2 m =
     (let c = m s2; m = m(s := c) in if c \<noteq> 0 then strcpy_loop (s + 1) (s2 + 1) m else Some m)"

definition strcpy :: "u32 \<Rightarrow> u32 \<Rightarrow> mem \<Rightarrow> (u32 \<times> mem) option" where
  "strcpy s1 s2 m = map_option (Pair s1) (strcpy_loop s1 s2 m)"

partial_function (option) strchr :: "u32 \<Rightarrow> int \<Rightarrow> mem \<Rightarrow> u32 option" where
  "strchr p c m =
     (if m p \<noteq> 0 then if uint (m p) = c then Some p else strchr (p + 1) c m else Some 0)"

definition toupper :: "int \<Rightarrow> int" where
  "toupper c = (if 97 \<le> c \<and> c \<le> 122 then c + (65 - 97) else c)"

text \<open>Memory holds the string \<open>s\<close> at \<open>p\<close>: its bytes, none of them NUL, and a NUL.\<close>

fun cstr :: "mem \<Rightarrow> u32 \<Rightarrow> u8 list \<Rightarrow> bool" where
  "cstr m p [] \<longleftrightarrow> m p = 0"
| "cstr m p (c # cs) \<longleftrightarrow> c \<noteq> 0 \<and> m p = c \<and> cstr m (p + 1) cs"

section \<open>Blocks: what the loops leave in memory\<close>

declare memset_loop.simps [simp del] memcmp_loop.simps [simp del] memcpy_words.simps [simp del]
  memcpy_bytes.simps [simp del]

lemma of_nat_less_u32: "j < k \<Longrightarrow> k < 4294967296 \<Longrightarrow> (of_nat j :: u32) < of_nat k"
  by (simp add: word_less_nat_alt unat_of_nat_u32)

lemma memset_loop_eq:
  "unat p + n < 4294967296 \<Longrightarrow> memset_loop p (p + of_nat n) c m = store_bytes m p (replicate n c)"
proof (induction n arbitrary: p m)
  case 0
  then show ?case by (simp add: memset_loop.simps)
next
  case (Suc n)
  have u: "unat (p + of_nat (Suc n)) = unat p + Suc n"
    using Suc.prems by (simp add: unat_word_ariths unat_of_nat)
  then have lt: "p < p + of_nat (Suc n)" by (simp add: word_less_nat_alt)
  moreover have "unat (p + 1) + n < 4294967296"
    using Suc.prems unat_Suc_u32 [OF lt] by simp
  moreover have "p + of_nat (Suc n) = (p + 1) + of_nat n" by (simp add: algebra_simps)
  ultimately have "memset_loop p (p + of_nat (Suc n)) c m = memset_loop (p + 1) ((p + 1) + of_nat n) c (m(p := c))"
    by (simp add: memset_loop.simps [of p] ac_simps)
  also have "\<dots> = store_bytes (m(p := c)) (p + 1) (replicate n c)"
    using \<open>unat (p + 1) + n < 4294967296\<close> by (rule Suc.IH)
  finally show ?case using Suc.prems by (simp add: store_bytes_Cons)
qed

lemma memset_eq:
  assumes "unat p + unat n < 4294967296"
  shows "memset p c n m = (p, store_bytes m p (replicate (unat n) c))"
  using memset_loop_eq [of p "unat n" c m] assms by (simp add: memset_def)

lemma memcpy_bytes_eq:
  "j + k < 4294967296 \<Longrightarrow> apart dst (j + k) src (j + k) \<Longrightarrow>
   memcpy_bytes (of_nat j) (of_nat (j + k)) dst src m =
   store_bytes m (dst + of_nat j) (load_bytes m (src + of_nat j) k)"
proof (induction k arbitrary: j m)
  case 0
  then show ?case by (simp add: memcpy_bytes.simps)
next
  case (Suc k)
  let ?m = "m(dst + of_nat j := m (src + of_nat j))"
  have "apart (src + of_nat j) (Suc k) (dst + of_nat j) 1"
    using apart_sub [OF Suc.prems(2), of j 1 j "Suc k"] by (simp add: apart_def Int_commute)
  then have keep: "load_bytes ?m (src + of_nat j + 1) k = load_bytes m (src + of_nat j + 1) k"
    by (intro load_bytes_cong) (auto simp: apart_def region_Suc)
  have "memcpy_bytes (of_nat j) (of_nat (j + Suc k)) dst src m
      = memcpy_bytes (of_nat (Suc j)) (of_nat (Suc j + k)) dst src ?m"
    using of_nat_less_u32 [of j "j + Suc k"] Suc.prems(1)
    by (simp add: memcpy_bytes.simps [of "of_nat j"] algebra_simps)
  also have "\<dots> = store_bytes ?m (dst + of_nat (Suc j)) (load_bytes ?m (src + of_nat (Suc j)) k)"
    using Suc.prems by (intro Suc.IH) simp_all
  finally show ?case
    using Suc.prems(1) keep by (simp add: load_bytes_Suc store_bytes_Cons algebra_simps)
qed

lemma memcpy_words_eq:
  "4 * (j + k) < 4294967296 \<Longrightarrow> apart dst (4 * (j + k)) src (4 * (j + k)) \<Longrightarrow>
   memcpy_words (of_nat j) (of_nat (j + k)) dst src m =
   store_bytes m (dst + of_nat (4 * j)) (load_bytes m (src + of_nat (4 * j)) (4 * k))"
proof (induction k arbitrary: j m)
  case 0
  then show ?case by (simp add: memcpy_words.simps)
next
  case (Suc k)
  let ?d = "dst + of_nat (4 * j)" and ?s = "src + of_nat (4 * j)"
  let ?m = "store_bytes m ?d (load_bytes m ?s 4)"
  have "apart (?s + of_nat 4) (4 * k) ?d 4"
    using apart_sub [OF Suc.prems(2), of "4 * j" 4 "4 * j + 4" "4 * k"]
    by (simp add: apart_def Int_commute algebra_simps)
  then have keep: "load_bytes ?m (?s + of_nat 4) (4 * k) = load_bytes m (?s + of_nat 4) (4 * k)"
    by (intro load_store_apart) simp
  have "memcpy_words (of_nat j) (of_nat (j + Suc k)) dst src m
      = memcpy_words (of_nat (Suc j)) (of_nat (Suc j + k)) dst src ?m"
    using of_nat_less_u32 [of j "j + Suc k"] Suc.prems(1)
    by (simp add: memcpy_words.simps [of "of_nat j"] PUT32_GET32 algebra_simps)
  also have "\<dots> = store_bytes ?m (?d + of_nat 4) (load_bytes ?m (?s + of_nat 4) (4 * k))"
    using Suc.prems Suc.IH [of "Suc j" ?m] by (simp add: algebra_simps)
  also have "\<dots> = store_bytes m ?d (load_bytes m ?s 4 @ load_bytes m (?s + of_nat 4) (4 * k))"
    using Suc.prems(1) by (simp only: keep) (subst store_bytes_append; simp)
  also have "load_bytes m ?s 4 @ load_bytes m (?s + of_nat 4) (4 * k) = load_bytes m ?s (4 * Suc k)"
    using load_bytes_append [of m ?s 4 "4 * k"] by simp
  finally show ?case .
qed

lemma memcpy_eq:
  assumes "apart dst (unat n) src (unat n)"
  shows "memcpy dst src n m = (dst, store_bytes m dst (load_bytes m src (unat n)))"
proof (cases "aligned4 dst \<and> aligned4 src \<and> aligned4 n")
  case True
  then have "unat (n mod 4) = 0" by (simp add: aligned4_def)
  then have "unat n mod 4 = 0" by (simp add: unat_mod_distrib)
  then have q: "4 * unat (n div 4) = unat n" by (simp add: unat_div_distrib) presburger
  have "memcpy_words (of_nat 0) (of_nat (0 + unat (n div 4))) dst src m =
    store_bytes m (dst + of_nat (4 * 0)) (load_bytes m (src + of_nat (4 * 0)) (4 * unat (n div 4)))"
    using assms q unat_u32_lt [of n] by (intro memcpy_words_eq) simp_all
  then show ?thesis using True q by (simp add: memcpy_def)
next
  case False
  then show ?thesis
    using memcpy_bytes_eq [of 0 "unat n" dst src m] assms unat_u32_lt [of n] by (auto simp: memcpy_def)
qed

text \<open>
  On blocks that do not overlap, \<open>memcpy\<close> returns the destination and leaves in it the bytes
  of the source, whichever of the word loop and the byte loop the alignment selects; no other
  byte of memory changes, so the source keeps its bytes.
\<close>

theorem memcpy_copies:
  assumes "apart dst (unat n) src (unat n)"
  shows "fst (memcpy dst src n m) = dst
    \<and> load_bytes (snd (memcpy dst src n m)) dst (unat n) = load_bytes m src (unat n)
    \<and> (\<forall>x. x \<notin> region dst (unat n) \<longrightarrow> snd (memcpy dst src n m) x = m x)"
  using load_store_bytes [of "load_bytes m src (unat n)" m dst] unat_u32_lt [of n]
  by (simp add: memcpy_eq [OF assms] store_bytes_notin)

theorem memcpy_copies_witness:
  "load_bytes (snd (memcpy 0x8000 0x100 8 (\<lambda>a. ucast a))) 0x8000 8 = [0, 1, 2, 3, 4, 5, 6, 7]
   \<and> load_bytes (snd (memcpy 0x8001 0x100 3 (\<lambda>a. ucast a))) 0x8001 3 = [0, 1, 2]"
proof -
  have "apart 0x8000 (unat (8 :: u32)) 0x100 (unat (8 :: u32))"
    "apart 0x8001 (unat (3 :: u32)) 0x100 (unat (3 :: u32))"
    by (simp_all add: apart_def region_numeral region_Suc)
  then show ?thesis
    using memcpy_copies [of "0x8000" 8 "0x100" "\<lambda>a. ucast a"] memcpy_copies [of "0x8001" 3 "0x100" "\<lambda>a. ucast a"]
    by (simp add: load_bytes_numeral load_bytes_Suc)
qed

lemma memcmp_loop_zero_iff:
  "memcmp_loop i n s1 s2 m = 0 \<longleftrightarrow> (\<forall>j. i \<le> j \<and> j < n \<longrightarrow> m (s1 + j) = m (s2 + j))"
proof (induction i n s1 s2 m rule: memcmp_loop.induct)
  case (1 i n s1 s2 m)
  show ?case
  proof (cases "i < n")
    case True
    have "i \<le> j \<longleftrightarrow> j = i \<or> i + 1 \<le> j" for j
      using True unat_Suc_u32 [OF True] by (auto simp: word_le_nat_alt word_unat_eq_iff)
    then have "(\<forall>j. i \<le> j \<and> j < n \<longrightarrow> m (s1 + j) = m (s2 + j)) \<longleftrightarrow>
      m (s1 + i) = m (s2 + i) \<and> (\<forall>j. i + 1 \<le> j \<and> j < n \<longrightarrow> m (s1 + j) = m (s2 + j))"
      using True by metis
    then show ?thesis
      using True "1.IH" by (simp add: memcmp_loop.simps [of i] Let_def word_uint_eq_iff)
  next
    case False
    then show ?thesis by (auto simp: memcmp_loop.simps [of i])
  qed
qed

lemma memcmp_zero_iff:
  "memcmp s1 s2 n m = 0 \<longleftrightarrow> load_bytes m s1 (unat n) = load_bytes m s2 (unat n)"
proof -
  have "memcmp s1 s2 n m = 0 \<longleftrightarrow> (\<forall>j < n. m (s1 + j) = m (s2 + j))"
    by (simp add: memcmp_def memcmp_loop_zero_iff)
  also have "\<dots> \<longleftrightarrow> (\<forall>i < unat n. m (s1 + of_nat i) = m (s2 + of_nat i))"
  proof (intro iffI allI impI)
    fix i assume "\<forall>j < n. m (s1 + j) = m (s2 + j)" "i < unat n"
    moreover from this have "(of_nat i :: u32) < n"
      using unat_u32_lt [of n] by (simp add: word_less_nat_alt unat_of_nat_u32)
    ultimately show "m (s1 + of_nat i) = m (s2 + of_nat i)" by blast
  next
    fix j assume "\<forall>i < unat n. m (s1 + of_nat i) = m (s2 + of_nat i)" "j < n"
    then show "m (s1 + j) = m (s2 + j)" by (auto simp: word_less_nat_alt dest!: spec [of _ "unat j"])
  qed
  also have "\<dots> \<longleftrightarrow> load_bytes m s1 (unat n) = load_bytes m s2 (unat n)"
    by (auto simp: list_eq_iff_nth_eq)
  finally show ?thesis .
qed

section \<open>Strings: what the loops compute\<close>

lemma cstr_iff: "cstr m p s \<longleftrightarrow> load_bytes m p (Suc (length s)) = s @ [0] \<and> 0 \<notin> set s"
  by (induction s arbitrary: p) (auto simp: load_bytes_Suc)

lemma cstr_cong:
  "(\<And>x. x \<in> region p (Suc (length s)) \<Longrightarrow> m x = m' x) \<Longrightarrow> cstr m p s = cstr m' p s"
  using load_bytes_cong [of p "Suc (length s)" m m'] by (simp add: cstr_iff)

lemma cstr_store:
  "0 \<notin> set s \<Longrightarrow> length s < 4294967296 \<Longrightarrow> cstr (store_bytes m p (s @ [0])) p s"
  using load_store_bytes [of "s @ [0]" m p] by (simp add: cstr_iff)

lemma cstr_no_zero: "cstr m p s \<Longrightarrow> 0 \<notin> set s"
  by (simp add: cstr_iff)

lemma strlen_loop_eq: "cstr m (p + ret) s \<Longrightarrow> strlen_loop ret p m = Some (ret + of_nat (length s))"
proof (induction s arbitrary: ret)
  case (Cons c s)
  then show ?case using Cons.IH [of "ret + 1"] by (simp add: strlen_loop.simps [of ret] ac_simps)
qed (subst strlen_loop.simps, simp)

lemma strlen_eq: "cstr m p s \<Longrightarrow> strlen p m = Some (of_nat (length s))"
  using strlen_loop_eq [of m p 0 s] by (simp add: strlen_def)

lemma copy_step:
  assumes "cstr m s2 (x # xs)" "apart d (Suc (Suc (length xs))) s2 (Suc (Suc (length xs)))"
  shows "cstr (m(d := x)) (s2 + 1) xs" "apart (d + 1) (Suc (length xs)) (s2 + 1) (Suc (length xs))"
proof -
  show "apart (d + 1) (Suc (length xs)) (s2 + 1) (Suc (length xs))"
    using apart_sub [OF assms(2), of 1 "Suc (length xs)" 1 "Suc (length xs)"] by simp
  have "d \<notin> region (s2 + 1) (Suc (length xs))"
    using assms(2) by (auto simp: apart_def region_Suc)
  then have "cstr m (s2 + 1) xs = cstr (m(d := x)) (s2 + 1) xs"
    by (intro cstr_cong) auto
  then show "cstr (m(d := x)) (s2 + 1) xs" using assms(1) by simp
qed

lemma strcpy_loop_eq:
  "cstr m s2 xs \<Longrightarrow> apart d (Suc (length xs)) s2 (Suc (length xs)) \<Longrightarrow> length xs < 4294967295 \<Longrightarrow>
   strcpy_loop d s2 m = Some (store_bytes m d (xs @ [0]))"
proof (induction xs arbitrary: m d s2)
  case (Cons x xs)
  then show ?case
    using copy_step [of m s2 x xs d] by (simp add: strcpy_loop.simps [of d] store_bytes_Cons)
qed (simp add: strcpy_loop.simps store_bytes_Cons)

lemma strcpy_eq:
  "cstr m s2 xs \<Longrightarrow> apart s1 (Suc (length xs)) s2 (Suc (length xs)) \<Longrightarrow> length xs < 4294967295 \<Longrightarrow>
   strcpy s1 s2 m = Some (s1, store_bytes m s1 (xs @ [0]))"
  by (simp add: strcpy_def strcpy_loop_eq)

lemma strcat_copy_eq:
  "cstr m s2 xs \<Longrightarrow> apart (s1 + 1) (Suc (length xs)) s2 (Suc (length xs)) \<Longrightarrow> length xs < 4294967295 \<Longrightarrow>
   strcat_copy s1 s2 m = Some (store_bytes m (s1 + 1) (xs @ [0]))"
proof (induction xs arbitrary: m s1 s2)
  case (Cons x xs)
  have "strcat_copy (s1 + 1) (s2 + 1) (m(s1 + 1 := x)) =
    Some (store_bytes (m(s1 + 1 := x)) (s1 + 1 + 1) (xs @ [0]))"
    using Cons.prems by (intro Cons.IH copy_step) simp_all
  then show ?case
    using Cons.prems by (simp add: strcat_copy.simps [of s1] Let_def store_bytes_Cons)
qed (simp add: strcat_copy.simps Let_def store_bytes_Cons)

lemma strcat_end_eq: "cstr m p s \<Longrightarrow> strcat_end p m = Some (p + of_nat (length s) + 1)"
proof (induction s arbitrary: p)
  case (Cons c s)
  then show ?case by (simp add: strcat_end.simps [of p] Let_def ac_simps)
qed (subst strcat_end.simps, simp)

lemma strcat_eq:
  assumes "cstr m dest xs" "cstr m src ys" "length xs + length ys < 4294967295"
    "apart dest (Suc (length xs + length ys)) src (Suc (length ys))"
  shows "strcat dest src m = Some (dest, store_bytes m (dest + of_nat (length xs)) (ys @ [0]))"
proof -
  have "apart (dest + of_nat (length xs)) (Suc (length ys)) src (Suc (length ys))"
    using apart_sub [OF assms(4), of "length xs" "Suc (length ys)" 0 "Suc (length ys)"] by simp
  then show ?thesis
    using strcat_copy_eq [OF assms(2), of "dest + of_nat (length xs) - 1"] assms(3)
    by (simp add: strcat_def strcat_end_eq [OF assms(1)] algebra_simps)
qed

text \<open>
  \<open>strcat\<close> of two strings in memory ends and returns the destination, which then holds the
  concatenation; only the bytes from the old terminator on change, and the source string stays.
\<close>

theorem strcat_appends:
  assumes "cstr m dest xs" "cstr m src ys" "length xs + length ys < 4294967295"
    "apart dest (Suc (length xs + length ys)) src (Suc (length ys))"
  shows "\<exists>m'. strcat dest src m = Some (dest, m') \<and> cstr m' dest (xs @ ys) \<and> cstr m' src ys
    \<and> (\<forall>x. x \<notin> region (dest + of_nat (length xs)) (Suc (length ys)) \<longrightarrow> m' x = m x)"
proof -
  let ?e = "dest + of_nat (length xs)"
  let ?m = "store_bytes m ?e (ys @ [0])"
  have pre: "load_bytes ?m dest (length xs) = xs"
  proof (rule trans [OF load_store_apart])
    show "apart dest (length xs) ?e (length (ys @ [0]))"
      using assms(3) by (intro apart_consecutive) simp
    show "load_bytes m dest (length xs) = xs"
      using assms(1) load_bytes_append [of m dest "length xs" 1] by (simp add: cstr_iff)
  qed
  have post: "load_bytes ?m ?e (Suc (length ys)) = ys @ [0]"
    using load_store_bytes [of "ys @ [0]" m ?e] assms(3) by simp
  have "cstr ?m dest (xs @ ys)"
    using load_bytes_append [of ?m dest "length xs" "Suc (length ys)"] pre post
      cstr_no_zero [OF assms(1)] cstr_no_zero [OF assms(2)]
    by (simp add: cstr_iff)
  moreover have "cstr ?m src ys"
  proof -
    have "region ?e (Suc (length ys)) \<inter> region src (Suc (length ys)) = {}"
      using apart_sub [OF assms(4), of "length xs" "Suc (length ys)" 0 "Suc (length ys)"]
      by (simp add: apart_def)
    then have "cstr m src ys = cstr ?m src ys"
      by (intro cstr_cong store_bytes_notin [symmetric]) auto
    then show ?thesis using assms(2) by simp
  qed
  ultimately show ?thesis
    using strcat_eq [OF assms] store_bytes_notin [of _ ?e "ys @ [0]" m] by auto
qed

definition demo_mem :: mem where
  "demo_mem = store_bytes (store_bytes (\<lambda>_. 0) 0x100 [0x61, 0x62, 0]) 0x200 [0x63, 0]"

theorem strcat_appends_witness:
  "\<exists>m'. strcat 0x100 0x200 demo_mem = Some (0x100, m') \<and> cstr m' 0x100 [0x61, 0x62, 0x63]"
proof -
  have "cstr demo_mem 0x100 [0x61, 0x62]" "cstr demo_mem 0x200 [0x63]"
    by (simp_all add: demo_mem_def store_bytes_Cons)
  moreover have "apart 0x100 (Suc (length [0x61, 0x62 :: u8] + length [0x63 :: u8])) 0x200 (Suc (length [0x63 :: u8]))"
    by (simp add: apart_def region_Suc)
  ultimately show ?thesis
    using strcat_appends [of demo_mem "0x100" "[0x61, 0x62]" "0x200" "[0x63]"] by auto
qed

lemma strcmp_eq:
  "cstr m a xs \<Longrightarrow> cstr m b ys \<Longrightarrow>
   \<exists>r. strcmp a b m = Some r \<and> (r = 0 \<longleftrightarrow> xs = ys) \<and> (r < 0 \<longleftrightarrow> ord_class.lexordp xs ys)"
proof (induction xs arbitrary: a b ys)
  case Nil
  then show ?case by (cases ys) (auto simp: strcmp.simps word_neq_0_conv word_less_def)
next
  case (Cons x xs)
  show ?case
  proof (cases ys)
    case Nil
    then show ?thesis using Cons.prems by (auto simp: strcmp.simps [of a] not_less uint_0_iff)
  next
    case ys: (Cons y ys')
    show ?thesis
    proof (cases "x = y")
      case True
      then show ?thesis using Cons ys by (simp add: strcmp.simps [of a])
    next
      case False
      then show ?thesis using Cons.prems ys by (auto simp: strcmp.simps [of a] word_less_def word_uint_eq_iff)
    qed
  qed
qed

text \<open>
  \<open>strcmp\<close> on two strings in memory ends; its result is zero exactly for equal strings and
  negative exactly when the first is lexicographically smaller as a sequence of unsigned bytes.
\<close>

theorem strcmp_order:
  assumes "cstr m a xs" "cstr m b ys"
  shows "\<exists>r. strcmp a b m = Some r \<and> (r = 0 \<longleftrightarrow> xs = ys) \<and> (r < 0 \<longleftrightarrow> ord_class.lexordp xs ys)"
  using assms by (rule strcmp_eq)

theorem strcmp_order_witness:
  "\<exists>r. strcmp 0x100 0x200 demo_mem = Some r \<and> r < 0"
proof -
  have "cstr demo_mem 0x100 [0x61, 0x62]" "cstr demo_mem 0x200 [0x63]"
    by (simp_all add: demo_mem_def store_bytes_Cons)
  from strcmp_order [OF this] show ?thesis by auto
qed

lemma strchr_eq:
  "cstr m p s \<Longrightarrow> strchr p c m =
     Some (if \<exists>x \<in> set s. uint x = c then p + of_nat (length (takeWhile (\<lambda>x. uint x \<noteq> c) s)) else 0)"
  by (induction s arbitrary: p) (subst strchr.simps, auto simp: ac_simps)+

lemma strncmp_zero_iff:
  "strncmp s1 s2 n m = 0 \<longleftrightarrow> load_bytes m s1 (unat n) = load_bytes m s2 (unat n)"
proof -
  have "strncmp_loop k s1 s2 m = 0 \<longleftrightarrow> load_bytes m s1 k = load_bytes m s2 k" for k
    by (induction k arbitrary: s1 s2) (auto simp: load_bytes_Suc word_uint_eq_iff)
  then show ?thesis by (simp add: strncmp_def)
qed

end
