(* ===== verification/Pi_Vm.thy ===== *)
theory Pi_Vm
  imports Pi_Prelude
begin

text \<open>
  The virtual memory system of pi-side/kernel/vm.c: first-level section descriptors, the 256
  translation tables at \<open>TT_BASE\<close>, the global map from physical sections to the address-space
  identifier that owns them, and the operations that map, allocate and release sections.
  A page table pointer \<open>vaddr_map = TT_BASE + asid\<close> is the index of its table. Calls of the
  assembly routine \<open>mmu_sync\<close> are recorded in the state, in order.
\<close>

section \<open>Constants and data (vm.h, layout.h)\<close>

definition N_VIRT_PAGES :: nat where "N_VIRT_PAGES = 4096"
definition N_PHYS_PAGES :: nat where "N_PHYS_PAGES = 512"
definition TRANS_TABLE_ADDR :: u32 where "TRANS_TABLE_ADDR = 0x00100000"

definition MAP_FLAG_NONE :: u32 where "MAP_FLAG_NONE = 0"
definition MAP_FLAG_GLOBAL :: u32 where "MAP_FLAG_GLOBAL = 1"
definition MAP_FLAG_SHARED :: u32 where "MAP_FLAG_SHARED = 2"
definition MAP_FLAG_SYNC :: u32 where "MAP_FLAG_SYNC = 4"

record fld =
  fld_tag :: "2 word"
  fld_B :: "1 word"
  fld_C :: "1 word"
  fld_XN :: "1 word"
  fld_domain :: "4 word"
  fld_IMP :: "1 word"
  fld_AP :: "2 word"
  fld_TEX :: "3 word"
  fld_APX :: "1 word"
  fld_S :: "1 word"
  fld_nG :: "1 word"
  fld_super :: "1 word"
  fld_sbz1 :: "1 word"
  sec_base_addr :: "12 word"

record page_table =
  pt_asid :: u8
  vaddr_map :: nat

record vm =
  asid_map :: "u8 list"
  tt :: "nat \<Rightarrow> fld list"
  syncs :: "(nat \<times> nat \<times> u32) list"

definition fld_zero :: fld where
  "fld_zero = \<lparr>fld_tag = 0, fld_B = 0, fld_C = 0, fld_XN = 0, fld_domain = 0, fld_IMP = 0,
     fld_AP = 0, fld_TEX = 0, fld_APX = 0, fld_S = 0, fld_nG = 0, fld_super = 0, fld_sbz1 = 0,
     sec_base_addr = 0\<rparr>"

text \<open>The macro \<open>is_aligned(x, a)\<close> masks with \<open>a - 1\<close>; the callers pass a number of bits.\<close>

definition is_aligned :: "u32 \<Rightarrow> u32 \<Rightarrow> bool" where
  "is_aligned x a \<longleftrightarrow> x AND (a - 1) = 0"

section \<open>Descriptors\<close>

definition fld_mk :: fld where
  "fld_mk = fld_zero\<lparr>fld_tag := 2\<rparr>"

definition fld_check_valid :: "fld \<Rightarrow> unit res" where
  "fld_check_valid f =
     rbind (assert_that (fld_sbz1 f = 0)) (\<lambda>_.
     rbind (assert_that (fld_tag f = 2)) (\<lambda>_.
     rbind (assert_that (fld_S f = 0)) (\<lambda>_.
     rbind (assert_that (fld_IMP f = 0)) (\<lambda>_.
     rbind (assert_that (fld_C f = 0)) (\<lambda>_.
     rbind (assert_that (fld_B f = 0)) (\<lambda>_.
     assert_that (fld_super f = 0)))))))"

definition fld_set_base_addr :: "fld \<Rightarrow> u32 \<Rightarrow> fld res" where
  "fld_set_base_addr f addr =
     rbind (demand_that (is_aligned addr 20)) (\<lambda>_.
     let f' = f\<lparr>sec_base_addr := ucast (drop_bit 20 addr)\<rparr>
     in rbind (assert_that (push_bit 20 (ucast (sec_base_addr f') :: u32) = addr)) (\<lambda>_. Inr f'))"

text \<open>The 32-bit value of a descriptor: the bit fields, allocated from bit 0 upwards.\<close>

definition fld_encode :: "fld \<Rightarrow> u32" where
  "fld_encode f =
     ucast (fld_tag f) OR push_bit 2 (ucast (fld_B f)) OR push_bit 3 (ucast (fld_C f)) OR
     push_bit 4 (ucast (fld_XN f)) OR push_bit 5 (ucast (fld_domain f)) OR
     push_bit 9 (ucast (fld_IMP f)) OR push_bit 10 (ucast (fld_AP f)) OR
     push_bit 12 (ucast (fld_TEX f)) OR push_bit 15 (ucast (fld_APX f)) OR
     push_bit 16 (ucast (fld_S f)) OR push_bit 17 (ucast (fld_nG f)) OR
     push_bit 18 (ucast (fld_super f)) OR push_bit 19 (ucast (fld_sbz1 f)) OR
     push_bit 20 (ucast (sec_base_addr f))"

definition fld_decode :: "u32 \<Rightarrow> fld" where
  "fld_decode u =
     \<lparr>fld_tag = ucast u, fld_B = ucast (drop_bit 2 u), fld_C = ucast (drop_bit 3 u),
      fld_XN = ucast (drop_bit 4 u), fld_domain = ucast (drop_bit 5 u),
      fld_IMP = ucast (drop_bit 9 u), fld_AP = ucast (drop_bit 10 u),
      fld_TEX = ucast (drop_bit 12 u), fld_APX = ucast (drop_bit 15 u),
      fld_S = ucast (drop_bit 16 u), fld_nG = ucast (drop_bit 17 u),
      fld_super = ucast (drop_bit 18 u), fld_sbz1 = ucast (drop_bit 19 u),
      sec_base_addr = ucast (drop_bit 20 u)\<rparr>"

section \<open>Mapping sections\<close>

definition section_fld :: "bool \<Rightarrow> u32 \<Rightarrow> fld" where
  "section_fld global pa =
     \<lparr>fld_tag = 2, fld_B = 0, fld_C = 0, fld_XN = 0, fld_domain = 0, fld_IMP = 0,
      fld_AP = 3, fld_TEX = 0, fld_APX = 0, fld_S = 0, fld_nG = (if global then 0 else 1),
      fld_super = 0, fld_sbz1 = 0, sec_base_addr = ucast (drop_bit 20 pa)\<rparr>"

definition mmu_map_section :: "page_table \<Rightarrow> u32 \<Rightarrow> u32 \<Rightarrow> u32 \<Rightarrow> vm \<Rightarrow> vm res" where
  "mmu_map_section pt va pa flags s =
     rbind (assert_that (is_aligned va 20)) (\<lambda>_.
     rbind (assert_that (is_aligned pa 20)) (\<lambda>_.
     let is_shared = flags AND (MAP_FLAG_GLOBAL OR MAP_FLAG_SHARED);
         page = unat (drop_bit 20 pa) in
     rbind (if is_shared = 0 \<and> page < N_PHYS_PAGES
            then rbind (demand_that (asid_map s ! page = 0))
                   (\<lambda>_. Inr (s\<lparr>asid_map := (asid_map s)[page := pt_asid pt]\<rparr>))
            else Inr s) (\<lambda>s.
     let i = unat (drop_bit 20 va);
         pte = section_fld (flags AND MAP_FLAG_GLOBAL \<noteq> 0) pa;
         s' = s\<lparr>tt := (tt s)(vaddr_map pt := (tt s (vaddr_map pt))[i := pte])\<rparr>
     in Inr (if flags AND MAP_FLAG_SYNC \<noteq> 0
             then s'\<lparr>syncs := syncs s' @ [(vaddr_map pt, i, va OR ucast (pt_asid pt))]\<rparr>
             else s'))))"

text \<open>The loop counts \<open>i\<close> up from 1; the result 0 means that no section is free.\<close>

function find_page_from :: "nat \<Rightarrow> u8 list \<Rightarrow> u32" where
  "find_page_from i m =
     (if i < N_PHYS_PAGES then
        (if m ! i = 0 then push_bit 20 (of_nat i) else find_page_from (Suc i) m)
      else 0)"
  by pat_completeness auto
termination
  by (relation "measure (\<lambda>(i, m). N_PHYS_PAGES - i)") auto

definition find_available_page :: "vm \<Rightarrow> u32" where
  "find_available_page s = find_page_from 1 (asid_map s)"

function map_pages :: "page_table \<Rightarrow> bool \<Rightarrow> nat \<Rightarrow> nat \<Rightarrow> vm \<Rightarrow> vm res" where
  "map_pages pt sync page end_page s =
     (if page \<le> end_page then
        let pa = find_available_page s in
        if pa = 0 then Inl PanicFault
        else rbind (mmu_map_section pt (push_bit 20 (of_nat page)) pa
                      (MAP_FLAG_NONE OR (if sync then MAP_FLAG_SYNC else 0)) s)
               (map_pages pt sync (Suc page) end_page)
      else Inr s)"
  by pat_completeness auto
termination
  by (relation "measure (\<lambda>(pt, sync, page, end_page, s). Suc end_page - page)") auto

definition mmu_map_to_mem :: "page_table \<Rightarrow> u32 \<Rightarrow> u32 \<Rightarrow> bool \<Rightarrow> vm \<Rightarrow> vm res" where
  "mmu_map_to_mem pt addr sz sync s =
     (let start_page = drop_bit 20 (addr - 1);
          end_page = drop_bit 20 (addr + sz - 1)
      in map_pages pt sync (unat start_page + 1) (unat end_page) s)"

section \<open>Releasing and initialising\<close>

fun unmap_entries :: "fld list \<Rightarrow> u8 list \<Rightarrow> u8 list res" where
  "unmap_entries [] m = Inr m"
| "unmap_entries (pte # ptes) m =
     (if fld_tag pte \<noteq> 0 \<and> fld_nG pte \<noteq> 0 then
        if unat (sec_base_addr pte) < length m
        then unmap_entries ptes (m[unat (sec_base_addr pte) := 0])
        else Inl BadAccess
      else unmap_entries ptes m)"

definition mmu_unmap :: "page_table \<Rightarrow> vm \<Rightarrow> vm res" where
  "mmu_unmap pt s =
     rbind (unmap_entries (tt s (vaddr_map pt)) (asid_map s)) (\<lambda>m. Inr (s\<lparr>asid_map := m\<rparr>))"

definition mmu_init :: "nat \<Rightarrow> vm \<Rightarrow> vm res" where
  "mmu_init base s =
     rbind (demand_that (is_aligned (TRANS_TABLE_ADDR + of_nat base * 16384) 14)) (\<lambda>_.
     Inr (s\<lparr>tt := (tt s)(base := replicate N_VIRT_PAGES fld_zero)\<rparr>))"

definition mmu_map_kernel_sections :: "page_table \<Rightarrow> vm \<Rightarrow> vm res" where
  "mmu_map_kernel_sections pt s =
     rbind (mmu_map_section pt 0x00000000 0x00000000 MAP_FLAG_GLOBAL s) (\<lambda>s.
     rbind (mmu_map_section pt 0x20000000 0x20000000 MAP_FLAG_GLOBAL s) (\<lambda>s.
     rbind (mmu_map_section pt 0x20100000 0x20100000 MAP_FLAG_GLOBAL s) (\<lambda>s.
     rbind (mmu_map_section pt 0x20200000 0x20200000 MAP_FLAG_GLOBAL s) (\<lambda>s.
     mmu_map_section pt 0x20300000 0x20300000 MAP_FLAG_GLOBAL s))))"

section \<open>Well-formed states and free sections\<close>

definition vm_wf :: "vm \<Rightarrow> bool" where
  "vm_wf s \<longleftrightarrow> length (asid_map s) = N_PHYS_PAGES \<and> (\<forall>a. length (tt s a) = N_VIRT_PAGES)"

definition free_pages :: "vm \<Rightarrow> nat set" where
  "free_pages s = {i. 1 \<le> i \<and> i < N_PHYS_PAGES \<and> asid_map s ! i = 0}"

named_theorems vm_simps \<open>unfolding the constants of the memory system\<close>

lemmas [vm_simps] = N_VIRT_PAGES_def N_PHYS_PAGES_def MAP_FLAG_NONE_def MAP_FLAG_GLOBAL_def
  MAP_FLAG_SHARED_def MAP_FLAG_SYNC_def

lemma finite_free_pages [simp]: "finite (free_pages s)"
  by (simp add: free_pages_def)

lemma unat_section_index [simp]:
  "i < 4096 \<Longrightarrow> unat (drop_bit 20 (push_bit 20 (of_nat i) :: u32)) = i"
proof -
  assume i: "i < 4096"
  have "unat (push_bit 20 (of_nat i) :: u32) = i * 2 ^ 20"
    using i by (simp add: push_bit_eq_mult unat_word_ariths unat_of_nat)
  then show ?thesis by (simp add: unat_drop_bit)
qed

lemma section_addr_zero_iff: "i < 4096 \<Longrightarrow> push_bit 20 (of_nat i) = (0 :: u32) \<longleftrightarrow> i = 0"
  using unat_section_index [of i] by (auto simp del: unat_section_index)

lemma is_aligned_section [simp]: "is_aligned (push_bit 20 x) 20"
proof -
  have "(19 :: u32) = take_bit 5 19" by simp
  then have "n < 5" if "bit (19 :: u32) n" for n
    using that by (metis bit_take_bit_iff)
  then have "push_bit 20 x AND 19 = (0 :: u32)"
    by (intro bit_word_eqI) (force simp: bit_simps)
  then show ?thesis by (simp add: is_aligned_def)
qed

lemma is_aligned_0 [simp]: "is_aligned 0 a"
  by (simp add: is_aligned_def)

declare find_page_from.simps [simp del] map_pages.simps [simp del]

lemma find_page_from_spec:
  "find_page_from i m =
     (if \<exists>j. i \<le> j \<and> j < N_PHYS_PAGES \<and> m ! j = 0
      then push_bit 20 (of_nat (LEAST j. i \<le> j \<and> j < N_PHYS_PAGES \<and> m ! j = 0)) else 0)"
proof (induction i m rule: find_page_from.induct)
  case (1 i m)
  show ?case
  proof (cases "i < N_PHYS_PAGES \<and> m ! i \<noteq> 0")
    case True
    then have "(i \<le> j \<and> j < N_PHYS_PAGES \<and> m ! j = 0) = (Suc i \<le> j \<and> j < N_PHYS_PAGES \<and> m ! j = 0)" for j
      by (metis Suc_leD le_antisym not_less_eq_eq)
    then show ?thesis using 1 True by (auto simp: find_page_from.simps [of i])
  next
    case False
    moreover have "(LEAST j. i \<le> j \<and> j < N_PHYS_PAGES \<and> m ! j = 0) = i"
      if "i < N_PHYS_PAGES" "m ! i = 0"
      using that by (intro Least_equality) auto
    ultimately show ?thesis by (auto simp: find_page_from.simps [of i])
  qed
qed

lemma find_available_page_cases:
  obtains "free_pages s = {}" "find_available_page s = 0"
  | i where "i \<in> free_pages s" "\<forall>j \<in> free_pages s. i \<le> j"
      "find_available_page s = push_bit 20 (of_nat i)"
proof (cases "free_pages s = {}")
  case True
  then have "find_available_page s = 0"
    by (auto simp: find_available_page_def find_page_from_spec free_pages_def)
  with True show ?thesis by (rule that(1))
next
  case False
  let ?P = "\<lambda>j. 1 \<le> j \<and> j < N_PHYS_PAGES \<and> asid_map s ! j = 0"
  from False have ex: "\<exists>j. ?P j" by (auto simp: free_pages_def)
  then have "?P (LEAST j. ?P j)" by (rule LeastI_ex)
  moreover have "find_available_page s = push_bit 20 (of_nat (LEAST j. ?P j))"
    using ex by (simp add: find_available_page_def find_page_from_spec)
  moreover have "\<forall>j \<in> free_pages s. (LEAST j. ?P j) \<le> j"
    by (auto simp: free_pages_def intro: Least_le)
  ultimately show ?thesis by (intro that(2)) (auto simp: free_pages_def)
qed

section \<open>What mapping one section does\<close>

definition map_one :: "page_table \<Rightarrow> bool \<Rightarrow> nat \<Rightarrow> nat \<Rightarrow> vm \<Rightarrow> vm" where
  "map_one pt sync v i s =
     s\<lparr>asid_map := (asid_map s)[i := pt_asid pt],
       tt := (tt s)(vaddr_map pt := (tt s (vaddr_map pt))[v := section_fld False (push_bit 20 (of_nat i))]),
       syncs := (if sync then syncs s @ [(vaddr_map pt, v, push_bit 20 (of_nat v) OR ucast (pt_asid pt))]
                 else syncs s)\<rparr>"

lemma mmu_map_section_private:
  assumes "v < 4096" "i < N_PHYS_PAGES" "asid_map s ! i = 0"
  shows "mmu_map_section pt (push_bit 20 (of_nat v)) (push_bit 20 (of_nat i))
     (MAP_FLAG_NONE OR (if sync then MAP_FLAG_SYNC else 0)) s = Inr (map_one pt sync v i s)"
  using assms by (simp add: mmu_map_section_def map_one_def Let_def vm_simps)

lemma vm_wf_map_one [simp]: "vm_wf s \<Longrightarrow> vm_wf (map_one pt sync v i s)"
  by (simp add: vm_wf_def map_one_def)

lemma free_pages_map_one:
  assumes "vm_wf s" "pt_asid pt \<noteq> 0" "i < N_PHYS_PAGES"
  shows "free_pages (map_one pt sync v i s) = free_pages s - {i}"
  using assms by (auto simp: free_pages_def map_one_def nth_list_update vm_wf_def)

text \<open>
  The outcome of a run over the virtual sections \<open>V\<close>: an injective choice of free physical
  sections, which now belong to the process, and nothing else has changed.
\<close>

definition mapped_fresh :: "page_table \<Rightarrow> nat set \<Rightarrow> (nat \<Rightarrow> nat) \<Rightarrow> vm \<Rightarrow> vm \<Rightarrow> bool" where
  "mapped_fresh pt V f s s' \<longleftrightarrow>
     inj_on f V \<and> f ` V \<subseteq> free_pages s \<and> vm_wf s' \<and>
     (\<forall>i < N_PHYS_PAGES. asid_map s' ! i = (if i \<in> f ` V then pt_asid pt else asid_map s ! i)) \<and>
     (\<forall>a v. a \<noteq> vaddr_map pt \<or> v \<notin> V \<longrightarrow> tt s' a ! v = tt s a ! v) \<and>
     (\<forall>v \<in> V. tt s' (vaddr_map pt) ! v = section_fld False (push_bit 20 (of_nat (f v))))"

lemma mapped_fresh_empty: "vm_wf s \<Longrightarrow> mapped_fresh pt {} f s s"
  by (simp add: mapped_fresh_def)

lemma mapped_fresh_step:
  assumes wf: "vm_wf s" and i: "i \<in> free_pages s" and v: "v < N_VIRT_PAGES" "v \<notin> V"
    and rest: "mapped_fresh pt V f (map_one pt sync v i s) s'" and a: "pt_asid pt \<noteq> 0"
  shows "mapped_fresh pt (insert v V) (f(v := i)) s s'"
proof -
  have i': "i < N_PHYS_PAGES" using i by (simp add: free_pages_def)
  have fr: "free_pages (map_one pt sync v i s) = free_pages s - {i}"
    using wf a i' by (rule free_pages_map_one)
  have img: "(f(v := i)) ` insert v V = insert i (f ` V)"
    using v(2) by (auto simp: fun_upd_image)
  have "inj_on (f(v := i)) (insert v V)"
    using rest v(2) unfolding mapped_fresh_def fr by (auto simp: inj_on_def)
  moreover have "(f(v := i)) ` insert v V \<subseteq> free_pages s"
    using rest i unfolding img mapped_fresh_def fr by blast
  moreover have "\<forall>j < N_PHYS_PAGES. asid_map s' ! j =
      (if j \<in> (f(v := i)) ` insert v V then pt_asid pt else asid_map s ! j)"
    using rest wf unfolding img mapped_fresh_def
    by (auto simp: map_one_def nth_list_update vm_wf_def)
  moreover have "\<forall>b w. b \<noteq> vaddr_map pt \<or> w \<notin> insert v V \<longrightarrow> tt s' b ! w = tt s b ! w"
    using rest unfolding mapped_fresh_def by (auto simp: map_one_def nth_list_update)
  moreover have "tt s' (vaddr_map pt) ! v = section_fld False (push_bit 20 (of_nat i))"
    using rest v wf unfolding mapped_fresh_def by (auto simp: map_one_def vm_wf_def)
  ultimately show ?thesis using rest unfolding mapped_fresh_def by (auto simp: v(2))
qed

lemma map_pages_spec:
  assumes "vm_wf s" "pt_asid pt \<noteq> 0" "end_page < N_VIRT_PAGES"
  shows "if card {page..end_page} \<le> card (free_pages s)
         then \<exists>s' f. map_pages pt sync page end_page s = Inr s' \<and> mapped_fresh pt {page..end_page} f s s'
         else map_pages pt sync page end_page s = Inl PanicFault"
  using assms(1)
proof (induction "Suc end_page - page" arbitrary: page s)
  case 0
  then show ?case
    by (simp add: map_pages.simps [of pt sync page] mapped_fresh_empty)
next
  case (Suc d)
  then have le: "page \<le> end_page" by simp
  then have V: "{page..end_page} = insert page {Suc page..end_page}" by auto
  have cV: "card {page..end_page} = Suc (card {Suc page..end_page})" unfolding V by simp
  show ?case
  proof (cases rule: find_available_page_cases [of s])
    case 1
    then show ?thesis using le by (simp add: map_pages.simps [of pt sync page] Let_def)
  next
    case (2 i)
    then have i: "i < N_PHYS_PAGES" "asid_map s ! i = 0" "i \<noteq> 0" by (auto simp: free_pages_def)
    let ?s1 = "map_one pt sync page i s"
    have "push_bit 20 (of_nat i) \<noteq> (0 :: u32)" using i by (subst section_addr_zero_iff) (auto simp: vm_simps)
    then have step: "map_pages pt sync page end_page s = map_pages pt sync (Suc page) end_page ?s1"
      using 2 le assms(3) i mmu_map_section_private [of page i s pt sync]
      by (simp add: map_pages.simps [of pt sync page] Let_def vm_simps)
    have wf1: "vm_wf ?s1" using Suc.prems by simp
    have "free_pages ?s1 = free_pages s - {i}"
      using Suc.prems assms(2) i(1) by (rule free_pages_map_one)
    then have c1: "Suc (card (free_pages ?s1)) = card (free_pages s)"
      using 2(1) card_Suc_Diff1 [of "free_pages s" i] by simp
    have IH: "if card {Suc page..end_page} \<le> card (free_pages ?s1)
      then \<exists>s' f. map_pages pt sync (Suc page) end_page ?s1 = Inr s' \<and> mapped_fresh pt {Suc page..end_page} f ?s1 s'
      else map_pages pt sync (Suc page) end_page ?s1 = Inl PanicFault"
      by (rule Suc.hyps(1)) (use Suc wf1 in auto)
    show ?thesis
    proof (cases "card {Suc page..end_page} \<le> card (free_pages ?s1)")
      case True
      then obtain s' f where sf: "map_pages pt sync (Suc page) end_page ?s1 = Inr s'"
        "mapped_fresh pt {Suc page..end_page} f ?s1 s'" using IH by auto
      have "mapped_fresh pt (insert page {Suc page..end_page}) (f(page := i)) s s'"
        by (rule mapped_fresh_step [OF Suc.prems 2(1) _ _ sf(2) assms(2)])
          (use le assms(3) in auto)
      moreover have "card {page..end_page} \<le> card (free_pages s)"
        using True c1 cV by linarith
      ultimately show ?thesis using step sf(1) unfolding V by auto
    next
      case False
      then show ?thesis using IH step c1 cV by auto
    qed
  qed
qed

lemma drop_bit_lt_4096: "unat (drop_bit 20 (w :: u32)) < N_VIRT_PAGES"
  using unat_u32_lt [of w] by (simp add: unat_drop_bit vm_simps less_mult_imp_div_less)

text \<open>
  The virtual sections a call of \<open>mmu_map_to_mem\<close> maps, by the arithmetic of the code; this is an
  auxiliary set, characterised below (\<open>pages_to_map_eq\<close>) as the sections of the range.
\<close>

definition pages_to_map :: "u32 \<Rightarrow> u32 \<Rightarrow> nat set" where
  "pages_to_map addr sz = {unat (drop_bit 20 (addr - 1)) + 1 .. unat (drop_bit 20 (addr + sz - 1))}"

lemma mmu_map_to_mem_spec:
  assumes "vm_wf s" "pt_asid pt \<noteq> 0"
  shows "if card (pages_to_map addr sz) \<le> card (free_pages s)
         then \<exists>s' f. mmu_map_to_mem pt addr sz sync s = Inr s' \<and> mapped_fresh pt (pages_to_map addr sz) f s s'
         else mmu_map_to_mem pt addr sz sync s = Inl PanicFault"
  unfolding mmu_map_to_mem_def pages_to_map_def Let_def
  using map_pages_spec [OF assms drop_bit_lt_4096] by blast

lemma mmu_map_to_mem_Inr:
  assumes "vm_wf s" "pt_asid pt \<noteq> 0" "mmu_map_to_mem pt addr sz sync s = Inr s'"
  shows "\<exists>f. mapped_fresh pt (pages_to_map addr sz) f s s'"
proof (cases "card (pages_to_map addr sz) \<le> card (free_pages s)")
  case True
  then show ?thesis using mmu_map_to_mem_spec [OF assms(1,2), of addr sz sync] assms(3) by auto
next
  case False
  then show ?thesis using mmu_map_to_mem_spec [OF assms(1,2), of addr sz sync] assms(3) by simp
qed

text \<open>
  What the caller of \<open>mmu_map_to_mem\<close> means by a range, independently of the arithmetic of the
  code: the sections that hold one of its bytes. The code leaves out the section that holds an
  unaligned start; its callers (a heap that grows, the headers of a program) have mapped it before.
\<close>

definition range_sections :: "u32 \<Rightarrow> u32 \<Rightarrow> nat set" where
  "range_sections addr sz = (\<lambda>a. a div 0x100000) ` {unat addr..<unat addr + unat sz}"

definition head_section :: "u32 \<Rightarrow> nat set" where
  "head_section addr = (if unat addr mod 0x100000 = 0 then {} else {unat addr div 0x100000})"

lemma div_image_interval:
  fixes M :: nat
  assumes "0 < M" "a < b"
  shows "(\<lambda>x. x div M) ` {a..<b} = {a div M..(b - 1) div M}"
proof (intro equalityI subsetI)
  fix v assume "v \<in> (\<lambda>x. x div M) ` {a..<b}"
  then obtain x where "a \<le> x" "x < b" "v = x div M" by auto
  then show "v \<in> {a div M..(b - 1) div M}" by (auto intro: div_le_mono)
next
  fix v assume v: "v \<in> {a div M..(b - 1) div M}"
  then have "v * M \<le> (b - 1) div M * M" by simp
  also have "\<dots> \<le> b - 1" by (rule div_times_less_eq_dividend)
  finally have "max a (v * M) < b" using assms(2) by auto
  moreover have "max a (v * M) div M = v"
  proof (cases "a \<le> v * M")
    case False
    then have "v \<le> a div M" using assms(1) by (simp add: less_eq_div_iff_mult_less_eq)
    with v False show ?thesis by (simp add: max_def)
  qed (use assms(1) in \<open>simp add: max_def\<close>)
  ultimately show "v \<in> (\<lambda>x. x div M) ` {a..<b}" by (metis atLeastLessThan_iff image_iff max.cobounded1)
qed

lemma pred_div: "0 < (M :: nat) \<Longrightarrow> 0 < a \<Longrightarrow> (a - 1) div M = (if a mod M = 0 then a div M - 1 else a div M)"
  by (cases a) (simp_all add: div_Suc)

lemma interval_without_head:
  assumes "0 < (M :: nat)" "0 < a"
  shows "{(a - 1) div M + 1..e} = {a div M..e} - (if a mod M = 0 then {} else {a div M})"
proof (cases "a mod M = 0")
  case True
  then have "0 < a div M" using assms by (metis div_greater_zero_iff dvd_imp_le mod_eq_0_iff_dvd)
  moreover have "(a - 1) div M = a div M - 1" using pred_div [OF assms] True by simp
  ultimately have "(a - 1) div M + 1 = a div M" by simp
  then have "{(a - 1) div M + 1..e} = {a div M..e}" by (rule arg_cong)
  also have "\<dots> = {a div M..e} - (if a mod M = 0 then {} else {a div M})" using True by simp
  finally show ?thesis .
next
  case False
  then have "(a - 1) div M = a div M" using pred_div [OF assms] by simp
  with False show ?thesis by auto
qed

lemma pages_to_map_eq:
  assumes "0 < addr" "unat addr + unat sz \<le> 2 ^ 32"
  shows "pages_to_map addr sz = range_sections addr sz - head_section addr"
proof -
  let ?A = "unat addr" and ?Z = "unat sz"
  have A: "0 < ?A" using assms(1) by (simp add: word_less_nat_alt)
  have u1: "unat (addr - 1) = ?A - 1" using A by (intro unat_minus_one) auto
  have "addr + sz - 1 = (addr - 1) + sz" by simp
  also have "unat \<dots> = ?A - 1 + ?Z"
    using A assms(2) by (subst unat_word_ariths(1)) (simp add: u1)
  finally have u2: "unat (addr + sz - 1) = ?A - 1 + ?Z" .
  have P: "pages_to_map addr sz = {(?A - 1) div 0x100000 + 1..(?A - 1 + ?Z) div 0x100000}"
    by (simp add: pages_to_map_def unat_drop_bit u1 u2)
  show ?thesis
  proof (cases "?Z = 0")
    case True
    then show ?thesis by (simp add: P range_sections_def)
  next
    case False
    then have "range_sections addr sz = {?A div 0x100000..(?A - 1 + ?Z) div 0x100000}"
      unfolding range_sections_def using A by (subst div_image_interval) auto
    then show ?thesis
      unfolding P head_section_def by (simp only: interval_without_head [OF _ A] zero_less_numeral)
  qed
qed


definition blank_vm :: vm where
  "blank_vm = \<lparr>asid_map = replicate N_PHYS_PAGES 0, tt = (\<lambda>_. replicate N_VIRT_PAGES fld_zero), syncs = []\<rparr>"

lemma vm_wf_blank [simp]: "vm_wf blank_vm"
  by (simp add: vm_wf_def blank_vm_def)

lemma free_pages_blank: "free_pages blank_vm = {1..<N_PHYS_PAGES}"
  by (auto simp: free_pages_def blank_vm_def)


section \<open>Releasing sections\<close>

definition private_fld :: "fld \<Rightarrow> bool" where
  "private_fld f \<longleftrightarrow> fld_tag f \<noteq> 0 \<and> fld_nG f \<noteq> 0"

definition fld_base :: "fld \<Rightarrow> nat" where
  "fld_base f = unat (sec_base_addr f)"

lemma fld_base_section [simp]: "i < 4096 \<Longrightarrow> fld_base (section_fld g (push_bit 20 (of_nat i))) = i"
proof -
  assume i: "i < 4096"
  have "drop_bit 20 (push_bit 20 (of_nat i)) = (of_nat i :: u32)"
    using i by (intro word_unat_eq_iff [THEN iffD2]) (simp add: unat_of_nat)
  then show ?thesis using i by (simp add: fld_base_def section_fld_def unsigned_ucast_eq
      take_bit_nat_eq_self unat_of_nat)
qed

lemma private_section [simp]: "private_fld (section_fld g pa) \<longleftrightarrow> \<not> g"
  by (simp add: private_fld_def section_fld_def)

lemma private_zero [simp]: "\<not> private_fld fld_zero"
  by (simp add: private_fld_def fld_zero_def)

lemma unmap_entries_spec:
  assumes "\<forall>f \<in> set fs. private_fld f \<longrightarrow> fld_base f < length m"
  shows "\<exists>m'. unmap_entries fs m = Inr m' \<and> length m' = length m \<and>
    (\<forall>i < length m. m' ! i = (if \<exists>f \<in> set fs. private_fld f \<and> fld_base f = i then 0 else m ! i))"
  using assms
proof (induction fs arbitrary: m)
  case (Cons f fs)
  show ?case
  proof (cases "private_fld f")
    case True
    then have f: "fld_base f < length m" using Cons.prems by simp
    have "\<forall>f \<in> set fs. private_fld f \<longrightarrow> fld_base f < length (m[fld_base f := 0])" for f
      using Cons.prems by simp
    with Cons.IH [of "m[fld_base f := 0]"] obtain m' where
      m': "unmap_entries fs (m[fld_base f := 0]) = Inr m'" "length m' = length m"
      "\<forall>i < length m. m' ! i = (if \<exists>f \<in> set fs. private_fld f \<and> fld_base f = i then 0
         else m[fld_base f := 0] ! i)" by auto
    have "unmap_entries (f # fs) m = Inr m'"
      using True f m'(1) by (simp add: private_fld_def fld_base_def)
    with True m' show ?thesis by (auto simp: nth_list_update)
  next
    case False
    then have "unmap_entries (f # fs) m = unmap_entries fs m" by (auto simp: private_fld_def)
    with Cons False show ?thesis by simp
  qed
qed simp

definition private_pages :: "page_table \<Rightarrow> vm \<Rightarrow> nat set" where
  "private_pages pt s = {fld_base f | f. f \<in> set (tt s (vaddr_map pt)) \<and> private_fld f}"

lemma mmu_unmap_spec:
  assumes "vm_wf s" "private_pages pt s \<subseteq> {..<N_PHYS_PAGES}"
  shows "\<exists>m'. mmu_unmap pt s = Inr (s\<lparr>asid_map := m'\<rparr>) \<and> length m' = N_PHYS_PAGES \<and>
    (\<forall>i < N_PHYS_PAGES. m' ! i = (if i \<in> private_pages pt s then 0 else asid_map s ! i))"
proof -
  have "\<forall>f \<in> set (tt s (vaddr_map pt)). private_fld f \<longrightarrow> fld_base f < length (asid_map s)"
    using assms by (auto simp: private_pages_def vm_wf_def)
  from unmap_entries_spec [OF this] assms(1) obtain m' where m':
    "unmap_entries (tt s (vaddr_map pt)) (asid_map s) = Inr m'" "length m' = N_PHYS_PAGES"
    "\<forall>i < N_PHYS_PAGES. m' ! i = (if \<exists>f \<in> set (tt s (vaddr_map pt)). private_fld f \<and> fld_base f = i
       then 0 else asid_map s ! i)"
    by (auto simp: vm_wf_def)
  moreover have "(\<exists>f \<in> set (tt s (vaddr_map pt)). private_fld f \<and> fld_base f = i)
      \<longleftrightarrow> i \<in> private_pages pt s" for i
    by (auto simp: private_pages_def)
  ultimately show ?thesis by (intro exI [of _ m']) (simp add: mmu_unmap_def)
qed

lemma in_private_pages:
  "vm_wf s \<Longrightarrow> i \<in> private_pages pt s \<longleftrightarrow>
     (\<exists>v < N_VIRT_PAGES. private_fld (tt s (vaddr_map pt) ! v) \<and> fld_base (tt s (vaddr_map pt) ! v) = i)"
  by (auto simp: private_pages_def in_set_conv_nth vm_wf_def)

lemma mapped_fresh_private_pages:
  assumes "vm_wf s" "mapped_fresh pt V f s s'" "private_pages pt s = {}" "V \<subseteq> {..<N_VIRT_PAGES}"
  shows "private_pages pt s' = f ` V"
proof -
  have wf': "vm_wf s'" and fr: "f ` V \<subseteq> free_pages s" using assms(2) by (auto simp: mapped_fresh_def)
  have in_V: "private_fld (tt s' (vaddr_map pt) ! v) \<and> fld_base (tt s' (vaddr_map pt) ! v) = f v"
    if "v \<in> V" for v
  proof -
    have "f v < 4096" using fr that by (auto simp: free_pages_def vm_simps)
    then show ?thesis using assms(2) that by (simp add: mapped_fresh_def)
  qed
  have out_V: "\<not> private_fld (tt s' (vaddr_map pt) ! v)" if "v \<notin> V" "v < N_VIRT_PAGES" for v
    using assms(1-3) that in_private_pages [OF assms(1), of _ pt] by (auto simp: mapped_fresh_def)
  show ?thesis
    unfolding set_eq_iff in_private_pages [OF wf'] using in_V out_V assms(4) by (auto; blast)
qed

text \<open>
  C30: the sections that \<open>mmu_map_to_mem\<close> gives to a process that owned none are exactly the ones
  that \<open>mmu_unmap\<close> takes back: mapping and then unmapping restores the global map from
  physical sections to owners.
\<close>

theorem mmu_map_unmap_roundtrip:
  assumes "vm_wf s" "pt_asid pt \<noteq> 0" "private_pages pt s = {}"
    and "mmu_map_to_mem pt addr sz sync s = Inr s1"
  shows "\<exists>s2. mmu_unmap pt s1 = Inr s2 \<and> asid_map s2 = asid_map s"
proof -
  let ?V = "pages_to_map addr sz"
  obtain f where f: "mapped_fresh pt ?V f s s1"
    using mmu_map_to_mem_Inr [OF assms(1,2,4)] by blast
  have V: "?V \<subseteq> {..<N_VIRT_PAGES}"
    using drop_bit_lt_4096 [of "addr + sz - 1"] by (auto simp: pages_to_map_def)
  have pp: "private_pages pt s1 = f ` ?V"
    by (rule mapped_fresh_private_pages [OF assms(1) f assms(3) V])
  have wf1: "vm_wf s1" and fr: "f ` ?V \<subseteq> free_pages s" using f by (auto simp: mapped_fresh_def)
  then have "private_pages pt s1 \<subseteq> {..<N_PHYS_PAGES}" unfolding pp by (auto simp: free_pages_def)
  from mmu_unmap_spec [OF wf1 this] obtain m' where m':
    "mmu_unmap pt s1 = Inr (s1\<lparr>asid_map := m'\<rparr>)" "length m' = N_PHYS_PAGES"
    "\<forall>i < N_PHYS_PAGES. m' ! i = (if i \<in> f ` ?V then 0 else asid_map s1 ! i)"
    unfolding pp by blast
  have "m' = asid_map s"
  proof (rule nth_equalityI)
    show "length m' = length (asid_map s)" using assms(1) m'(2) by (simp add: vm_wf_def)
    fix i assume "i < length m'"
    then have i: "i < N_PHYS_PAGES" using m'(2) by simp
    then have "asid_map s1 ! i = (if i \<in> f ` ?V then pt_asid pt else asid_map s ! i)"
      using f by (simp only: mapped_fresh_def)
    moreover have "asid_map s ! i = 0" if "i \<in> f ` ?V" using fr that by (auto simp: free_pages_def)
    ultimately show "m' ! i = asid_map s ! i" using m'(3) i by (cases "i \<in> f ` ?V") simp_all
  qed
  with m'(1) show ?thesis by simp
qed

lemma private_pages_blank [simp]: "private_pages pt blank_vm = {}"
  by (auto simp: private_pages_def blank_vm_def)

theorem mmu_map_unmap_roundtrip_witness:
  "\<exists>s1 s2. mmu_map_to_mem \<lparr>pt_asid = 2, vaddr_map = 2\<rparr> 0x80000000 0x200000 True blank_vm = Inr s1
     \<and> mmu_unmap \<lparr>pt_asid = 2, vaddr_map = 2\<rparr> s1 = Inr s2 \<and> asid_map s2 = asid_map blank_vm"
proof -
  have "card (pages_to_map 0x80000000 0x200000) \<le> card (free_pages blank_vm)"
    by (simp add: pages_to_map_def free_pages_blank vm_simps)
  then obtain s1 where
    s1: "mmu_map_to_mem \<lparr>pt_asid = 2, vaddr_map = 2\<rparr> 0x80000000 0x200000 True blank_vm = Inr s1"
    using map_pages_spec [OF vm_wf_blank, of "\<lparr>pt_asid = 2, vaddr_map = 2\<rparr>"
        "unat (drop_bit 20 (0x80000000 + 0x200000 - 1 :: u32))" "unat (drop_bit 20 (0x80000000 - 1 :: u32)) + 1" True]
    by (auto simp: mmu_map_to_mem_def pages_to_map_def vm_simps split: if_splits)
  then show ?thesis
    using mmu_map_unmap_roundtrip [OF vm_wf_blank _ _ s1] by auto
qed

section \<open>Isolation\<close>

text \<open>
  The life of address spaces. One is created (its table zeroed and the kernel sections mapped),
  grows by \<open>mmu_map_to_mem\<close>, gets any section mapped by \<open>mmu_map_section\<close> with any flags, and is
  released by \<open>mmu_unmap\<close>; these are all the operations of vm.c that write a table or the owners,
  in any order. The first component of a state is the set of identifiers in use. The second
  is a ghost: the physical sections that were ever passed to \<open>mmu_map_section\<close> with
  \<open>MAP_FLAG_SHARED\<close>, as \<open>share_pages\<close> of exec.c does with the sections of the file it loads. Such
  a section is in two tables while the child runs, and its owner is cleared when the child is
  released although the kernel's table still maps it.
\<close>

definition pt_of :: "nat \<Rightarrow> page_table" where
  "pt_of a = \<lparr>pt_asid = of_nat a, vaddr_map = a\<rparr>"

inductive vm_step :: "nat set \<times> nat set \<times> vm \<Rightarrow> nat set \<times> nat set \<times> vm \<Rightarrow> bool" where
  create: "a \<notin> L \<Longrightarrow> 0 < a \<Longrightarrow> a < 256 \<Longrightarrow> mmu_init a s = Inr s1 \<Longrightarrow>
     mmu_map_kernel_sections (pt_of a) s1 = Inr s2 \<Longrightarrow> vm_step (L, S, s) (insert a L, S, s2)"
| grow: "a \<in> L \<Longrightarrow> mmu_map_to_mem (pt_of a) addr sz sync s = Inr s' \<Longrightarrow> vm_step (L, S, s) (L, S, s')"
| map_section: "a \<in> L \<Longrightarrow> mmu_map_section (pt_of a) va pa flags s = Inr s' \<Longrightarrow>
     vm_step (L, S, s)
       (L, if flags AND MAP_FLAG_SHARED \<noteq> 0 then insert (unat (drop_bit 20 pa)) S else S, s')"
| destroy: "a \<in> L \<Longrightarrow> mmu_unmap (pt_of a) s = Inr s' \<Longrightarrow> vm_step (L, S, s) (L - {a}, S, s')"

inductive vm_reachable :: "nat set \<times> nat set \<times> vm \<Rightarrow> bool" where
  start: "vm_wf s \<Longrightarrow> asid_map s = replicate N_PHYS_PAGES 0 \<Longrightarrow> vm_reachable ({}, {}, s)"
| step: "vm_reachable x \<Longrightarrow> vm_step x y \<Longrightarrow> vm_reachable y"

text \<open>The descriptors of a table that map a section of RAM privately, outside the shared sections.\<close>

definition own_fld :: "nat set \<Rightarrow> fld \<Rightarrow> bool" where
  "own_fld S f \<longleftrightarrow> private_fld f \<and> fld_base f < N_PHYS_PAGES \<and> fld_base f \<notin> S"

definition vm_inv :: "nat set \<times> nat set \<times> vm \<Rightarrow> bool" where
  "vm_inv = (\<lambda>(L, S, s). vm_wf s \<and> L \<subseteq> {0<..<256} \<and>
     (\<forall>a \<in> L. \<forall>v < N_VIRT_PAGES. own_fld S (tt s a ! v) \<longrightarrow>
        asid_map s ! fld_base (tt s a ! v) = of_nat a) \<and>
     (\<forall>a \<in> L. inj_on (\<lambda>v. fld_base (tt s a ! v)) {v. v < N_VIRT_PAGES \<and> own_fld S (tt s a ! v)}))"

lemma asid_inj: "a < 256 \<Longrightarrow> b < 256 \<Longrightarrow> (of_nat a :: u8) = of_nat b \<longleftrightarrow> a = b"
  using of_nat_eq_word_iff [of a b, where ?'a = 8] by simp

lemma asid_nonzero: "0 < a \<Longrightarrow> a < 256 \<Longrightarrow> (of_nat a :: u8) \<noteq> 0"
  using asid_inj [of a 0] by simp

text \<open>One new private descriptor of a section nobody owned, or one that is no private descriptor.\<close>

lemma vm_inv_update:
  assumes inv: "vm_inv (L, S, s)" and a: "a \<in> L" and v: "v < N_VIRT_PAGES"
    and f: "own_fld S f \<longrightarrow> asid_map s ! fld_base f = 0"
    and m: "length m = N_PHYS_PAGES"
      "\<forall>i < N_PHYS_PAGES. m ! i = (if own_fld S f \<and> i = fld_base f then of_nat a else asid_map s ! i)"
    and t: "tt s' = (tt s)(a := (tt s a)[v := f])" "asid_map s' = m"
  shows "vm_inv (L, S, s')"
proof -
  have wf: "length (tt s b) = N_VIRT_PAGES" for b using inv by (simp add: vm_inv_def vm_wf_def)
  have old: "asid_map s ! fld_base (tt s b ! w) = of_nat b \<and> fld_base (tt s b ! w) < N_PHYS_PAGES
      \<and> (own_fld S f \<longrightarrow> fld_base (tt s b ! w) \<noteq> fld_base f)"
    if "b \<in> L" "w < N_VIRT_PAGES" "own_fld S (tt s b ! w)" for b w
  proof -
    have o: "asid_map s ! fld_base (tt s b ! w) = of_nat b" using inv that by (auto simp: vm_inv_def)
    have "(of_nat b :: u8) \<noteq> 0" using inv that(1) by (intro asid_nonzero) (auto simp: vm_inv_def)
    with o f show ?thesis using that(3) by (auto simp: own_fld_def)
  qed
  have at: "tt s' b ! w = (if b = a \<and> w = v then f else tt s b ! w)" for b w
    using v by (simp add: t wf nth_list_update)
  have "asid_map s' ! fld_base (tt s' b ! w) = of_nat b"
    if "b \<in> L" "w < N_VIRT_PAGES" "own_fld S (tt s' b ! w)" for b w
    using that old [of b w] m by (cases "b = a \<and> w = v") (auto simp: at t(2) own_fld_def)
  moreover have "inj_on (\<lambda>w. fld_base (tt s' b ! w)) {w. w < N_VIRT_PAGES \<and> own_fld S (tt s' b ! w)}"
    if "b \<in> L" for b
  proof (rule inj_onI, clarify)
    fix w x assume w: "w < N_VIRT_PAGES" "own_fld S (tt s' b ! w)"
      and x: "x < N_VIRT_PAGES" "own_fld S (tt s' b ! x)"
      and eq: "fld_base (tt s' b ! w) = fld_base (tt s' b ! x)"
    have "inj_on (\<lambda>w. fld_base (tt s b ! w)) {w. w < N_VIRT_PAGES \<and> own_fld S (tt s b ! w)}"
      using inv that by (simp add: vm_inv_def)
    then show "w = x"
      using w x eq old [OF that, of w] old [OF that, of x]
      by (auto simp: at split: if_splits dest: inj_onD)
  qed
  moreover have "vm_wf s'" using wf m(1) by (simp add: vm_wf_def t)
  ultimately show ?thesis using inv by (auto simp: vm_inv_def)
qed

lemma vm_inv_shared_mono: "vm_inv (L, S, s) \<Longrightarrow> vm_inv (L, insert i S, s)"
  unfolding vm_inv_def own_fld_def by (auto intro: inj_on_subset)

lemma fld_base_section_fld: "fld_base (section_fld g pa) = unat (drop_bit 20 pa)"
  using drop_bit_lt_4096 [of pa]
  by (simp add: fld_base_def section_fld_def unsigned_ucast_eq take_bit_nat_eq_self vm_simps)

lemma no_share_flag:
  "(flags :: u32) AND (MAP_FLAG_GLOBAL OR MAP_FLAG_SHARED) = 0 \<longleftrightarrow>
     flags AND MAP_FLAG_GLOBAL = 0 \<and> flags AND MAP_FLAG_SHARED = 0"
proof -
  have "flags AND (MAP_FLAG_GLOBAL OR MAP_FLAG_SHARED)
      = (flags AND MAP_FLAG_GLOBAL) OR (flags AND MAP_FLAG_SHARED)"
    by (rule bit.conj_disj_distrib)
  then show ?thesis by (simp only: bit.disj_zero_right or_eq_0_iff)
qed

lemma vm_inv_owner_shared:
  assumes "vm_inv (L, S, s)" "p \<in> S"
  shows "vm_inv (L, S, s\<lparr>asid_map := (asid_map s)[p := x]\<rparr>)"
proof -
  have "(asid_map s)[p := x] ! q = asid_map s ! q" if "q \<notin> S" for q
    using assms(2) that by (intro nth_list_update_neq) auto
  then show ?thesis using assms(1) by (simp add: vm_inv_def vm_wf_def own_fld_def)
qed

lemma vm_inv_map_section:
  assumes inv: "vm_inv (L, S, s)" and a: "a \<in> L" and m: "mmu_map_section (pt_of a) va pa flags s = Inr s'"
  shows "vm_inv (L, if flags AND MAP_FLAG_SHARED \<noteq> 0 then insert (unat (drop_bit 20 pa)) S else S, s')"
    (is "vm_inv (L, ?S, s')")
proof -
  let ?f = "section_fld (flags AND MAP_FLAG_GLOBAL \<noteq> 0) pa"
  let ?p = "unat (drop_bit 20 pa)"
  let ?own = "flags AND (MAP_FLAG_GLOBAL OR MAP_FLAG_SHARED) = 0 \<and> ?p < N_PHYS_PAGES"
  have len: "length (asid_map s) = N_PHYS_PAGES" using inv by (simp add: vm_inv_def vm_wf_def)
  have inv': "vm_inv (L, ?S, s)" using inv vm_inv_shared_mono by simp
  have free: "?own \<longrightarrow> asid_map s ! ?p = 0"
    using m by (auto simp: mmu_map_section_def Let_def split: if_splits)
  have own: "own_fld ?S ?f \<longrightarrow> ?own"
    by (auto simp: own_fld_def fld_base_section_fld no_share_flag split: if_splits)
  have f: "tt s' = (tt s)(a := (tt s a)[unat (drop_bit 20 va) := ?f])"
      "asid_map s' = (if ?own then (asid_map s)[?p := of_nat a] else asid_map s)"
    using m by (auto simp: mmu_map_section_def pt_of_def Let_def split: if_splits)
  show ?thesis
  proof (cases "?own \<and> \<not> own_fld ?S ?f")
    case True
    then have "?p \<in> ?S" by (auto simp: own_fld_def fld_base_section_fld no_share_flag)
    define s0 where "s0 = s\<lparr>asid_map := (asid_map s)[?p := of_nat a]\<rparr>"
    have "vm_inv (L, ?S, s0)"
      unfolding s0_def using inv' \<open>?p \<in> ?S\<close> by (rule vm_inv_owner_shared)
    then show ?thesis
      by (rule vm_inv_update [OF _ a drop_bit_lt_4096 [of va], where f = ?f and m = "asid_map s0"])
        (use True f len in \<open>auto simp: s0_def\<close>)
  next
    case False
    then have eq: "?own \<longleftrightarrow> own_fld ?S ?f" using own by blast
    have base: "fld_base ?f = ?p" by (rule fld_base_section_fld)
    show ?thesis
    proof (rule vm_inv_update [OF inv' a drop_bit_lt_4096 [of va] _ _ _ f(1) refl])
      show "own_fld ?S ?f \<longrightarrow> asid_map s ! fld_base ?f = 0" using free eq base by metis
      show "length (asid_map s') = N_PHYS_PAGES" using len by (simp add: f(2))
      have "asid_map s' ! i = (if ?own \<and> i = ?p then of_nat a else asid_map s ! i)"
        if "i < N_PHYS_PAGES" for i
        using that len by (simp add: f(2) nth_list_update)
      then show "\<forall>i < N_PHYS_PAGES. asid_map s' ! i =
          (if own_fld ?S ?f \<and> i = fld_base ?f then of_nat a else asid_map s ! i)"
        unfolding base eq by blast
    qed
  qed
qed

lemma map_pages_inv:
  assumes "map_pages (pt_of a) sync page end_page s = Inr s'" "vm_inv (L, S, s)" "a \<in> L"
  shows "vm_inv (L, S, s')"
  using assms
proof (induction "pt_of a" sync page end_page s rule: map_pages.induct)
  case (1 sync page end_page s)
  show ?case
  proof (cases "page \<le> end_page")
    case True
    let ?fl = "MAP_FLAG_NONE OR (if sync then MAP_FLAG_SYNC else 0)"
    from 1(2) True obtain s1 where
      m: "find_available_page s \<noteq> 0"
        "mmu_map_section (pt_of a) (push_bit 20 (of_nat page)) (find_available_page s) ?fl s = Inr s1"
        "map_pages (pt_of a) sync (Suc page) end_page s1 = Inr s'"
      by (subst (asm) map_pages.simps) (auto simp: Let_def rbind_eq_Inr split: if_splits)
    have "vm_inv (L, S, s1)"
      using vm_inv_map_section [OF 1(3) 1(4) m(2)] by (cases sync) (auto simp: vm_simps)
    from 1(1) [OF True refl m(1) m(3) this 1(4)] show ?thesis .
  next
    case False
    then show ?thesis using 1 by (simp add: map_pages.simps [of "pt_of a"])
  qed
qed

definition kernel_entries :: "fld list \<Rightarrow> fld list" where
  "kernel_entries fs = fs[0 := section_fld True 0, 0x200 := section_fld True 0x20000000,
     0x201 := section_fld True 0x20100000, 0x202 := section_fld True 0x20200000,
     0x203 := section_fld True 0x20300000]"

lemma length_kernel_entries [simp]: "length (kernel_entries fs) = length fs"
  by (simp add: kernel_entries_def)

lemma mmu_map_kernel_sections_eq:
  "mmu_map_kernel_sections pt s =
     Inr (s\<lparr>tt := (tt s)(vaddr_map pt := kernel_entries (tt s (vaddr_map pt)))\<rparr>)"
  by (simp add: mmu_map_kernel_sections_def mmu_map_section_def is_aligned_def Let_def vm_simps
      kernel_entries_def)

lemma mmu_init_eq:
  "base < 256 \<Longrightarrow> mmu_init base s = Inr (s\<lparr>tt := (tt s)(base := replicate N_VIRT_PAGES fld_zero)\<rparr>)"
proof -
  have 13: "(13 :: u32) = take_bit 4 13" by simp
  then have b13: "n < 4" if "bit (13 :: u32) n" for n using that by (metis bit_take_bit_iff)
  have "TRANS_TABLE_ADDR + of_nat base * 16384 = push_bit 14 (64 + of_nat base)"
    by (simp add: TRANS_TABLE_ADDR_def push_bit_eq_mult algebra_simps)
  then have "(TRANS_TABLE_ADDR + of_nat base * 16384) AND 13 = 0"
    by (simp only:) (intro bit_word_eqI, use b13 in \<open>force simp: bit_simps\<close>)
  then show ?thesis by (simp add: mmu_init_def is_aligned_def)
qed

lemma kernel_entries_not_private:
  assumes "v < N_VIRT_PAGES" shows "\<not> private_fld (kernel_entries (replicate N_VIRT_PAGES fld_zero) ! v)"
  using assms by (auto simp: kernel_entries_def nth_list_update vm_simps)

lemma vm_inv_create:
  assumes "vm_inv (L, S, s)" "0 < a" "a < 256" "mmu_init a s = Inr s1"
    and "mmu_map_kernel_sections (pt_of a) s1 = Inr s2"
  shows "vm_inv (insert a L, S, s2)"
proof -
  have "s2 = s\<lparr>tt := (tt s)(a := kernel_entries (replicate N_VIRT_PAGES fld_zero))\<rparr>"
    using assms(3-5) by (auto simp: mmu_init_eq mmu_map_kernel_sections_eq pt_of_def)
  then show ?thesis
    using assms(1-3) kernel_entries_not_private
    by (auto simp: vm_inv_def vm_wf_def inj_on_def own_fld_def)
qed

lemma unmap_entries_Inr:
  "unmap_entries fs m = Inr m' \<Longrightarrow> length m' = length m \<and>
    (\<forall>i < length m. m' ! i = (if \<exists>f \<in> set fs. private_fld f \<and> fld_base f = i then 0 else m ! i))"
proof (induction fs m rule: unmap_entries.induct)
  case (2 pte ptes m)
  then show ?case
    by (auto simp: private_fld_def fld_base_def nth_list_update split: if_splits)
qed simp

lemma vm_inv_destroy:
  assumes inv: "vm_inv (L, S, s)" and a: "a \<in> L" and un: "mmu_unmap (pt_of a) s = Inr s'"
  shows "vm_inv (L - {a}, S, s')"
proof -
  have wf: "vm_wf s" using inv by (simp add: vm_inv_def)
  obtain m' where m': "unmap_entries (tt s a) (asid_map s) = Inr m'" "s' = s\<lparr>asid_map := m'\<rparr>"
    using un by (auto simp: mmu_unmap_def pt_of_def rbind_eq_Inr)
  note un = unmap_entries_Inr [OF m'(1)]
  have keep: "m' ! i = asid_map s ! i"
    if "b \<in> L" "b \<noteq> a" "i < N_PHYS_PAGES" "i \<notin> S" "asid_map s ! i = of_nat b" for b i
  proof -
    have "b < 256" "a < 256" using inv that(1) a by (auto simp: vm_inv_def)
    then have ne: "asid_map s ! i \<noteq> of_nat a" using that asid_inj by simp
    have "\<not> (\<exists>f \<in> set (tt s a). private_fld f \<and> fld_base f = i)"
    proof
      assume "\<exists>f \<in> set (tt s a). private_fld f \<and> fld_base f = i"
      then obtain w where "w < N_VIRT_PAGES" "private_fld (tt s a ! w)" "fld_base (tt s a ! w) = i"
        using wf by (auto simp: in_set_conv_nth vm_wf_def)
      then have "asid_map s ! i = of_nat a" using inv a that(3,4) by (auto simp: vm_inv_def own_fld_def)
      with ne show False by simp
    qed
    then have "m' ! i = (if False then 0 else asid_map s ! i)"
      using un that(3) wf unfolding vm_wf_def by metis
    then show ?thesis by simp
  qed
  have "asid_map s' ! fld_base (tt s' b ! v) = of_nat b"
    if "b \<in> L - {a}" "v < N_VIRT_PAGES" "own_fld S (tt s' b ! v)" for b v
    using that keep [of b "fld_base (tt s b ! v)"] inv by (auto simp: vm_inv_def own_fld_def m')
  then show ?thesis using inv un by (auto simp: vm_inv_def vm_wf_def m')
qed

lemma vm_inv_step: "vm_step x y \<Longrightarrow> vm_inv x \<Longrightarrow> vm_inv y"
proof (induction rule: vm_step.induct)
  case (create a L s s1 s2 S)
  then show ?case by (intro vm_inv_create)
next
  case (grow a L addr sz sync s s' S)
  from map_pages_inv [OF grow(2) [unfolded mmu_map_to_mem_def Let_def] grow(3,1)] show ?case .
next
  case (map_section a L va pa flags s s' S)
  then show ?case by (intro vm_inv_map_section)
next
  case (destroy a L s s' S)
  then show ?case by (intro vm_inv_destroy)
qed

lemma vm_reachable_inv: "vm_reachable x \<Longrightarrow> vm_inv x"
  by (induction rule: vm_reachable.induct) (auto simp: vm_inv_step, simp add: vm_inv_def own_fld_def)


lemma create_step:
  assumes "a \<notin> L" "0 < a" "a < 256"
  shows "vm_step (L, S, s) (insert a L, S, s\<lparr>tt := (tt s)(a := kernel_entries (replicate N_VIRT_PAGES fld_zero))\<rparr>)"
proof (rule vm_step.create [OF assms])
  show "mmu_init a s = Inr (s\<lparr>tt := (tt s)(a := replicate N_VIRT_PAGES fld_zero)\<rparr>)"
    using assms(3) by (rule mmu_init_eq)
qed (simp add: mmu_map_kernel_sections_eq pt_of_def)

lemma map_pages_single:
  assumes "find_available_page s = push_bit 20 (of_nat i)" "0 < i" "i < N_PHYS_PAGES"
    and "asid_map s ! i = 0" "v < N_VIRT_PAGES"
  shows "map_pages pt sync v v s = Inr (map_one pt sync v i s)"
proof -
  have "push_bit 20 (of_nat i) \<noteq> (0 :: u32)"
    using assms(2,3) by (subst section_addr_zero_iff) (auto simp: vm_simps)
  then show ?thesis
    using assms mmu_map_section_private [of v i s pt sync]
    by (simp add: map_pages.simps [of pt sync v] map_pages.simps [of pt sync "Suc v"] Let_def vm_simps)
qed

lemma mmu_map_to_mem_section:
  "mmu_map_to_mem pt 0x80000000 0x100000 sync s = map_pages pt sync 0x800 0x800 s"
  by (simp add: mmu_map_to_mem_def)


end
