(* ===== verification/Pi_Vm_Boot.thy ===== *)
theory Pi_Vm_Boot
  imports Pi_Vm
begin

text \<open>
  The rest of pi-side/kernel/vm.c: \<open>vm_enable\<close>, which builds the kernel's address space and turns
  the MMU on, and what the alignment checks establish.
\<close>

section \<open>Turning the MMU on\<close>

text \<open>
  The coprocessor registers that \<open>vm_enable\<close> reads and writes through its assembly routines,
  and physical memory. \<open>vread32\<close> is a load by the processor: with the MMU on (bit 0 of the
  control register) the address goes through the section descriptor that \<open>ttbr0\<close> selects, in the
  format documented in vm.h; \<open>None\<close> is a translation fault.
\<close>

record cpu =
  ctrl :: u32
  dacr :: u32
  procid :: u32
  ttbr0 :: nat
  phys :: mem

definition section_translate :: "fld \<Rightarrow> u32 \<Rightarrow> u32 option" where
  "section_translate f va =
     (if fld_tag f = 2 then Some (push_bit 20 (ucast (sec_base_addr f)) OR take_bit 20 va) else None)"

definition vread32 :: "cpu \<Rightarrow> vm \<Rightarrow> u32 \<Rightarrow> u32 option" where
  "vread32 c s va =
     (if bit (ctrl c) 0
      then map_option (GET32 (phys c)) (section_translate (tt s (ttbr0 c) ! unat (drop_bit 20 va)) va)
      else Some (GET32 (phys c) va))"

definition set_procid_ttbr0 :: "u8 \<Rightarrow> nat \<Rightarrow> cpu \<Rightarrow> cpu" where
  "set_procid_ttbr0 a table c = c\<lparr>procid := ucast a, ttbr0 := table\<rparr>"

fun map_identity :: "page_table \<Rightarrow> u32 list \<Rightarrow> vm \<Rightarrow> vm res" where
  "map_identity pt [] s = Inr s"
| "map_identity pt (addr # addrs) s =
     rbind (mmu_map_section pt addr addr MAP_FLAG_NONE s) (map_identity pt addrs)"

definition vm_enable :: "u16 \<Rightarrow> cpu \<Rightarrow> vm \<Rightarrow> (page_table \<times> cpu \<times> vm) res" where
  "vm_enable rand_val c s =
     (let s = s\<lparr>asid_map := replicate N_PHYS_PAGES 0\<rparr>;
          kernel_pt = \<lparr>pt_asid = 1, vaddr_map = 1\<rparr>;
          n_tt_pages = (16384 * 256) div (2 ^ 20) in
      rbind (mmu_init 0 s) (\<lambda>s.
      rbind (mmu_init (vaddr_map kernel_pt) s) (\<lambda>s.
      rbind (mmu_map_kernel_sections kernel_pt s) (\<lambda>s.
      rbind (map_identity kernel_pt
               (map (\<lambda>i. TRANS_TABLE_ADDR + push_bit 20 (of_nat i)) [0..<n_tt_pages]) s) (\<lambda>s.
      let c = c\<lparr>ctrl := set_bit 23 (ctrl c)\<rparr> in
      rbind (assert_that (bit (ctrl c) 23)) (\<lambda>_.
      rbind (assert_that (\<not> bit (ctrl c) 0)) (\<lambda>_.
      let c = c\<lparr>dacr := NOT 0, phys := PUT32 (phys c) (0x100000 - 4) (ucast rand_val)\<rparr>;
          c = set_procid_ttbr0 (pt_asid kernel_pt) (vaddr_map kernel_pt) c;
          c = c\<lparr>ctrl := set_bit 0 (ctrl c)\<rparr> in
      rbind (assert_that (bit (ctrl c) 0)) (\<lambda>_.
      rbind (assert_that (vread32 c s (0x100000 - 4) = Some (ucast rand_val))) (\<lambda>_.
      Inr (kernel_pt, c, s))))))))))"

section \<open>The kernel's own address space\<close>

lemma section_translate_section:
  assumes "k = unat (drop_bit 20 va)"
  shows "section_translate (section_fld g (push_bit 20 (of_nat k))) va = Some va"
proof -
  have k: "of_nat k = drop_bit 20 va" using assms by simp
  have "push_bit 20 (ucast (ucast (drop_bit 20 (push_bit 20 (drop_bit 20 va))) :: 12 word)) OR take_bit 20 va = va"
    by (rule bit_word_eqI) (auto simp: bit_simps)
  then show ?thesis by (simp add: section_translate_def section_fld_def k)
qed

lemma section_translate_zero: "section_translate fld_zero va = None"
  by (simp add: section_translate_def fld_zero_def)

definition kernel_table :: "fld list" where
  "kernel_table = (kernel_entries (replicate N_VIRT_PAGES fld_zero))
     [1 := section_fld False 0x100000, 2 := section_fld False 0x200000,
      3 := section_fld False 0x300000, 4 := section_fld False 0x400000]"

lemma kernel_table_nth:
  assumes "k < N_VIRT_PAGES"
  shows "kernel_table ! k =
    (if k = 0 \<or> 0x200 \<le> k \<and> k \<le> 0x203 then section_fld True (push_bit 20 (of_nat k))
     else if 1 \<le> k \<and> k \<le> 4 then section_fld False (push_bit 20 (of_nat k)) else fld_zero)"
proof -
  consider "k = 0" | "k = 1" | "k = 2" | "k = 3" | "k = 4" | "k = 0x200" | "k = 0x201" | "k = 0x202"
    | "k = 0x203" | "4 < k" "k < 0x200 \<or> 0x203 < k" by linarith
  then show ?thesis
    by cases (use assms in \<open>auto simp: kernel_table_def kernel_entries_def nth_list_update vm_simps\<close>)
qed

lemma kernel_table_translate:
  "section_translate (kernel_table ! unat (drop_bit 20 va)) va =
     (if unat (drop_bit 20 va) \<le> 4 \<or> 0x200 \<le> unat (drop_bit 20 va) \<and> unat (drop_bit 20 va) \<le> 0x203
      then Some va else None)"
proof -
  have "section_translate (section_fld g (push_bit 20 (of_nat (unat (drop_bit 20 va))))) va = Some va" for g
    by (rule section_translate_section) simp
  then show ?thesis
    unfolding kernel_table_nth [OF drop_bit_lt_4096] if_distrib [of "\<lambda>f. section_translate f va"]
    by (auto simp only: section_translate_zero split: if_split)
qed

lemma vread32_kernel:
  "bit (ctrl c) 0 \<Longrightarrow> ttbr0 c = 1 \<Longrightarrow> tt s 1 = kernel_table \<Longrightarrow>
   vread32 c s 0xFFFFC = Some (GET32 (phys c) 0xFFFFC)"
  using kernel_table_translate [of "0xFFFFC"] by (simp add: vread32_def)

definition kernel_owners :: "u8 list" where
  "kernel_owners = (replicate N_PHYS_PAGES 0)[1 := 1, 2 := 1, 3 := 1, 4 := 1]"

lemma upt_0_4: "[0..<4] = [0, 1, 2, 3 :: nat]"
  by (simp add: upt_conv_Cons)

lemma vm_enable_tables:
  "rbind (mmu_map_kernel_sections \<lparr>pt_asid = 1, vaddr_map = 1\<rparr>
      (s\<lparr>asid_map := replicate N_PHYS_PAGES 0, tt := (tt s)(0 := z, 1 := replicate N_VIRT_PAGES fld_zero)\<rparr>))
     (map_identity \<lparr>pt_asid = 1, vaddr_map = 1\<rparr>
        (map (\<lambda>i. TRANS_TABLE_ADDR + push_bit 20 (of_nat i)) [0..<4]))
   = Inr (s\<lparr>asid_map := kernel_owners, tt := (tt s)(0 := z, 1 := kernel_table)\<rparr>)"
  by (simp add: mmu_map_kernel_sections_eq mmu_map_section_def is_aligned_def Let_def vm_simps
      TRANS_TABLE_ADDR_def kernel_table_def kernel_owners_def upt_0_4)

lemma vm_enable_state:
  assumes "\<not> bit (ctrl c) 0" "\<And>a. length (tt s a) = N_VIRT_PAGES"
  shows "\<exists>c' s'. vm_enable rand_val c s = Inr (\<lparr>pt_asid = 1, vaddr_map = 1\<rparr>, c', s')
    \<and> bit (ctrl c') 0 \<and> procid c' = 1 \<and> ttbr0 c' = 1 \<and> vm_wf s'
    \<and> (\<forall>i < N_PHYS_PAGES. asid_map s' ! i = (if 1 \<le> i \<and> i \<le> 4 then 1 else 0))
    \<and> (\<forall>va. section_translate (tt s' 1 ! unat (drop_bit 20 va)) va =
         (if unat (drop_bit 20 va) \<le> 4 \<or> 0x200 \<le> unat (drop_bit 20 va) \<and> unat (drop_bit 20 va) \<le> 0x203
          then Some va else None))"
proof -
  let ?z = "replicate N_VIRT_PAGES fld_zero"
  let ?s = "s\<lparr>asid_map := kernel_owners, tt := (tt s)(0 := ?z, 1 := kernel_table)\<rparr>"
  let ?c = "c\<lparr>dacr := NOT 0, phys := PUT32 (phys c) 0xFFFFC (ucast rand_val), procid := 1, ttbr0 := 1,
     ctrl := set_bit 0 (set_bit 23 (ctrl c))\<rparr>"
  have bits: "bit (set_bit 23 (ctrl c)) 23" "\<not> bit (set_bit 23 (ctrl c)) 0" "bit (ctrl ?c) 0"
    using assms(1) by (simp_all add: bit_set_bit_iff)
  have "vread32 ?c ?s 0xFFFFC = Some (ucast rand_val)"
    using bits by (simp add: vread32_kernel)
  moreover note tabs = vm_enable_tables [of s ?z]
  ultimately have "vm_enable rand_val c s = Inr (\<lparr>pt_asid = 1, vaddr_map = 1\<rparr>, ?c, ?s)"
    using bits
    by (simp add: vm_enable_def Let_def mmu_init_eq set_procid_ttbr0_def
        rbind_assoc [symmetric] tabs del: rbind_eq_Inr)
  moreover have "vm_wf ?s"
    using assms(2) by (simp add: vm_wf_def kernel_owners_def kernel_table_def)
  moreover have "\<forall>i < N_PHYS_PAGES. kernel_owners ! i = (if 1 \<le> i \<and> i \<le> 4 then 1 else 0)"
    by (auto simp: kernel_owners_def nth_list_update vm_simps)
  ultimately show ?thesis
    using bits kernel_table_translate by (intro exI [of _ ?c] exI [of _ ?s]) simp
qed

text \<open>
  C29: \<open>vm_enable\<close>, started with the MMU off, passes all its assertions, turns the MMU on with
  address space 1, and leaves an identity mapping: exactly the kernel section, the four sections
  of translation tables and the four peripheral sections translate, each address to itself, and
  the kernel owns exactly the physical sections that hold the tables.
\<close>

theorem vm_enable_identity:
  assumes "\<not> bit (ctrl c) 0" "\<And>a. length (tt s a) = N_VIRT_PAGES"
  shows "\<exists>c' s'. vm_enable rand_val c s = Inr (\<lparr>pt_asid = 1, vaddr_map = 1\<rparr>, c', s')
    \<and> bit (ctrl c') 0 \<and> procid c' = 1 \<and> ttbr0 c' = 1 \<and> vm_wf s'
    \<and> (\<forall>i < N_PHYS_PAGES. asid_map s' ! i = (if 1 \<le> i \<and> i \<le> 4 then 1 else 0))
    \<and> (\<forall>va. section_translate (tt s' 1 ! unat (drop_bit 20 va)) va =
         (if unat (drop_bit 20 va) \<le> 4 \<or> 0x200 \<le> unat (drop_bit 20 va) \<and> unat (drop_bit 20 va) \<le> 0x203
          then Some va else None))"
  by (rule vm_enable_state [OF assms])

theorem vm_enable_identity_witness:
  "\<exists>c' s'. vm_enable 7 \<lparr>ctrl = 0, dacr = 0, procid = 0, ttbr0 = 0, phys = (\<lambda>_. 0)\<rparr> blank_vm
      = Inr (\<lparr>pt_asid = 1, vaddr_map = 1\<rparr>, c', s') \<and> bit (ctrl c') 0
      \<and> section_translate (tt s' 1 ! unat (drop_bit 20 (0x8000 :: u32))) 0x8000 = Some 0x8000"
proof -
  let ?c = "\<lparr>ctrl = 0, dacr = 0, procid = 0, ttbr0 = 0, phys = (\<lambda>_. 0)\<rparr> :: cpu"
  have "\<not> bit (ctrl ?c) 0" "length (tt blank_vm a) = N_VIRT_PAGES" for a by (simp_all add: blank_vm_def)
  from vm_enable_identity [OF this, of 7] obtain c' s' where
    e: "vm_enable 7 ?c blank_vm = Inr (\<lparr>pt_asid = 1, vaddr_map = 1\<rparr>, c', s')" "bit (ctrl c') 0"
    and t: "\<forall>va. section_translate (tt s' 1 ! unat (drop_bit 20 va)) va =
         (if unat (drop_bit 20 va) \<le> 4 \<or> 0x200 \<le> unat (drop_bit 20 va) \<and> unat (drop_bit 20 va) \<le> 0x203
          then Some va else None)" by blast
  from t [rule_format, of "0x8000"]
  have "section_translate (tt s' 1 ! unat (drop_bit 20 (0x8000 :: u32))) 0x8000 = Some 0x8000" by simp
  with e show ?thesis by blast
qed

section \<open>What the alignment checks accept\<close>

text \<open>
  The checks \<open>is_aligned(va, 20)\<close> of \<open>mmu_map_section\<close> do not establish 1 MiB alignment: they
  test bits 0, 1 and 4 only. An address whose low five bits are clear passes whatever its other
  bits are, and the mapping made is the one of the section that contains the address.
\<close>

theorem mmu_map_section_ignores_offset:
  assumes "take_bit 5 va = 0" "take_bit 5 pa = 0"
  shows "is_aligned va 20 \<and> is_aligned pa 20 \<and>
    mmu_map_section pt va pa MAP_FLAG_GLOBAL s =
    mmu_map_section pt (push_bit 20 (drop_bit 20 va)) (push_bit 20 (drop_bit 20 pa)) MAP_FLAG_GLOBAL s"
proof -
  have al: "is_aligned w 20" if "take_bit 5 w = 0" for w
  proof -
    have "(19 :: u32) = take_bit 5 19" by simp
    then have "n < 5" if "bit (19 :: u32) n" for n using that by (metis bit_take_bit_iff)
    moreover have "\<not> bit w n" if "n < 5" for n
      using \<open>take_bit 5 w = 0\<close> that bit_take_bit_iff [of 5 w n] by simp
    ultimately have "w AND 19 = 0" by (intro bit_word_eqI) (auto simp: bit_simps)
    then show ?thesis by (simp add: is_aligned_def)
  qed
  have dp: "drop_bit 20 (push_bit 20 (drop_bit 20 w)) = drop_bit 20 (w :: u32)" for w
    by (rule bit_word_eqI) (auto simp: bit_simps dest: bit_imp_le_length)
  show ?thesis
    using assms al by (simp add: mmu_map_section_def Let_def section_fld_def dp vm_simps)
qed

theorem mmu_map_section_ignores_offset_witness:
  "is_aligned 0x00100FE0 20 \<and> mmu_map_section \<lparr>pt_asid = 5, vaddr_map = 5\<rparr> 0x00100FE0 0x00200020 MAP_FLAG_GLOBAL blank_vm =
     mmu_map_section \<lparr>pt_asid = 5, vaddr_map = 5\<rparr> (push_bit 20 (drop_bit 20 0x00100FE0))
       (push_bit 20 (drop_bit 20 0x00200020))
       MAP_FLAG_GLOBAL blank_vm"
  using mmu_map_section_ignores_offset [of "0x00100FE0" "0x00200020" "\<lparr>pt_asid = 5, vaddr_map = 5\<rparr>" blank_vm] by simp

end
