(* ===== verification/Pi_Vm_Layout.thy ===== *)
theory Pi_Vm_Layout
  imports Pi_Vm
begin

text \<open>
  The bit layout of the first-level descriptors of pi-side/kernel/vm.h, which \<open>fld_check\<close> of vm.c
  asserts field by field.
\<close>

section \<open>Descriptor layout\<close>

text \<open>
  The descriptor bit layout: packing a descriptor into its 32 bits and reading the fields
  back at the offsets that \<open>fld_check\<close> asserts gives the same descriptor, and every 32-bit value
  is the packing of the descriptor read from it.
\<close>

theorem fld_encode_decode: "fld_decode (fld_encode f) = f \<and> fld_encode (fld_decode u) = u"
proof
  show "fld_decode (fld_encode f) = f"
    by (rule fld.equality; simp add: fld_decode_def; rule bit_word_eqI;
        simp add: fld_encode_def bit_simps; auto dest: bit_imp_le_length)
  show "fld_encode (fld_decode u) = u"
  proof (rule bit_word_eqI)
    fix n assume "n < LENGTH(32)"
    then have "n < 32" by simp
    then consider "n < 2" | "n = 2" | "n = 3" | "n = 4" | "5 \<le> n \<and> n < 9" | "n = 9"
      | "10 \<le> n \<and> n < 12" | "12 \<le> n \<and> n < 15" | "n = 15" | "n = 16" | "n = 17" | "n = 18" | "n = 19"
      | "20 \<le> n \<and> n < 32" by linarith
    then show "bit (fld_encode (fld_decode u)) n = bit u n"
      by cases (simp_all add: fld_encode_def fld_decode_def bit_simps, auto)
  qed
qed

end
