(* ===== verification/Pi_Syscall.thy ===== *)
theory Pi_Syscall
  imports Pi_Vm_Boot Pi_Stdlib
begin

text \<open>
  Processes and the system call layer: pi-side/kernel/process.h, syscall.c (\<open>kernel_sbrk\<close>) and
  interrupts.c (\<open>handle_swi\<close>, the exception vectors). Pointers to \<open>process_t\<close> are indices into
  the kernel's store of processes, NULL is \<open>None\<close>. A store by the processor goes through the
  page table that \<open>ttbr0\<close> selects; a store that does not translate raises a data abort, whose
  handler panics.
\<close>

section \<open>State\<close>

record process =
  heap_start :: u32
  heap_end :: u32
  page_tab :: page_table

record kernel =
  kcpu :: cpu
  kvm :: vm
  procs :: "nat \<Rightarrow> process"
  kernel_proc :: "nat option"
  current_proc :: "nat option"

definition syscall_set_kernel_proc :: "nat option \<Rightarrow> kernel \<Rightarrow> kernel" where
  "syscall_set_kernel_proc p k = k\<lparr>kernel_proc := p\<rparr>"

definition syscall_set_current_proc :: "nat option \<Rightarrow> kernel \<Rightarrow> kernel" where
  "syscall_set_current_proc p k = k\<lparr>current_proc := p\<rparr>"

definition syscall_get_current_proc :: "kernel \<Rightarrow> nat option" where
  "syscall_get_current_proc k = current_proc k"

section \<open>Memory as the running program sees it\<close>

definition vtranslate :: "cpu \<Rightarrow> vm \<Rightarrow> u32 \<Rightarrow> u32 option" where
  "vtranslate c s va =
     (if bit (ctrl c) 0 then section_translate (tt s (ttbr0 c) ! unat (drop_bit 20 va)) va else Some va)"

definition vread8 :: "cpu \<Rightarrow> vm \<Rightarrow> u32 \<Rightarrow> u8 option" where
  "vread8 c s va = map_option (phys c) (vtranslate c s va)"

definition vwrite8 :: "vm \<Rightarrow> u32 \<Rightarrow> u8 \<Rightarrow> cpu \<Rightarrow> cpu res" where
  "vwrite8 s va b c =
     (case vtranslate c s va of None \<Rightarrow> Inl PanicFault
      | Some pa \<Rightarrow> Inr (c\<lparr>phys := (phys c)(pa := b)\<rparr>))"

function vmemset_loop :: "vm \<Rightarrow> u32 \<Rightarrow> u32 \<Rightarrow> u8 \<Rightarrow> cpu \<Rightarrow> cpu res" where
  "vmemset_loop s p e b c =
     (if p < e then rbind (vwrite8 s p b c) (vmemset_loop s (p + 1) e b) else Inr c)"
  by pat_completeness auto
termination
  by (relation "measure (\<lambda>(s, p, e, b, c). unat e - unat p)") (simp_all add: unat_diff_less_u32)

definition vmemset :: "u32 \<Rightarrow> u8 \<Rightarrow> u32 \<Rightarrow> kernel \<Rightarrow> kernel res" where
  "vmemset p b n k =
     rbind (vmemset_loop (kvm k) p (p + n) b (kcpu k)) (\<lambda>c. Inr (k\<lparr>kcpu := c\<rparr>))"

section \<open>System calls\<close>

definition switch_to :: "page_table \<Rightarrow> kernel \<Rightarrow> kernel" where
  "switch_to pt k = k\<lparr>kcpu := set_procid_ttbr0 (pt_asid pt) (vaddr_map pt) (kcpu k)\<rparr>"

definition kernel_sbrk :: "u32 \<Rightarrow> kernel \<Rightarrow> (u32 \<times> kernel) res" where
  "kernel_sbrk incr k =
     (case (kernel_proc k, current_proc k) of
        (Some kp, Some cp) \<Rightarrow>
          rbind
            (if incr \<noteq> 0 then
               let k = (if cp \<noteq> kp then switch_to (page_tab (procs k kp)) k else k);
                   brk = heap_end (procs k cp) in
               rbind (mmu_map_to_mem (page_tab (procs k cp)) brk incr True (kvm k)) (\<lambda>s.
               let k = k\<lparr>kvm := s\<rparr>;
                   k = (if cp \<noteq> kp then switch_to (page_tab (procs k cp)) k else k) in
               rbind (vmemset brk 0 incr k) (\<lambda>k.
               Inr (k\<lparr>procs := (procs k)(cp := procs k cp\<lparr>heap_end := brk + incr\<rparr>)\<rparr>)))
             else Inr k)
            (\<lambda>k. Inr (heap_end (procs k cp), k))
      | _ \<Rightarrow> Inl AssertFault)"

definition SUPER_MODE :: u32 where "SUPER_MODE = 0x13"
definition SWI_STACK_ADDR :: u32 where "SWI_STACK_ADDR = 0x000F0000"

text \<open>
  The handler runs with the status register \<open>cpsr\<close> and a stack whose local variable \<open>i\<close> has the
  address \<open>addr_i\<close>; it updates the saved registers of the caller in place.
\<close>

definition handle_swi :: "u32 \<Rightarrow> u32 \<Rightarrow> u8 \<Rightarrow> u32 \<Rightarrow> u32 list \<Rightarrow> kernel \<Rightarrow> (u32 list \<times> kernel) res" where
  "handle_swi cpsr addr_i sysno pc saved_regs k =
     rbind (assert_that (cpsr AND 0x1F = SUPER_MODE)) (\<lambda>_.
     rbind (assert_that (addr_i < SWI_STACK_ADDR)) (\<lambda>_.
     if sysno = 1
     then rbind (kernel_sbrk (saved_regs ! 0) k) (\<lambda>(r, k). Inr (saved_regs[0 := r], k))
     else Inr (saved_regs, k)))"

text \<open>The stub \<open>rpi_sbrk\<close> of libpi issues software interrupt 1 with the increment in \<open>r0\<close>.\<close>

definition rpi_sbrk :: "u32 \<Rightarrow> u32 \<Rightarrow> u32 \<Rightarrow> u32 list \<Rightarrow> u32 \<Rightarrow> kernel \<Rightarrow> (u32 \<times> kernel) res" where
  "rpi_sbrk cpsr addr_i pc regs incr k =
     rbind (handle_swi cpsr addr_i 1 pc (incr # regs) k) (\<lambda>(regs, k). Inr (regs ! 0, k))"

section \<open>Exception vectors\<close>

record vectors =
  int_table :: "u32 list"
  int_intialized_p :: bool
  irq_off :: bool
  vmem :: mem

definition int_set_handler :: "int \<Rightarrow> u32 \<Rightarrow> vectors \<Rightarrow> vectors res" where
  "int_set_handler t handler v =
     rbind (demand_that (0 \<le> t \<and> t < 7 \<and> t \<noteq> 5)) (\<lambda>_.
     let v = v\<lparr>int_table := (int_table v)[nat t := handler]\<rparr> in
     rbind (demand_that (\<not> int_intialized_p v)) (\<lambda>_. Inr v))"

fun install_loop :: "nat \<Rightarrow> u32 list \<Rightarrow> mem \<Rightarrow> mem" where
  "install_loop i [] m = m"
| "install_loop i (w # ws) m = install_loop (Suc i) ws (PUT32 m (0 + 4 * of_nat i) w)"

definition install_handlers :: "vectors \<Rightarrow> vectors" where
  "install_handlers v = v\<lparr>vmem := install_loop 0 (int_table v) (vmem v)\<rparr>"

definition cpsr_print_mode :: "u32 \<Rightarrow> string res" where
  "cpsr_print_mode cpsr_r =
     (let m = cpsr_r AND 0x1F in
      if m = 0x10 then Inr ''user mode''
      else if m = 0x11 then Inr ''fiq mode''
      else if m = 0x12 then Inr ''irq mode''
      else if m = 0x13 then Inr ''supervisor mode''
      else if m = 0x17 then Inr ''abort mode''
      else if m = 0x1B then Inr ''undef mode''
      else if m = 0x1F then Inr ''sys mode''
      else Inl PanicFault)"

definition int_init :: "u32 \<Rightarrow> vectors \<Rightarrow> vectors res" where
  "int_init cpsr v =
     (let v = v\<lparr>vmem := PUT32 (PUT32 (vmem v) 0x2000b21c 0xffffffff) 0x2000b220 0xffffffff, irq_off := True\<rparr>;
          v = (install_handlers v)\<lparr>int_intialized_p := True\<rparr>
      in rbind (cpsr_print_mode (cpsr AND 0x1F)) (\<lambda>_. Inr v))"

section \<open>The heap of the running process\<close>

abbreviation sec :: "u32 \<Rightarrow> nat" where
  "sec va \<equiv> unat (drop_bit 20 va)"

definition heap_secs :: "process \<Rightarrow> nat set" where
  "heap_secs p = {sec (heap_start p) .. sec (heap_end p - 1)}"

definition heap_entry :: "kernel \<Rightarrow> process \<Rightarrow> nat \<Rightarrow> fld" where
  "heap_entry k p v = tt (kvm k) (vaddr_map (page_tab p)) ! v"

text \<open>
  The running process \<open>cp\<close> has its page table active, and each section of its heap is mapped to
  an owned physical section of its own.
\<close>

definition heap_ok :: "nat \<Rightarrow> kernel \<Rightarrow> bool" where
  "heap_ok cp k \<longleftrightarrow> (let p = procs k cp in
     kernel_proc k \<noteq> None \<and> current_proc k = Some cp \<and> vm_wf (kvm k) \<and> bit (ctrl (kcpu k)) 0 \<and>
     ttbr0 (kcpu k) = vaddr_map (page_tab p) \<and> pt_asid (page_tab p) \<noteq> 0 \<and>
     0 < heap_start p \<and> heap_start p \<le> heap_end p \<and>
     inj_on (\<lambda>v. fld_base (heap_entry k p v)) (heap_secs p) \<and>
     (\<forall>v \<in> heap_secs p. fld_base (heap_entry k p v) < N_PHYS_PAGES \<and>
        asid_map (kvm k) ! fld_base (heap_entry k p v) \<noteq> 0 \<and>
        heap_entry k p v = section_fld False (push_bit 20 (of_nat (fld_base (heap_entry k p v))))))"

definition paddr :: "nat \<Rightarrow> u32 \<Rightarrow> u32" where
  "paddr i va = push_bit 20 (of_nat i) OR take_bit 20 va"

definition heap_pa :: "nat \<Rightarrow> kernel \<Rightarrow> u32 \<Rightarrow> u32" where
  "heap_pa cp k va = paddr (fld_base (heap_entry k (procs k cp) (sec va))) va"

definition heap_range :: "nat \<Rightarrow> kernel \<Rightarrow> u32 set" where
  "heap_range cp k = {heap_start (procs k cp) ..< heap_end (procs k cp)}"

lemma drop_bit_paddr: "i < 4096 \<Longrightarrow> sec (paddr i va) = i"
proof -
  assume i: "i < 4096"
  have "drop_bit 20 (paddr i va) = drop_bit 20 (push_bit 20 (of_nat i))"
    unfolding paddr_def by (rule bit_word_eqI) (auto simp: bit_simps)
  then show ?thesis using i by simp
qed

lemma take_bit_paddr: "take_bit 20 (paddr i va) = take_bit 20 va"
  unfolding paddr_def by (rule bit_word_eqI) (auto simp: bit_simps)

lemma split_addr: "va = push_bit 20 (drop_bit 20 va) OR take_bit 20 (va :: u32)"
  by (rule bit_word_eqI) (auto simp: bit_simps)

lemma paddr_inj:
  assumes "paddr i va = paddr j vb" "i < 4096" "j < 4096"
  shows "i = j \<and> take_bit 20 va = take_bit 20 vb"
  using assms drop_bit_paddr take_bit_paddr by metis

lemma section_translate_paddr:
  assumes "i < 4096"
  shows "section_translate (section_fld g (push_bit 20 (of_nat i))) va = Some (paddr i va)"
proof -
  have "push_bit 20 (ucast (ucast (drop_bit 20 (push_bit 20 (of_nat i :: u32))) :: 12 word)) = (push_bit 20 (of_nat i) :: u32)"
    by (rule bit_word_eqI) (auto simp: bit_simps)
  then show ?thesis by (simp add: section_translate_def section_fld_def paddr_def)
qed

lemma u32_interval_step: "(p :: u32) < e \<Longrightarrow> {p..<e} = insert p {p + 1..<e}"
  using unat_Suc_u32 [of p e] by (auto simp: word_less_nat_alt word_le_nat_alt word_unat_eq_iff)

lemma vtranslate_phys [simp]: "vtranslate (c\<lparr>phys := m\<rparr>) s va = vtranslate c s va"
  by (simp add: vtranslate_def)

declare vmemset_loop.simps [simp del]

lemma vmemset_loop_eq:
  "(\<And>va. va \<in> {p..<e} \<Longrightarrow> vtranslate c s va = Some (tr va)) \<Longrightarrow>
   vmemset_loop s p e b c = Inr (c\<lparr>phys := \<lambda>x. if x \<in> tr ` {p..<e} then b else phys c x\<rparr>)"
proof (induction s p e b c rule: vmemset_loop.induct)
  case (1 s p e b c)
  show ?case
  proof (cases "p < e")
    case True
    let ?c = "c\<lparr>phys := (phys c)(tr p := b)\<rparr>"
    have w: "vwrite8 s p b c = Inr ?c" using "1.prems" [of p] True by (simp add: vwrite8_def)
    have "vmemset_loop s (p + 1) e b ?c =
        Inr (?c\<lparr>phys := \<lambda>x. if x \<in> tr ` {p + 1..<e} then b else phys ?c x\<rparr>)"
      using True "1.prems" by (intro "1.IH" [OF True]) (auto simp: u32_interval_step)
    moreover have "(\<lambda>x. if x \<in> tr ` {p + 1..<e} then b else phys ?c x)
        = (\<lambda>x. if x \<in> tr ` {p..<e} then b else phys c x)"
      using True by (auto simp: u32_interval_step fun_eq_iff)
    ultimately show ?thesis using True w by (simp add: vmemset_loop.simps [of s p])
  next
    case False
    then show ?thesis by (simp add: vmemset_loop.simps [of s p])
  qed
qed

lemma sec_mono: "(a :: u32) \<le> b \<Longrightarrow> sec a \<le> sec b"
  by (simp add: unat_drop_bit div_le_mono word_le_nat_alt)

lemma heap_range_sec:
  assumes "va \<in> heap_range cp k" shows "sec va \<in> heap_secs (procs k cp)"
proof -
  let ?e = "heap_end (procs k cp)"
  have "va < ?e" using assms by (simp add: heap_range_def)
  then have "?e \<noteq> 0" "unat va < unat ?e" by (auto simp: word_less_nat_alt)
  then have "va \<le> ?e - 1" by (simp add: word_le_nat_alt unat_minus_one)
  then show ?thesis using assms by (auto simp: heap_secs_def heap_range_def intro: sec_mono)
qed

lemma heap_translate:
  assumes "heap_ok cp k" "va \<in> heap_range cp k"
  shows "vtranslate (kcpu k) (kvm k) va = Some (heap_pa cp k va)"
proof -
  let ?f = "heap_entry k (procs k cp) (sec va)"
  have f: "fld_base ?f < N_PHYS_PAGES" "?f = section_fld False (push_bit 20 (of_nat (fld_base ?f)))"
    using assms(1) heap_range_sec [OF assms(2)] by (auto simp: heap_ok_def Let_def)
  then have "section_translate ?f va = Some (paddr (fld_base ?f) va)"
    using section_translate_paddr [of "fld_base ?f" False va] by (simp add: vm_simps)
  then show ?thesis
    using assms(1) by (simp add: vtranslate_def heap_ok_def Let_def heap_pa_def heap_entry_def)
qed

lemma heap_pa_inj: assumes "heap_ok cp k" shows "inj_on (heap_pa cp k) (heap_range cp k)"
proof (rule inj_onI)
  fix a b assume a: "a \<in> heap_range cp k" and b: "b \<in> heap_range cp k" and eq: "heap_pa cp k a = heap_pa cp k b"
  let ?f = "\<lambda>v. fld_base (heap_entry k (procs k cp) v)"
  have s: "sec a \<in> heap_secs (procs k cp)" "sec b \<in> heap_secs (procs k cp)"
    using a b by (simp_all add: heap_range_sec)
  then have "?f (sec a) < 4096" "?f (sec b) < 4096"
    using assms by (auto simp: heap_ok_def Let_def vm_simps)
  from paddr_inj [OF eq [unfolded heap_pa_def] this]
  have "?f (sec a) = ?f (sec b)" "take_bit 20 a = take_bit 20 b" by auto
  moreover have "inj_on ?f (heap_secs (procs k cp))" using assms by (simp add: heap_ok_def Let_def)
  ultimately have "sec a = sec b" using s by (auto dest: inj_onD)
  then have "drop_bit 20 a = drop_bit 20 b" by (simp only: word_unat_eq_iff)
  then show "a = b" using \<open>take_bit 20 a = take_bit 20 b\<close> split_addr [of a] split_addr [of b] by metis
qed

definition set_phys :: "u32 set \<Rightarrow> u8 \<Rightarrow> kernel \<Rightarrow> kernel" where
  "set_phys A b k = k\<lparr>kcpu := (kcpu k)\<lparr>phys := \<lambda>x. if x \<in> A then b else phys (kcpu k) x\<rparr>\<rparr>"

lemma set_phys_simps [simp]:
  "kvm (set_phys A b k) = kvm k" "procs (set_phys A b k) = procs k"
  "kernel_proc (set_phys A b k) = kernel_proc k" "current_proc (set_phys A b k) = current_proc k"
  "ctrl (kcpu (set_phys A b k)) = ctrl (kcpu k)" "ttbr0 (kcpu (set_phys A b k)) = ttbr0 (kcpu k)"
  "phys (kcpu (set_phys A b k)) x = (if x \<in> A then b else phys (kcpu k) x)"
  "vtranslate (kcpu (set_phys A b k)) s va = vtranslate (kcpu k) s va"
  by (simp_all add: set_phys_def)

lemma heap_set_phys [simp]:
  "heap_ok cp (set_phys A b k) = heap_ok cp k" "heap_range cp (set_phys A b k) = heap_range cp k"
  "heap_pa cp (set_phys A b k) = heap_pa cp k"
  by (simp_all add: heap_ok_def heap_range_def heap_pa_def heap_entry_def Let_def fun_eq_iff)

lemma vmemset_heap:
  assumes "heap_ok cp k" "{p..<p + n} \<subseteq> heap_range cp k"
  shows "vmemset p b n k = Inr (set_phys (heap_pa cp k ` {p..<p + n}) b k)"
proof -
  have "vmemset_loop (kvm k) p (p + n) b (kcpu k) =
      Inr ((kcpu k)\<lparr>phys := \<lambda>x. if x \<in> heap_pa cp k ` {p..<p + n} then b else phys (kcpu k) x\<rparr>)"
    using assms(2) by (intro vmemset_loop_eq heap_translate [OF assms(1)]) blast
  then show ?thesis by (simp add: vmemset_def set_phys_def)
qed

lemma set_phys_read:
  assumes "heap_ok cp k" "A \<subseteq> heap_range cp k" "va \<in> heap_range cp k"
  shows "vread8 (kcpu (set_phys (heap_pa cp k ` A) b k)) (kvm k) va =
     (if va \<in> A then Some b else vread8 (kcpu k) (kvm k) va)"
  using heap_translate [OF assms(1,3)] inj_onD [OF heap_pa_inj [OF assms(1)]] assms(2,3)
  by (auto simp: vread8_def)

section \<open>Growing the heap\<close>

definition sbrk_fits :: "nat \<Rightarrow> u32 \<Rightarrow> kernel \<Rightarrow> bool" where
  "sbrk_fits cp incr k \<longleftrightarrow>
     incr = 0 \<or> card (pages_to_map (heap_end (procs k cp)) incr) \<le> card (free_pages (kvm k))"

lemma sec_pred_le: "0 < a \<Longrightarrow> sec a \<le> sec (a - 1) + 1"
proof -
  assume "0 < a"
  then have "unat (a - 1) = unat a - 1" by (intro unat_minus_one) auto
  then show ?thesis by (simp add: unat_drop_bit)
qed

lemma grown_secs:
  assumes "0 < hs" "hs \<le> brk" "unat brk + unat incr < 4294967296"
  shows "{sec hs .. sec (brk + incr - 1)} = {sec hs .. sec (brk - 1)} \<union> pages_to_map brk incr"
proof -
  have b: "0 < brk" using assms by simp
  have u: "unat (brk + incr) = unat brk + unat incr" using assms(3) by (simp add: unat_word_ariths)
  have b': "0 < unat brk" using b by (simp add: word_less_nat_alt)
  then have "brk + incr \<noteq> 0" using u by (auto simp: word_unat_eq_iff)
  then have "brk - 1 \<le> brk + incr - 1"
    using b b' u by (simp add: word_le_nat_alt unat_minus_one)
  then have "sec (brk - 1) \<le> sec (brk + incr - 1)" by (rule sec_mono)
  moreover have "sec hs \<le> sec (brk - 1) + 1"
    using sec_mono [OF assms(2)] sec_pred_le [OF b] by linarith
  ultimately show ?thesis by (auto simp: pages_to_map_def)
qed

lemma heap_ok_grow:
  assumes ok: "heap_ok cp k" and f: "mapped_fresh (page_tab (procs k cp)) (pages_to_map (heap_end (procs k cp)) incr) f (kvm k) s"
    and sz: "unat (heap_end (procs k cp)) + unat incr < 4294967296"
    and k': "kvm k' = s" "kernel_proc k' \<noteq> None" "current_proc k' = Some cp" "ctrl (kcpu k') = ctrl (kcpu k)"
      "ttbr0 (kcpu k') = ttbr0 (kcpu k)" "procs k' cp = procs k cp\<lparr>heap_end := heap_end (procs k cp) + incr\<rparr>"
  shows "heap_ok cp k'"
proof -
  let ?p = "procs k cp" and ?p' = "procs k' cp"
  let ?V = "pages_to_map (heap_end ?p) incr" and ?b = "\<lambda>v. fld_base (heap_entry k ?p v)"
  let ?b' = "\<lambda>v. fld_base (heap_entry k' ?p' v)"
  have ok': "\<And>v. v \<in> heap_secs ?p \<Longrightarrow> ?b v < N_PHYS_PAGES \<and> asid_map (kvm k) ! ?b v \<noteq> 0 \<and>
      heap_entry k ?p v = section_fld False (push_bit 20 (of_nat (?b v)))"
    "inj_on ?b (heap_secs ?p)" "0 < heap_start ?p" "heap_start ?p \<le> heap_end ?p" "pt_asid (page_tab ?p) \<noteq> 0"
    using ok by (auto simp: heap_ok_def Let_def)
  have secs: "heap_secs ?p' = heap_secs ?p \<union> ?V"
    using grown_secs [OF ok'(3,4) sz] k' by (simp add: heap_secs_def)
  have fr: "f v < N_PHYS_PAGES" "asid_map (kvm k) ! f v = 0" if "v \<in> ?V" for v
    using f that by (auto simp: mapped_fresh_def free_pages_def)
  have new: "heap_entry k' ?p' v = section_fld False (push_bit 20 (of_nat (f v)))" "?b' v = f v" if "v \<in> ?V" for v
    using f that k' fr(1) [OF that] by (simp_all add: mapped_fresh_def heap_entry_def vm_simps)
  have old: "heap_entry k' ?p' v = heap_entry k ?p v" if "v \<notin> ?V" for v
    using f that k' by (simp add: mapped_fresh_def heap_entry_def)
  have am: "asid_map s ! i = (if i \<in> f ` ?V then pt_asid (page_tab ?p) else asid_map (kvm k) ! i)" if "i < N_PHYS_PAGES" for i
    using f that by (simp add: mapped_fresh_def)
  have "?b' v < N_PHYS_PAGES \<and> asid_map s ! ?b' v \<noteq> 0 \<and>
      heap_entry k' ?p' v = section_fld False (push_bit 20 (of_nat (?b' v)))" if "v \<in> heap_secs ?p'" for v
  proof (cases "v \<in> ?V")
    case True
    then show ?thesis using new [OF True] fr [OF True] am [of "f v"] ok'(5) by simp
  next
    case False
    then have "v \<in> heap_secs ?p" using that secs by simp
    then show ?thesis using ok'(1) [of v] ok'(5) old [OF False] am [of "?b v"] by (simp split: if_splits)
  qed
  moreover have "inj_on ?b' (heap_secs ?p')"
  proof (rule inj_onI)
    fix v w assume vw: "v \<in> heap_secs ?p'" "w \<in> heap_secs ?p'" "?b' v = ?b' w"
    have "?b x \<noteq> f y" if "x \<in> heap_secs ?p'" "x \<notin> ?V" "y \<in> ?V" for x y
      using ok'(1) [of x] that secs fr(2) [of y] by auto
    moreover have "inj_on f ?V" using f by (simp add: mapped_fresh_def)
    ultimately show "v = w"
      using vw secs old [of v] old [of w] new(2) [of v] new(2) [of w] ok'(2)
      by (cases "v \<in> ?V"; cases "w \<in> ?V") (auto dest: inj_onD)
  qed
  moreover have "vm_wf s" using f by (simp add: mapped_fresh_def)
  ultimately show ?thesis
    using ok k' ok'(3,4) sz by (auto simp: heap_ok_def Let_def word_le_nat_alt unat_word_ariths)
qed

lemma switch_to_simps [simp]:
  "kvm (switch_to pt k) = kvm k" "procs (switch_to pt k) = procs k"
  "kernel_proc (switch_to pt k) = kernel_proc k" "current_proc (switch_to pt k) = current_proc k"
  "ctrl (kcpu (switch_to pt k)) = ctrl (kcpu k)" "ttbr0 (kcpu (switch_to pt k)) = vaddr_map pt"
  "phys (kcpu (switch_to pt k)) = phys (kcpu k)"
  by (simp_all add: switch_to_def set_procid_ttbr0_def)

lemma vmemset_procs: "vmemset p b n (k\<lparr>procs := g\<rparr>) = rbind (vmemset p b n k) (\<lambda>k. Inr (k\<lparr>procs := g\<rparr>))"
  by (cases "vmemset_loop (kvm k) p (p + n) b (kcpu k)") (simp_all add: vmemset_def)

lemma vmemset_keeps_procs: "vmemset p b n k = Inr k' \<Longrightarrow> procs k' = procs k"
  by (auto simp: vmemset_def)

text \<open>The state after the mapping, the switches and the update of the break, before the zeroing.\<close>

definition sbrk_mapped :: "nat \<Rightarrow> nat \<Rightarrow> u32 \<Rightarrow> vm \<Rightarrow> kernel \<Rightarrow> kernel" where
  "sbrk_mapped kp cp incr s k =
     (let k = (if cp \<noteq> kp then switch_to (page_tab (procs k kp)) k else k)\<lparr>kvm := s\<rparr>;
          k = (if cp \<noteq> kp then switch_to (page_tab (procs k cp)) k else k)
      in k\<lparr>procs := (procs k)(cp := procs k cp\<lparr>heap_end := heap_end (procs k cp) + incr\<rparr>)\<rparr>)"

lemma kernel_sbrk_unfold:
  assumes "kernel_proc k = Some kp" "current_proc k = Some cp" "incr \<noteq> 0"
    "mmu_map_to_mem (page_tab (procs k cp)) (heap_end (procs k cp)) incr True (kvm k) = Inr s"
  shows "kernel_sbrk incr k =
     rbind (vmemset (heap_end (procs k cp)) 0 incr (sbrk_mapped kp cp incr s k))
       (\<lambda>k. Inr (heap_end (procs k cp), k))"
proof -
  let ?k = "(if cp \<noteq> kp then switch_to (page_tab (procs k kp)) k else k)\<lparr>kvm := s\<rparr>"
  let ?k' = "if cp \<noteq> kp then switch_to (page_tab (procs k cp)) ?k else ?k"
  have p: "procs ?k' = procs k" by simp
  have "rbind (vmemset q 0 incr ?k') (\<lambda>k. Inr (k\<lparr>procs := (procs k)(cp := procs k cp\<lparr>heap_end := e\<rparr>)\<rparr>))
      = vmemset q 0 incr (?k'\<lparr>procs := (procs k)(cp := procs k cp\<lparr>heap_end := e\<rparr>)\<rparr>)" for q e
    unfolding vmemset_procs using vmemset_keeps_procs [of q 0 incr ?k'] p
    by (cases "vmemset q 0 incr ?k'") simp_all
  then show ?thesis
    using assms by (cases "cp = kp") (simp_all add: kernel_sbrk_def sbrk_mapped_def Let_def)
qed

lemma kernel_sbrk_ok:
  assumes ok: "heap_ok cp k" and sz: "unat (heap_end (procs k cp)) + unat incr < 4294967296"
    and fits: "sbrk_fits cp incr k"
  obtains k1 where
    "kernel_sbrk incr k =
       Inr (heap_end (procs k cp) + incr,
            set_phys (heap_pa cp k1 ` {heap_end (procs k cp)..<heap_end (procs k cp) + incr}) 0 k1)"
    "heap_ok cp k1" "procs k1 = (procs k)(cp := procs k cp\<lparr>heap_end := heap_end (procs k cp) + incr\<rparr>)"
    "phys (kcpu k1) = phys (kcpu k)" "kernel_proc k1 = kernel_proc k" "ctrl (kcpu k1) = ctrl (kcpu k)"
    "incr = 0 \<Longrightarrow> k1 = k"
    "incr \<noteq> 0 \<Longrightarrow> \<exists>f. mapped_fresh (page_tab (procs k cp)) (pages_to_map (heap_end (procs k cp)) incr) f (kvm k) (kvm k1)"
proof (cases "incr = 0")
  case True
  obtain kp where "kernel_proc k = Some kp" "current_proc k = Some cp"
    using ok by (auto simp: heap_ok_def Let_def)
  then have "kernel_sbrk incr k = Inr (heap_end (procs k cp), k)" using True by (simp add: kernel_sbrk_def)
  moreover have "set_phys {} 0 k = k" by (simp add: set_phys_def)
  ultimately show ?thesis using that [of k] True ok by simp
next
  case False
  let ?p = "procs k cp"
  let ?brk = "heap_end ?p"
  obtain kp where kp: "kernel_proc k = Some kp" and cp: "current_proc k = Some cp"
    and wf: "vm_wf (kvm k)" and a: "pt_asid (page_tab ?p) \<noteq> 0"
    using ok by (auto simp: heap_ok_def Let_def)
  obtain s f where s: "mmu_map_to_mem (page_tab ?p) ?brk incr True (kvm k) = Inr s"
    and f: "mapped_fresh (page_tab ?p) (pages_to_map ?brk incr) f (kvm k) s"
    using mmu_map_to_mem_spec [OF wf a, of ?brk incr True] fits False by (auto simp: sbrk_fits_def)
  let ?k = "sbrk_mapped kp cp incr s k"
  have k: "kvm ?k = s" "procs ?k = (procs k)(cp := ?p\<lparr>heap_end := ?brk + incr\<rparr>)" "kernel_proc ?k = kernel_proc k"
    "current_proc ?k = current_proc k" "ctrl (kcpu ?k) = ctrl (kcpu k)" "ttbr0 (kcpu ?k) = ttbr0 (kcpu k)"
    "phys (kcpu ?k) = phys (kcpu k)"
    using ok by (simp_all add: sbrk_mapped_def Let_def heap_ok_def)
  have ok1: "heap_ok cp ?k"
    using heap_ok_grow [OF ok f sz] k kp cp by simp
  have "{?brk..<?brk + incr} \<subseteq> heap_range cp ?k"
    using ok by (auto simp: heap_range_def k heap_ok_def Let_def)
  from vmemset_heap [OF ok1 this] show ?thesis
    using that [OF _ ok1] False kernel_sbrk_unfold [OF kp cp False s] f k by auto
qed

lemma kernel_sbrk_oom:
  assumes "heap_ok cp k" "\<not> sbrk_fits cp incr k"
  shows "kernel_sbrk incr k = Inl PanicFault"
proof -
  obtain kp where "kernel_proc k = Some kp" "current_proc k = Some cp"
    "vm_wf (kvm k)" "pt_asid (page_tab (procs k cp)) \<noteq> 0"
    using assms(1) by (auto simp: heap_ok_def Let_def)
  then show ?thesis
    using assms(2) mmu_map_to_mem_spec [of "kvm k" "page_tab (procs k cp)" "heap_end (procs k cp)" incr True]
    by (auto simp: kernel_sbrk_def sbrk_fits_def Let_def)
qed

lemma heap_pa_grow:
  assumes ok: "heap_ok cp k" and va: "va \<in> heap_range cp k"
    and f: "mapped_fresh (page_tab (procs k cp)) (pages_to_map (heap_end (procs k cp)) incr) f (kvm k) (kvm k1)"
    and p: "page_tab (procs k1 cp) = page_tab (procs k cp)"
  shows "heap_pa cp k1 va = heap_pa cp k va"
proof -
  have "sec va \<notin> pages_to_map (heap_end (procs k cp)) incr"
    using heap_range_sec [OF va] by (auto simp: heap_secs_def pages_to_map_def)
  then have "tt (kvm k1) (vaddr_map (page_tab (procs k cp))) ! sec va
      = tt (kvm k) (vaddr_map (page_tab (procs k cp))) ! sec va"
    using f by (simp add: mapped_fresh_def)
  then show ?thesis using p by (simp add: heap_pa_def heap_entry_def)
qed

text \<open>What \<open>kernel_sbrk\<close> promises its caller, seen from the virtual addresses of the process.\<close>

lemma kernel_sbrk_view:
  assumes ok: "heap_ok cp k" and sz: "unat (heap_end (procs k cp)) + unat incr < 4294967296"
    and fits: "sbrk_fits cp incr k"
  shows "\<exists>k'. kernel_sbrk incr k = Inr (heap_end (procs k cp) + incr, k') \<and> heap_ok cp k'
    \<and> procs k' = (procs k)(cp := procs k cp\<lparr>heap_end := heap_end (procs k cp) + incr\<rparr>)
    \<and> (\<forall>va \<in> heap_range cp k. vread8 (kcpu k') (kvm k') va = vread8 (kcpu k) (kvm k) va)
    \<and> (\<forall>va \<in> {heap_end (procs k cp)..<heap_end (procs k cp) + incr}. vread8 (kcpu k') (kvm k') va = Some 0)
    \<and> (\<forall>a. a \<noteq> vaddr_map (page_tab (procs k cp)) \<longrightarrow> tt (kvm k') a = tt (kvm k) a)"
proof -
  let ?p = "procs k cp" let ?new = "{heap_end ?p..<heap_end ?p + incr}"
  obtain k1 where e: "kernel_sbrk incr k = Inr (heap_end ?p + incr, set_phys (heap_pa cp k1 ` ?new) 0 k1)"
    and ok1: "heap_ok cp k1" and p1: "procs k1 = (procs k)(cp := ?p\<lparr>heap_end := heap_end ?p + incr\<rparr>)"
    and ph: "phys (kcpu k1) = phys (kcpu k)" and z: "incr = 0 \<Longrightarrow> k1 = k"
    and f: "incr \<noteq> 0 \<Longrightarrow> \<exists>f. mapped_fresh (page_tab ?p) (pages_to_map (heap_end ?p) incr) f (kvm k) (kvm k1)"
    using kernel_sbrk_ok [OF ok sz fits] by metis
  have hs: "heap_start ?p \<le> heap_end ?p" using ok by (simp add: heap_ok_def Let_def)
  then have rng: "heap_range cp k1 = heap_range cp k \<union> ?new" "heap_range cp k \<inter> ?new = {}"
    using sz by (auto simp: heap_range_def p1 word_less_nat_alt word_le_nat_alt unat_word_ariths)
  have pa: "heap_pa cp k1 va = heap_pa cp k va" if "va \<in> heap_range cp k" for va
    using heap_pa_grow [OF ok that] f z p1 by (cases "incr = 0") auto
  have old: "vread8 (kcpu k1) (kvm k1) va = vread8 (kcpu k) (kvm k) va" if "va \<in> heap_range cp k" for va
    using heap_translate [OF ok that] heap_translate [OF ok1, of va] rng that pa ph by (simp add: vread8_def)
  have "tt (kvm k1) a = tt (kvm k) a" if "a \<noteq> vaddr_map (page_tab ?p)" for a
  proof (cases "incr = 0")
    case False
    then obtain f' where "mapped_fresh (page_tab ?p) (pages_to_map (heap_end ?p) incr) f' (kvm k) (kvm k1)"
      using f by blast
    moreover have "vm_wf (kvm k)" using ok by (simp add: heap_ok_def Let_def)
    ultimately show ?thesis
      using that by (intro nth_equalityI) (auto simp: mapped_fresh_def vm_wf_def)
  qed (simp add: z)
  moreover have "vread8 (kcpu (set_phys (heap_pa cp k1 ` ?new) 0 k1)) (kvm k1) va =
      (if va \<in> ?new then Some 0 else vread8 (kcpu k1) (kvm k1) va)" if "va \<in> heap_range cp k1" for va
    using set_phys_read [OF ok1 _ that, of ?new 0] rng by simp
  ultimately show ?thesis
    using e ok1 p1 rng old by (intro exI [of _ "set_phys (heap_pa cp k1 ` ?new) 0 k1"]) (auto simp: disjoint_iff)
qed

text \<open>
  The physical bytes a growth of the heap may touch: the sections that were free, and the bytes
  after the old break in the section that holds it.
\<close>

definition grow_footprint :: "nat \<Rightarrow> u32 \<Rightarrow> kernel \<Rightarrow> u32 set" where
  "grow_footprint cp incr k =
     {pa. sec pa \<in> free_pages (kvm k)} \<union>
     heap_pa cp k ` {va \<in> {heap_end (procs k cp)..<heap_end (procs k cp) + incr}. sec va \<in> heap_secs (procs k cp)}"

lemma grow_footprint_covers:
  assumes ok: "heap_ok cp k" and sz: "unat (heap_end (procs k cp)) + unat incr < 4294967296"
    and p1: "procs k1 = (procs k)(cp := procs k cp\<lparr>heap_end := heap_end (procs k cp) + incr\<rparr>)"
    and f: "mapped_fresh (page_tab (procs k cp)) (pages_to_map (heap_end (procs k cp)) incr) f (kvm k) (kvm k1)"
    and va: "va \<in> {heap_end (procs k cp)..<heap_end (procs k cp) + incr}"
  shows "heap_pa cp k1 va \<in> grow_footprint cp incr k"
proof (cases "sec va \<in> pages_to_map (heap_end (procs k cp)) incr")
  case True
  then have fr: "f (sec va) \<in> free_pages (kvm k)" and
    d: "tt (kvm k1) (vaddr_map (page_tab (procs k cp))) ! sec va = section_fld False (push_bit 20 (of_nat (f (sec va))))"
    using f by (auto simp: mapped_fresh_def)
  then have "f (sec va) < 4096" by (simp add: free_pages_def vm_simps)
  with d fr have "sec (heap_pa cp k1 va) \<in> free_pages (kvm k)"
    by (simp add: heap_pa_def heap_entry_def p1 drop_bit_paddr)
  then show ?thesis by (simp add: grow_footprint_def)
next
  case False
  have hs: "0 < heap_start (procs k cp)" "heap_start (procs k cp) \<le> heap_end (procs k cp)"
    using ok by (auto simp: heap_ok_def Let_def)
  then have "va \<in> heap_range cp k1" using va by (auto simp: heap_range_def p1)
  then have "sec va \<in> heap_secs (procs k1 cp)" by (rule heap_range_sec)
  then have old: "sec va \<in> heap_secs (procs k cp)"
    using False grown_secs [OF hs sz] by (auto simp: heap_secs_def p1)
  have "tt (kvm k1) (vaddr_map (page_tab (procs k cp))) ! sec va
      = tt (kvm k) (vaddr_map (page_tab (procs k cp))) ! sec va"
    using f False by (simp add: mapped_fresh_def)
  then have "heap_pa cp k1 va = heap_pa cp k va" by (simp add: heap_pa_def heap_entry_def p1)
  with va old show ?thesis by (simp add: grow_footprint_def)
qed

text \<open>The frame of \<open>kernel_sbrk\<close>: what it leaves alone.\<close>

lemma kernel_sbrk_frame:
  assumes ok: "heap_ok cp k" and sz: "unat (heap_end (procs k cp)) + unat incr < 4294967296"
    and fits: "sbrk_fits cp incr k" and e: "kernel_sbrk incr k = Inr (r, k')"
  shows "(\<forall>pa. pa \<notin> grow_footprint cp incr k \<longrightarrow> phys (kcpu k') pa = phys (kcpu k) pa)
    \<and> (\<forall>a v. a = vaddr_map (page_tab (procs k cp)) \<longrightarrow>
         v \<notin> range_sections (heap_end (procs k cp)) incr - head_section (heap_end (procs k cp)) \<longrightarrow>
         tt (kvm k') a ! v = tt (kvm k) a ! v)
    \<and> (\<forall>i < N_PHYS_PAGES. asid_map (kvm k) ! i \<noteq> 0 \<longrightarrow> asid_map (kvm k') ! i = asid_map (kvm k) ! i)"
proof -
  let ?p = "procs k cp" let ?new = "{heap_end ?p..<heap_end ?p + incr}"
  obtain k1 where e1: "kernel_sbrk incr k = Inr (heap_end ?p + incr, set_phys (heap_pa cp k1 ` ?new) 0 k1)"
    and p1: "procs k1 = (procs k)(cp := ?p\<lparr>heap_end := heap_end ?p + incr\<rparr>)"
    and ph: "phys (kcpu k1) = phys (kcpu k)" and z: "incr = 0 \<Longrightarrow> k1 = k"
    and f: "incr \<noteq> 0 \<Longrightarrow> \<exists>f. mapped_fresh (page_tab ?p) (pages_to_map (heap_end ?p) incr) f (kvm k) (kvm k1)"
    using kernel_sbrk_ok [OF ok sz fits] by metis
  have k': "k' = set_phys (heap_pa cp k1 ` ?new) 0 k1" using e unfolding e1 sum.inject prod.inject
    by (elim conjE) (rule sym)
  show ?thesis
  proof (cases "incr = 0")
    case True
    then show ?thesis by (simp add: k' z)
  next
    case False
    then obtain g where g: "mapped_fresh (page_tab ?p) (pages_to_map (heap_end ?p) incr) g (kvm k) (kvm k1)"
      using f by blast
    have "0 < heap_start ?p" "heap_start ?p \<le> heap_end ?p" using ok by (auto simp: heap_ok_def Let_def)
    then have "0 < heap_end ?p" by simp
    with sz have V: "pages_to_map (heap_end ?p) incr = range_sections (heap_end ?p) incr - head_section (heap_end ?p)"
      by (intro pages_to_map_eq) simp_all
    have "heap_pa cp k1 ` ?new \<subseteq> grow_footprint cp incr k"
      using grow_footprint_covers [OF ok sz p1 g] by blast
    then have "phys (kcpu k') pa = phys (kcpu k) pa" if "pa \<notin> grow_footprint cp incr k" for pa
      using that by (auto simp: k' ph)
    moreover have "asid_map (kvm k') ! i = asid_map (kvm k) ! i" if "i < N_PHYS_PAGES" "asid_map (kvm k) ! i \<noteq> 0" for i
      using g that by (auto simp: k' mapped_fresh_def free_pages_def)
    moreover have "tt (kvm k') a ! v = tt (kvm k) a ! v"
      if "v \<notin> range_sections (heap_end ?p) incr - head_section (heap_end ?p)" for a v
      using g that unfolding V by (simp add: k' mapped_fresh_def)
    ultimately show ?thesis by blast
  qed
qed

text \<open>
  C5: system call 1, entered in supervisor mode on the handler's stack, from a process whose heap
  is well formed. If enough physical sections are free it returns the new break in \<open>r0\<close>; the
  bytes between the old and the new break are mapped and read as zero, every byte of the old
  heap reads as before, and the heap is well formed again. Nothing else changes: physical memory
  only in sections that were free and between the breaks in the last section of the old heap, so
  the text, data and stack of the process and all memory of every other process are kept; of
  the page tables only the descriptors of the new sections in the process's own table; and no
  section that had an owner changes hands. If not enough are free, the kernel panics (out of memory).
\<close>

theorem swi_sbrk_grows_zeroed:
  assumes "cpsr AND 0x1F = SUPER_MODE" "addr_i < SWI_STACK_ADDR" "heap_ok cp k"
    and "unat (heap_end (procs k cp)) + unat incr < 4294967296"
  shows "if sbrk_fits cp incr k
    then \<exists>k'. handle_swi cpsr addr_i 1 pc (incr # regs) k = Inr ((heap_end (procs k cp) + incr) # regs, k')
      \<and> heap_ok cp k'
      \<and> procs k' = (procs k)(cp := procs k cp\<lparr>heap_end := heap_end (procs k cp) + incr\<rparr>)
      \<and> (\<forall>va \<in> heap_range cp k. vread8 (kcpu k') (kvm k') va = vread8 (kcpu k) (kvm k) va)
      \<and> (\<forall>va \<in> {heap_end (procs k cp)..<heap_end (procs k cp) + incr}. vread8 (kcpu k') (kvm k') va = Some 0)
      \<and> (\<forall>a. a \<noteq> vaddr_map (page_tab (procs k cp)) \<longrightarrow> tt (kvm k') a = tt (kvm k) a)
      \<and> (\<forall>pa. pa \<notin> grow_footprint cp incr k \<longrightarrow> phys (kcpu k') pa = phys (kcpu k) pa)
      \<and> (\<forall>a v. a = vaddr_map (page_tab (procs k cp)) \<longrightarrow>
           v \<notin> range_sections (heap_end (procs k cp)) incr - head_section (heap_end (procs k cp)) \<longrightarrow>
           tt (kvm k') a ! v = tt (kvm k) a ! v)
      \<and> (\<forall>i < N_PHYS_PAGES. asid_map (kvm k) ! i \<noteq> 0 \<longrightarrow> asid_map (kvm k') ! i = asid_map (kvm k) ! i)
    else handle_swi cpsr addr_i 1 pc (incr # regs) k = Inl PanicFault"
proof (cases "sbrk_fits cp incr k")
  case True
  from kernel_sbrk_view [OF assms(3,4) this] obtain k' where
    e: "kernel_sbrk incr k = Inr (heap_end (procs k cp) + incr, k')" by blast
  then have "handle_swi cpsr addr_i 1 pc (incr # regs) k = Inr ((heap_end (procs k cp) + incr) # regs, k')"
    using assms(1,2) by (simp add: handle_swi_def)
  then show ?thesis
    using True kernel_sbrk_view [OF assms(3,4) True] e kernel_sbrk_frame [OF assms(3,4) True e] by simp
next
  case False
  then show ?thesis using assms(1,2) kernel_sbrk_oom [OF assms(3)] by (simp add: handle_swi_def)
qed

definition demo_kernel :: kernel where
  "demo_kernel = \<lparr>kcpu = \<lparr>ctrl = 1, dacr = 0, procid = 1, ttbr0 = 1, phys = (\<lambda>_. 7)\<rparr>, kvm = blank_vm,
     procs = (\<lambda>_. \<lparr>heap_start = 0x500000, heap_end = 0x500000, page_tab = pt_of 1\<rparr>),
     kernel_proc = Some 0, current_proc = Some 0\<rparr>"

lemma heap_ok_demo: "heap_ok 0 demo_kernel"
  by (simp add: heap_ok_def demo_kernel_def heap_secs_def pt_of_def)

lemma sbrk_fits_demo: "sbrk_fits 0 0x300000 demo_kernel"
  by (simp add: sbrk_fits_def demo_kernel_def pages_to_map_def free_pages_blank vm_simps)

theorem swi_sbrk_grows_zeroed_witness:
  "\<exists>k'. handle_swi 0x13 0xEFFF0 1 0x80000010 [0x300000, 0, 0, 0] demo_kernel = Inr ([0x800000, 0, 0, 0], k')
     \<and> vread8 (kcpu k') (kvm k') 0x6ABCDE = Some 0"
proof -
  have "0x13 AND 0x1F = SUPER_MODE" "0xEFFF0 < SWI_STACK_ADDR"
    "unat (heap_end (procs demo_kernel 0)) + unat (0x300000 :: u32) < 4294967296"
    by (simp_all add: SUPER_MODE_def SWI_STACK_ADDR_def demo_kernel_def)
  from swi_sbrk_grows_zeroed [OF this(1,2) heap_ok_demo this(3), of "0x80000010" "[0, 0, 0]"]
  have "\<exists>k'. handle_swi 0x13 0xEFFF0 1 0x80000010 [0x300000, 0, 0, 0] demo_kernel
       = Inr ((heap_end (procs demo_kernel 0) + 0x300000) # [0, 0, 0], k')
     \<and> (\<forall>va \<in> {heap_end (procs demo_kernel 0)..<heap_end (procs demo_kernel 0) + 0x300000}.
          vread8 (kcpu k') (kvm k') va = Some 0)"
    unfolding if_P [OF sbrk_fits_demo] by (elim exE conjE, intro exI conjI) assumption+
  then show ?thesis by (auto simp: demo_kernel_def)
qed

section \<open>Vectors: installed handlers\<close>

lemma GET32_install_outside:
  "k < i \<Longrightarrow> i + length ws < 1000 \<Longrightarrow>
   GET32 (install_loop i ws m) (4 * of_nat k) = GET32 m (4 * of_nat k)"
proof (induction i ws m rule: install_loop.induct)
  case (2 i w ws m)
  have d: "4 * of_nat i - 4 * of_nat k = (of_nat (4 * (i - k)) :: u32)"
    using 2(2) by (simp add: of_nat_diff algebra_simps)
  have u: "unat (4 * of_nat i - 4 * of_nat k :: u32) = 4 * (i - k)"
    unfolding d using 2(3) by (intro unat_of_nat_u32) simp
  then have "4 \<le> unat (4 * of_nat i - 4 * of_nat k :: u32)" using 2(2) by simp
  moreover have "4 \<le> unat (4 * of_nat k - 4 * of_nat i :: u32)"
    using unat_neg_u32 [of "4 * of_nat i - 4 * of_nat k"] u 2(2,3) by simp
  ultimately show ?case
    using 2 GET32_PUT32_disjoint [of "4 * of_nat k" "4 * of_nat i" m w] by simp
qed simp

lemma GET32_install:
  "j < length ws \<Longrightarrow> i + length ws < 1000 \<Longrightarrow> GET32 (install_loop i ws m) (4 * of_nat (i + j)) = ws ! j"
proof (induction i ws m arbitrary: j rule: install_loop.induct)
  case (2 i w ws m)
  show ?case
  proof (cases j)
    case 0
    then show ?thesis using 2 GET32_install_outside [of i "Suc i" ws "PUT32 m (4 * of_nat i) w"] by simp
  next
    case (Suc j')
    then show ?thesis using 2(1) [of j'] 2(2,3) by (simp add: algebra_simps)
  qed
qed simp

text \<open>
  A handler set for a legal exception before \<open>int_init\<close> is the word the processor finds in the
  corresponding slot of the vector table at address 0 afterwards, every other slot holds the entry of
  the assembly table, interrupts are off, and from then on \<open>int_set_handler\<close> is refused.
\<close>

theorem int_init_installs:
  assumes "0 \<le> t" "t < 7" "t \<noteq> 5" "\<not> int_intialized_p v" "length (int_table v) = 20"
    and "cpsr_print_mode (cpsr AND 0x1F) \<noteq> Inl PanicFault"
  shows "\<exists>v1 v2. int_set_handler t h v = Inr v1 \<and> int_init cpsr v1 = Inr v2 \<and> irq_off v2
    \<and> (\<forall>j < 20. GET32 (vmem v2) (4 * of_nat j) = (if j = nat t then h else int_table v ! j))
    \<and> (\<forall>t' h'. int_set_handler t' h' v2 = Inl DemandFault)"
proof -
  let ?v1 = "v\<lparr>int_table := (int_table v)[nat t := h]\<rparr>"
  have v1: "int_set_handler t h v = Inr ?v1" using assms(1-4) by (simp add: int_set_handler_def)
  obtain mode where m: "cpsr_print_mode (cpsr AND 0x1F) = Inr mode"
    using assms(6) by (auto simp: cpsr_print_mode_def Let_def split: if_splits)
  then obtain v2 where v2: "int_init cpsr ?v1 = Inr v2" "irq_off v2" "int_intialized_p v2"
    "vmem v2 = install_loop 0 (int_table ?v1)
       (PUT32 (PUT32 (vmem v) 0x2000b21c 0xffffffff) 0x2000b220 0xffffffff)"
    by (simp add: int_init_def install_handlers_def Let_def)
  have "GET32 (vmem v2) (4 * of_nat j) = (if j = nat t then h else int_table v ! j)" if "j < 20" for j
    using GET32_install [of j "int_table ?v1" 0] that assms(1,2,5) unfolding v2(4)
    by (simp add: nth_list_update)
  moreover have "int_set_handler t' h' v2 = Inl DemandFault" for t' h'
    using v2(3) by (auto simp: int_set_handler_def Let_def demand_that_def)
  ultimately show ?thesis using v1 v2 by blast
qed

theorem int_init_installs_witness:
  "\<exists>v1 v2. int_set_handler 2 0xCAFE \<lparr>int_table = replicate 20 0xE59FF018, int_intialized_p = False,
        irq_off = False, vmem = (\<lambda>_. 0)\<rparr> = Inr v1
     \<and> int_init 0x1F v1 = Inr v2 \<and> GET32 (vmem v2) 8 = 0xCAFE \<and> GET32 (vmem v2) 0x10 = 0xE59FF018"
proof -
  let ?v = "\<lparr>int_table = replicate 20 0xE59FF018, int_intialized_p = False, irq_off = False, vmem = (\<lambda>_. 0)\<rparr>"
  have "cpsr_print_mode (0x1F AND 0x1F) \<noteq> Inl PanicFault" by (simp add: cpsr_print_mode_def)
  then obtain v1 v2 where v: "int_set_handler 2 0xCAFE ?v = Inr v1" "int_init 0x1F v1 = Inr v2"
    "\<forall>j < 20. GET32 (vmem v2) (4 * of_nat j) = (if j = nat 2 then 0xCAFE else int_table ?v ! j)"
    using int_init_installs [of 2 ?v "0x1F" "0xCAFE"] by auto
  from v(3) [rule_format, of 2] v(3) [rule_format, of 4] v(1,2) show ?thesis by simp
qed

end
