(* ===== verification/Pi_Kmalloc.thy ===== *)
theory Pi_Kmalloc
  imports Pi_Syscall
begin

text \<open>
  The bump allocator pi-side/libpi/kmalloc.c. It calls \<open>rpi_sbrk\<close> and \<open>memset\<close>: the operations
  are arguments of the definitions, the locale \<open>heap_provider\<close> states what the allocator relies
  on, and the interpretation at the end discharges it for the kernel's own system call.
\<close>

section \<open>Model\<close>

definition roundup :: "u32 \<Rightarrow> u32 \<Rightarrow> u32" where
  "roundup x n = (x + (n - 1)) AND NOT (n - 1)"

record heap_ptrs =
  hp_start :: u32
  hp_end :: u32
  hp :: u32

partial_function (option) kmalloc_grow ::
  "(u32 \<Rightarrow> 's \<Rightarrow> (u32 \<times> 's) res) \<Rightarrow> u32 \<Rightarrow> heap_ptrs \<Rightarrow> 's \<Rightarrow> (heap_ptrs \<times> 's) res option" where
  "kmalloc_grow sbrk sz h s =
     (if hp h + sz > hp_end h then
        let incr = roundup (hp h + sz - hp_end h) (push_bit 20 1) in
        case sbrk incr s of
          Inl e \<Rightarrow> Some (Inl e)
        | Inr (r, s) \<Rightarrow>
            if r = hp_end h + incr then kmalloc_grow sbrk sz (h\<lparr>hp_end := hp_end h + incr\<rparr>) s
            else Some (Inl AssertFault)
      else Some (Inr (h, s)))"

definition kmalloc ::
  "(u32 \<Rightarrow> 's \<Rightarrow> (u32 \<times> 's) res) \<Rightarrow> (u32 \<Rightarrow> u8 \<Rightarrow> u32 \<Rightarrow> 's \<Rightarrow> 's res) \<Rightarrow> u32 \<Rightarrow> heap_ptrs \<Rightarrow> 's \<Rightarrow>
   (u32 \<times> heap_ptrs \<times> 's) res option" where
  "kmalloc sbrk mset sz h s =
     (let sz = roundup sz 8 in
      case (if hp_start h = 0
            then rbind (sbrk 0 s) (\<lambda>(r, s). Inr (h\<lparr>hp := r, hp_start := r, hp_end := r\<rparr>, s))
            else Inr (h, s)) of
        Inl e \<Rightarrow> Some (Inl e)
      | Inr (h, s) \<Rightarrow>
          map_option (\<lambda>r. rbind r (\<lambda>(h, s).
            let addr = hp h; h = h\<lparr>hp := hp h + sz\<rparr> in
            rbind (mset addr 0 sz s) (\<lambda>s. Inr (addr, h, s)))) (kmalloc_grow sbrk sz h s))"

definition is_pow2 :: "u32 \<Rightarrow> bool" where
  "is_pow2 x \<longleftrightarrow> x AND - x = x"

definition kmalloc_aligned ::
  "(u32 \<Rightarrow> 's \<Rightarrow> (u32 \<times> 's) res) \<Rightarrow> (u32 \<Rightarrow> u8 \<Rightarrow> u32 \<Rightarrow> 's \<Rightarrow> 's res) \<Rightarrow> u32 \<Rightarrow> u32 \<Rightarrow> heap_ptrs \<Rightarrow> 's \<Rightarrow>
   (u32 \<times> heap_ptrs \<times> 's) res option" where
  "kmalloc_aligned sbrk mset nbytes alignment h s =
     (case demand_that (is_pow2 alignment) of
        Inl e \<Rightarrow> Some (Inl e)
      | Inr _ \<Rightarrow>
          let a = roundup (hp h) alignment in
          case demand_that (is_aligned a alignment) of
            Inl e \<Rightarrow> Some (Inl e)
          | Inr _ \<Rightarrow> kmalloc sbrk mset nbytes (h\<lparr>hp := a\<rparr>) s)"

definition kfree :: "u32 \<Rightarrow> heap_ptrs \<Rightarrow> heap_ptrs" where
  "kfree p h = h"

definition kfree_all :: "heap_ptrs \<Rightarrow> heap_ptrs" where
  "kfree_all h = h\<lparr>hp := hp_start h\<rparr>"

definition kfree_after :: "u32 \<Rightarrow> heap_ptrs \<Rightarrow> heap_ptrs" where
  "kfree_after p h = h\<lparr>hp := p\<rparr>"

section \<open>Rounding up\<close>

lemma and_not_mask: "y AND NOT (mask k) = push_bit k (drop_bit k (y :: u32))"
  by (rule bit_word_eqI) (auto simp: bit_simps)

lemma unat_roundup:
  assumes "n - 1 = mask k" "k < 32" "unat x + (2 ^ k - 1) < 4294967296"
  shows "unat (roundup x n) = (unat x + (2 ^ k - 1)) div 2 ^ k * 2 ^ k"
proof -
  have m: "unat (mask k :: u32) = 2 ^ k - 1"
  proof -
    have "(2 :: nat) ^ k < 2 ^ 32" using assms(2) by (intro power_strict_increasing) simp_all
    then have "mask k < (4294967296 :: nat)" by (simp add: mask_eq_exp_minus_1)
    then have "unat (of_nat (mask k) :: u32) = mask k" by (rule unat_of_nat_u32)
    then show ?thesis by (simp add: of_nat_mask_eq mask_eq_exp_minus_1)
  qed
  have u: "unat (x + mask k) = unat x + (2 ^ k - 1)"
    using assms(3) m by (simp add: unat_word_ariths)
  have "drop_bit k (x + mask k) = of_nat (unat (drop_bit k (x + mask k)))" by simp
  then have "roundup x n = of_nat ((unat x + (2 ^ k - 1)) div 2 ^ k) * 2 ^ k"
    unfolding roundup_def assms(1) and_not_mask push_bit_eq_mult unat_drop_bit u by simp
  moreover have "(unat x + (2 ^ k - 1)) div 2 ^ k * 2 ^ k < 4294967296"
    using assms(3) by (meson div_times_less_eq_dividend le_less_trans)
  ultimately have "roundup x n = of_nat ((unat x + (2 ^ k - 1)) div 2 ^ k * 2 ^ k)"
    "(unat x + (2 ^ k - 1)) div 2 ^ k * 2 ^ k < 4294967296"
    by (simp_all only: of_nat_mult of_nat_power of_nat_numeral)
  then show ?thesis by (simp only: unat_of_nat_u32)
qed

lemma mask_3: "(8 :: u32) - 1 = mask 3"
  by (simp add: mask_eq_exp_minus_1)

lemma mask_20: "(push_bit 20 1 :: u32) - 1 = mask 20"
  by (simp add: mask_eq_exp_minus_1 push_bit_eq_mult)

lemma roundup_8:
  assumes "unat x + 7 < 4294967296"
  shows "unat x \<le> unat (roundup x 8)" "unat (roundup x 8) < unat x + 8" "8 dvd unat (roundup x 8)"
proof -
  have "unat (roundup x 8) = (unat x + 7) div 8 * 8"
    using unat_roundup [OF mask_3, of x] assms by simp
  then show "unat x \<le> unat (roundup x 8)" "unat (roundup x 8) < unat x + 8" "8 dvd unat (roundup x 8)"
    by simp_all
qed

lemma roundup_section:
  assumes "unat x + 1048575 < 4294967296"
  shows "unat x \<le> unat (roundup x (push_bit 20 1))" "unat (roundup x (push_bit 20 1)) < unat x + 1048576"
proof -
  have "unat (roundup x (push_bit 20 1)) = (unat x + 1048575) div 1048576 * 1048576"
    using unat_roundup [OF mask_20, of x] assms by simp
  then show "unat x \<le> unat (roundup x (push_bit 20 1))" "unat (roundup x (push_bit 20 1)) < unat x + 1048576"
    by simp_all
qed

section \<open>What the allocator relies on\<close>

text \<open>
  The provider keeps a readable range from \<open>lo\<close> to the break; \<open>sbrk n\<close> moves the break up by
  \<open>n\<close>, returns it, and the new bytes read as zero. \<open>fits\<close> says that memory for the step is left.
\<close>

locale heap_provider =
  fixes sbrk :: "u32 \<Rightarrow> 's \<Rightarrow> (u32 \<times> 's) res"
    and mset :: "u32 \<Rightarrow> u8 \<Rightarrow> u32 \<Rightarrow> 's \<Rightarrow> 's res"
    and ok :: "'s \<Rightarrow> bool"
    and lo :: "'s \<Rightarrow> u32"
    and brk :: "'s \<Rightarrow> u32"
    and rd :: "'s \<Rightarrow> u32 \<Rightarrow> u8 option"
    and fits :: "u32 \<Rightarrow> 's \<Rightarrow> bool"
  assumes bounds: "ok s \<Longrightarrow> 0 < lo s \<and> lo s \<le> brk s"
    and fits_0: "ok s \<Longrightarrow> fits 0 s"
    and sbrk_ok: "ok s \<Longrightarrow> unat (brk s) + unat n < 4294967296 \<Longrightarrow> fits n s \<Longrightarrow>
      \<exists>s'. sbrk n s = Inr (brk s + n, s') \<and> ok s' \<and> lo s' = lo s \<and> brk s' = brk s + n \<and>
        (\<forall>a \<in> {lo s..<brk s}. rd s' a = rd s a) \<and> (\<forall>a \<in> {brk s..<brk s + n}. rd s' a = Some 0)"
    and sbrk_oom: "ok s \<Longrightarrow> \<not> fits n s \<Longrightarrow> sbrk n s = Inl PanicFault"
    and sbrk_0: "ok s \<Longrightarrow> sbrk 0 s = Inr (brk s, s)"
    and mset_ok: "ok s \<Longrightarrow> {p..<p + n} \<subseteq> {lo s..<brk s} \<Longrightarrow>
      \<exists>s'. mset p b n s = Inr s' \<and> ok s' \<and> lo s' = lo s \<and> brk s' = brk s \<and>
        (\<forall>a \<in> {lo s..<brk s}. rd s' a = (if a \<in> {p..<p + n} then Some b else rd s a))"
begin

definition heap_inv :: "heap_ptrs \<Rightarrow> 's \<Rightarrow> bool" where
  "heap_inv h s \<longleftrightarrow> ok s \<and> (hp_start h \<noteq> 0 \<longrightarrow>
     lo s \<le> hp_start h \<and> hp_start h \<le> hp h \<and> hp h \<le> hp_end h \<and> hp_end h = brk s)"

definition next_block :: "heap_ptrs \<Rightarrow> 's \<Rightarrow> u32" where
  "next_block h s = (if hp_start h = 0 then brk s else hp h)"

definition needed :: "u32 \<Rightarrow> heap_ptrs \<Rightarrow> 's \<Rightarrow> u32" where
  "needed sz h s = (if next_block h s + roundup sz 8 > brk s
     then roundup (next_block h s + roundup sz 8 - brk s) (push_bit 20 1) else 0)"

lemma grow_enough:
  "hp h + sz \<le> hp_end h \<Longrightarrow> kmalloc_grow sbrk sz h s = Some (Inr (h, s))"
  by (subst kmalloc_grow.simps) (simp add: leD)

lemma grow_once:
  assumes "ok s" "hp_end h = brk s" "lo s \<le> hp h" "hp h \<le> brk s"
    and sz: "unat (hp h) + unat sz + 1048576 < 4294967296" and more: "hp h + sz > brk s"
  defines "incr \<equiv> roundup (hp h + sz - brk s) (push_bit 20 1)"
  shows "if fits incr s
    then \<exists>s'. kmalloc_grow sbrk sz h s = Some (Inr (h\<lparr>hp_end := brk s + incr\<rparr>, s'))
      \<and> ok s' \<and> lo s' = lo s \<and> brk s' = brk s + incr \<and> hp h + sz \<le> brk s + incr
      \<and> (\<forall>a \<in> {lo s..<brk s}. rd s' a = rd s a)
    else kmalloc_grow sbrk sz h s = Some (Inl PanicFault)"
proof (cases "fits incr s")
  case True
  have u: "unat (hp h + sz) = unat (hp h) + unat sz" using sz by (simp add: unat_word_ariths)
  have d: "unat (hp h + sz - brk s) = unat (hp h) + unat sz - unat (brk s)"
    using more u by (simp add: unat_sub word_le_nat_alt word_less_nat_alt)
  have r: "unat (hp h) + unat sz - unat (brk s) \<le> unat incr"
    "unat incr < unat (hp h) + unat sz - unat (brk s) + 1048576"
    using roundup_section [of "hp h + sz - brk s"] d sz unfolding incr_def by simp_all
  then have "unat (brk s) + unat incr < 4294967296"
    using more u sz by (simp add: word_less_nat_alt)
  moreover from this have "hp h + sz \<le> brk s + incr"
    using r u by (simp add: word_le_nat_alt unat_word_ariths)
  ultimately show ?thesis
    using sbrk_ok [OF assms(1) _ True] True more assms(2) grow_enough [of "h\<lparr>hp_end := brk s + incr\<rparr>" sz]
    by (subst kmalloc_grow.simps) (auto simp: Let_def incr_def)
next
  case False
  then show ?thesis
    using sbrk_oom [OF assms(1) False] more assms(2) by (subst kmalloc_grow.simps) (simp add: Let_def incr_def)
qed

lemma grow_cases:
  assumes "ok s" "hp_end h = brk s" "lo s \<le> hp h" "hp h \<le> brk s"
    and sz: "unat (hp h) + unat sz + 1048576 < 4294967296"
  defines "incr \<equiv> if hp h + sz > brk s then roundup (hp h + sz - brk s) (push_bit 20 1) else 0"
  shows "if fits incr s
    then \<exists>s'. kmalloc_grow sbrk sz h s = Some (Inr (h\<lparr>hp_end := brk s'\<rparr>, s'))
      \<and> ok s' \<and> lo s' = lo s \<and> brk s \<le> brk s' \<and> hp h + sz \<le> brk s'
      \<and> (\<forall>a \<in> {lo s..<brk s}. rd s' a = rd s a)
    else kmalloc_grow sbrk sz h s = Some (Inl PanicFault)"
proof (cases "hp h + sz > brk s")
  case True
  have "brk s \<le> hp h + sz" using True by simp
  then show ?thesis
    using grow_once [OF assms(1-4) sz True] True unfolding incr_def
    by (fastforce split: if_splits)
next
  case False
  then show ?thesis
    using fits_0 [OF assms(1)] assms(1,2) grow_enough [of h sz s] by (auto simp: incr_def not_less)
qed

lemma kmalloc_spec:
  assumes inv: "heap_inv h s" and sz: "unat (next_block h s) + unat sz + 1048584 < 4294967296"
  defines "b \<equiv> next_block h s" and "sz8 \<equiv> roundup sz 8"
  shows "if fits (needed sz h s) s
    then \<exists>h' s'. kmalloc sbrk mset sz h s = Some (Inr (b, h', s')) \<and> heap_inv h' s'
      \<and> hp h' = b + sz8 \<and> hp_start h' = (if hp_start h = 0 then brk s else hp_start h)
      \<and> (\<forall>a \<in> {b..<b + sz8}. rd s' a = Some 0) \<and> (\<forall>a \<in> {lo s..<b}. rd s' a = rd s a)
    else kmalloc sbrk mset sz h s = Some (Inl PanicFault)"
proof -
  have ok: "ok s" using inv by (simp add: heap_inv_def)
  define h0 where "h0 = (if hp_start h = 0 then h\<lparr>hp := brk s, hp_start := brk s, hp_end := brk s\<rparr> else h)"
  have h0: "hp h0 = b" "hp_end h0 = brk s" "lo s \<le> hp h0" "hp h0 \<le> brk s" "lo s \<le> hp_start h0" "hp_start h0 \<le> hp h0"
    "hp_start h0 = (if hp_start h = 0 then brk s else hp_start h)"
    using inv bounds [OF ok] by (auto simp: h0_def b_def next_block_def heap_inv_def)
  have init: "(if hp_start h = 0 then rbind (sbrk 0 s) (\<lambda>(r, s). Inr (h\<lparr>hp := r, hp_start := r, hp_end := r\<rparr>, s))
      else Inr (h, s)) = Inr (h0, s)"
    using sbrk_0 [OF ok] by (simp add: h0_def)
  have r8: "unat sz8 < unat sz + 8" using roundup_8 [of sz] sz by (simp add: sz8_def)
  then have sz': "unat (hp h0) + unat sz8 + 1048576 < 4294967296" using sz h0(1) by (simp add: b_def)
  have ub: "unat (b + sz8) = unat b + unat sz8" using sz' h0(1) by (simp add: unat_word_ariths)
  have need: "needed sz h s = (if hp h0 + sz8 > brk s then roundup (hp h0 + sz8 - brk s) (push_bit 20 1) else 0)"
    by (simp add: needed_def h0(1) b_def sz8_def)
  show ?thesis
  proof (cases "fits (needed sz h s) s")
    case True
    have fi: "fits (if b + sz8 > brk s then roundup (b + sz8 - brk s) (push_bit 20 1) else 0) s"
      using True unfolding need h0(1) .
    from grow_cases [OF ok h0(2-4) sz'] obtain s1 where
      s1: "kmalloc_grow sbrk sz8 h0 s = Some (Inr (h0\<lparr>hp_end := brk s1\<rparr>, s1))" "ok s1" "lo s1 = lo s"
      "brk s \<le> brk s1" "b + sz8 \<le> brk s1" "\<forall>a \<in> {lo s..<brk s}. rd s1 a = rd s a"
      unfolding h0(1) if_P [OF fi] by blast
    have "{b..<b + sz8} \<subseteq> {lo s1..<brk s1}" using s1(3,5) h0(1,3) by (auto intro: order_trans)
    from mset_ok [OF s1(2) this, of 0] obtain s2 where
      s2: "mset b 0 sz8 s1 = Inr s2" "ok s2" "lo s2 = lo s" "brk s2 = brk s1"
      "\<forall>a \<in> {lo s1..<brk s1}. rd s2 a = (if a \<in> {b..<b + sz8} then Some 0 else rd s1 a)" using s1(3) by auto
    let ?h = "h0\<lparr>hp_end := brk s1, hp := b + sz8\<rparr>"
    have e: "kmalloc sbrk mset sz h s = Some (Inr (b, ?h, s2))"
      using init s1(1) s2(1) h0(1) unfolding sz8_def kmalloc_def by (simp add: Let_def)
    have "b \<le> b + sz8" using ub by (simp add: word_le_nat_alt)
    then have "heap_inv ?h s2"
      using s1(5) s2(2-4) h0 by (auto simp: heap_inv_def intro: order_trans)
    moreover have "rd s2 a = Some 0" if "a \<in> {b..<b + sz8}" for a
    proof -
      have "a \<in> {lo s1..<brk s1}" using that \<open>{b..<b + sz8} \<subseteq> {lo s1..<brk s1}\<close> by blast
      then show ?thesis using s2(5) that by simp
    qed
    moreover have "rd s2 a = rd s a" if "a \<in> {lo s..<b}" for a
    proof -
      have "a < brk s" using that h0(1,4) by auto
      then show ?thesis using that s1(3,4,6) s2(5) by (auto dest: order_less_le_trans)
    qed
    ultimately show ?thesis using True e h0(7) by auto
  next
    case False
    then have "kmalloc_grow sbrk sz8 h0 s = Some (Inl PanicFault)"
      using grow_cases [OF ok h0(2-4) sz'] unfolding need by simp
    then show ?thesis using False init unfolding sz8_def kmalloc_def by (simp add: Let_def)
  qed
qed

end

section \<open>The kernel provides it\<close>

lemma vmemset_view:
  assumes "heap_ok cp k" "{p..<p + n} \<subseteq> {heap_start (procs k cp)..<heap_end (procs k cp)}"
  shows "\<exists>k'. vmemset p b n k = Inr k' \<and> heap_ok cp k' \<and> procs k' = procs k \<and>
    (\<forall>a \<in> {heap_start (procs k cp)..<heap_end (procs k cp)}. vread8 (kcpu k') (kvm k') a =
       (if a \<in> {p..<p + n} then Some b else vread8 (kcpu k) (kvm k) a))"
  using vmemset_heap [OF assms(1), of p n b] set_phys_read [OF assms(1), of "{p..<p + n}" _ b] assms
  unfolding heap_range_def [symmetric]
  by (intro exI [of _ "set_phys (heap_pa cp k ` {p..<p + n}) b k"]) simp

interpretation ks: heap_provider kernel_sbrk vmemset "heap_ok cp" "\<lambda>k. heap_start (procs k cp)"
  "\<lambda>k. heap_end (procs k cp)" "\<lambda>k. vread8 (kcpu k) (kvm k)" "sbrk_fits cp"
  for cp :: nat
proof unfold_locales
  fix k :: kernel and n :: u32
  assume ok: "heap_ok cp k"
  show "0 < heap_start (procs k cp) \<and> heap_start (procs k cp) \<le> heap_end (procs k cp)"
    using ok by (simp add: heap_ok_def Let_def)
  show "sbrk_fits cp 0 k" by (simp add: sbrk_fits_def)
  show "kernel_sbrk 0 k = Inr (heap_end (procs k cp), k)"
    using ok by (auto simp: heap_ok_def Let_def kernel_sbrk_def)
  show "\<not> sbrk_fits cp n k \<Longrightarrow> kernel_sbrk n k = Inl PanicFault"
    using ok by (rule kernel_sbrk_oom)
  assume "unat (heap_end (procs k cp)) + unat n < 4294967296" "sbrk_fits cp n k"
  from kernel_sbrk_view [OF ok this]
  show "\<exists>k'. kernel_sbrk n k = Inr (heap_end (procs k cp) + n, k') \<and> heap_ok cp k' \<and>
      heap_start (procs k' cp) = heap_start (procs k cp) \<and> heap_end (procs k' cp) = heap_end (procs k cp) + n \<and>
      (\<forall>a \<in> {heap_start (procs k cp)..<heap_end (procs k cp)}. vread8 (kcpu k') (kvm k') a = vread8 (kcpu k) (kvm k) a) \<and>
      (\<forall>a \<in> {heap_end (procs k cp)..<heap_end (procs k cp) + n}. vread8 (kcpu k') (kvm k') a = Some 0)"
    unfolding heap_range_def by (elim exE, rule_tac x = k' in exI) simp
next
  fix k :: kernel and p n :: u32 and b :: u8
  assume "heap_ok cp k" "{p..<p + n} \<subseteq> {heap_start (procs k cp)..<heap_end (procs k cp)}"
  from vmemset_view [OF this, of b]
  show "\<exists>k'. vmemset p b n k = Inr k' \<and> heap_ok cp k' \<and>
      heap_start (procs k' cp) = heap_start (procs k cp) \<and> heap_end (procs k' cp) = heap_end (procs k cp) \<and>
      (\<forall>a \<in> {heap_start (procs k cp)..<heap_end (procs k cp)}. vread8 (kcpu k') (kvm k') a =
         (if a \<in> {p..<p + n} then Some b else vread8 (kcpu k) (kvm k) a))"
    by auto
qed

lemma rpi_sbrk_eq:
  "cpsr AND 0x1F = SUPER_MODE \<Longrightarrow> addr_i < SWI_STACK_ADDR \<Longrightarrow> rpi_sbrk cpsr addr_i pc regs = kernel_sbrk"
proof (intro ext)
  fix incr k assume "cpsr AND 0x1F = SUPER_MODE" "addr_i < SWI_STACK_ADDR"
  then show "rpi_sbrk cpsr addr_i pc regs incr k = kernel_sbrk incr k"
    by (cases "kernel_sbrk incr k") (auto simp: rpi_sbrk_def handle_swi_def)
qed

section \<open>Correctness of allocation\<close>

text \<open>
  The allocator's pointers agree with the process's heap; \<open>malloc_base\<close> is where the next block
  starts and \<open>malloc_needed\<close> how far the break has to move for it.
\<close>

definition malloc_inv :: "nat \<Rightarrow> heap_ptrs \<Rightarrow> kernel \<Rightarrow> bool" where
  "malloc_inv cp h k \<longleftrightarrow> heap_ok cp k \<and> (hp_start h \<noteq> 0 \<longrightarrow>
     heap_start (procs k cp) \<le> hp_start h \<and> hp_start h \<le> hp h \<and> hp h \<le> hp_end h \<and>
     hp_end h = heap_end (procs k cp))"

definition malloc_base :: "nat \<Rightarrow> heap_ptrs \<Rightarrow> kernel \<Rightarrow> u32" where
  "malloc_base cp h k = (if hp_start h = 0 then heap_end (procs k cp) else hp h)"

definition malloc_needed :: "nat \<Rightarrow> u32 \<Rightarrow> heap_ptrs \<Rightarrow> kernel \<Rightarrow> u32" where
  "malloc_needed cp sz h k =
     (if malloc_base cp h k + roundup sz 8 > heap_end (procs k cp)
      then roundup (malloc_base cp h k + roundup sz 8 - heap_end (procs k cp)) (push_bit 20 1) else 0)"

lemma malloc_view:
  "ks.heap_inv cp h k = malloc_inv cp h k" "ks.next_block cp h k = malloc_base cp h k"
  "ks.needed cp sz h k = malloc_needed cp sz h k"
  by (simp_all add: malloc_inv_def malloc_base_def malloc_needed_def ks.heap_inv_def ks.next_block_def
      ks.needed_def)



text \<open>
  \<open>kmalloc_aligned\<close> before the first allocation rounds the null heap pointer, which the first
  \<open>kmalloc\<close> then replaces by the break: the result is not aligned unless the break is.
\<close>

lemma kmalloc_aligned_first:
  assumes "hp_start h = 0" "hp h = 0" "is_pow2 a" "heap_ok cp k" "a \<noteq> 0"
  shows "kmalloc_aligned kernel_sbrk vmemset n a h k = kmalloc kernel_sbrk vmemset n h k"
proof -
  have "h\<lparr>hp := 0\<rparr> = h" using assms(2) by (cases h) simp
  then have "kmalloc kernel_sbrk vmemset n (h\<lparr>hp := 0\<rparr>) k = kmalloc kernel_sbrk vmemset n h k"
    by (simp only:)
  moreover have "roundup 0 a = 0" by (simp add: roundup_def)
  ultimately show ?thesis using assms by (simp add: kmalloc_aligned_def is_aligned_def)
qed

end
