(* ===== verification/Pi_Thread.thy ===== *)
theory Pi_Thread
  imports Pi_Prelude
begin

text \<open>
  The cooperative threads of pi-side/kernel: the intrusive queue of Q.h and the scheduler of
  rpi-thread.c. A pointer to a \<open>rpi_thread_t\<close> is a natural number, NULL is \<open>None\<close>; the array
  \<open>stack\<close> of each thread is a block of words of its own, and the block \<open>None\<close> is the stack
  that the kernel booted on. A stack pointer is a block and a word index. \<open>kmalloc\<close> hands out
  zeroed threads that were not in use before.
\<close>

section \<open>The queue\<close>

record thread =
  t_next :: "nat option"
  t_sp :: "nat option \<times> nat"
  t_tid :: u32

record Q =
  Q_head :: "nat option"
  Q_tail :: "nat option"
  Q_n :: u32

definition Q_size :: "Q \<Rightarrow> u32" where
  "Q_size q = Q_n q"

definition Q_start :: "Q \<Rightarrow> nat option" where
  "Q_start q = Q_head q"

definition Q_next :: "nat \<Rightarrow> (nat \<Rightarrow> thread) \<Rightarrow> nat option" where
  "Q_next e h = t_next (h e)"

definition Q_pop :: "Q \<Rightarrow> (nat \<Rightarrow> thread) \<Rightarrow> (nat option \<times> Q) res" where
  "Q_pop q h =
     (case Q_head q of
        None \<Rightarrow> rbind (demand_that (Q_tail q = None)) (\<lambda>_. Inr (None, q))
      | Some e \<Rightarrow>
          let q = q\<lparr>Q_head := t_next (h e)\<rparr> in
          Inr (Some e, if Q_head q = None then q\<lparr>Q_tail := None\<rparr> else q))"

definition Q_append :: "Q \<Rightarrow> nat \<Rightarrow> (nat \<Rightarrow> thread) \<Rightarrow> Q \<times> (nat \<Rightarrow> thread)" where
  "Q_append q e h =
     (let h = h(e := h e\<lparr>t_next := None\<rparr>) in
      case Q_tail q of
        None \<Rightarrow> (q\<lparr>Q_head := Some e, Q_tail := Some e\<rparr>, h)
      | Some t \<Rightarrow> (q\<lparr>Q_tail := Some e\<rparr>, h(t := h t\<lparr>t_next := Some e\<rparr>)))"

section \<open>The scheduler\<close>

text \<open>
  \<open>regs\<close> are the registers that a context switch saves: \<open>r0\<close> to \<open>r12\<close>, \<open>lr\<close> and the status
  register. \<open>rpi_cswitch\<close> (thread-asm.s) stores them below the stack pointer, at the word
  offsets 1 to 15 of a frame 15 words down, and ends by jumping to the restored \<open>lr\<close>.
\<close>

record sched =
  runq :: Q
  freeq :: Q
  nthreads :: u32
  cur_thread :: "nat option"
  scheduler_thread :: "nat option"
  threads :: "nat \<Rightarrow> thread"
  smem :: "nat option \<Rightarrow> nat \<Rightarrow> u32"
  fresh :: nat
  regs :: "u32 list"
  cpu_sp :: "nat option \<times> nat"

definition zero_thread :: thread where
  "zero_thread = \<lparr>t_next = None, t_sp = (None, 0), t_tid = 0\<rparr>"

definition mk_thread :: "sched \<Rightarrow> (nat \<times> sched) res" where
  "mk_thread s =
     rbind (Q_pop (freeq s) (threads s)) (\<lambda>(t, q).
       case t of
         Some p \<Rightarrow> Inr (p, s\<lparr>freeq := q\<rparr>)
       | None \<Rightarrow>
           Inr (fresh s, s\<lparr>freeq := q, fresh := Suc (fresh s), threads := (threads s)(fresh s := zero_thread),
             smem := (smem s)(Some (fresh s) := (\<lambda>_. 0))\<rparr>))"

definition rpi_fork :: "u32 \<Rightarrow> u32 \<Rightarrow> u32 \<Rightarrow> sched \<Rightarrow> (nat \<times> sched) res" where
  "rpi_fork trampoline code arg s =
     rbind (mk_thread s) (\<lambda>(t, s).
       let sp = 8192 - 1 - 15;
           th = (threads s t)\<lparr>t_tid := nthreads s, t_sp := (Some t, sp)\<rparr>;
           st = (smem s (Some t))(sp + 15 := regs s ! 14, sp + 1 := arg, sp + 2 := code, sp + 14 := trampoline);
           (q, h) = Q_append (runq s) t ((threads s)(t := th))
       in Inr (t, s\<lparr>nthreads := nthreads s + 1, smem := (smem s)(Some t := st), runq := q, threads := h\<rparr>))"

definition push_frame :: "u32 list \<Rightarrow> nat \<Rightarrow> (nat \<Rightarrow> u32) \<Rightarrow> nat \<Rightarrow> u32" where
  "push_frame rs i m = (\<lambda>j. if i < j \<and> j \<le> i + 15 then rs ! (j - (i + 1)) else m j)"

definition frame_at :: "(nat \<Rightarrow> u32) \<Rightarrow> nat \<Rightarrow> u32 list" where
  "frame_at m i = map (\<lambda>j. m (i + 1 + j)) [0..<15]"

text \<open>The old stack pointer goes to the field \<open>sp\<close> of a thread, or to a local variable (\<open>None\<close>).\<close>

definition rpi_cswitch :: "nat option \<Rightarrow> nat \<Rightarrow> sched \<Rightarrow> sched res" where
  "rpi_cswitch old new s =
     (let (blk, i) = cpu_sp s in
      if i < 15 then Inl BadAccess
      else
        let i = i - 15;
            m = (smem s)(blk := push_frame (regs s) i (smem s blk));
            h = (case old of None \<Rightarrow> threads s
                 | Some p \<Rightarrow> (threads s)(p := (threads s p)\<lparr>t_sp := (blk, i)\<rparr>));
            (blk', j) = t_sp (h new)
        in Inr (s\<lparr>smem := m, threads := h, regs := frame_at (m blk') j, cpu_sp := (blk', j + 15)\<rparr>))"

definition rpi_exit :: "sched \<Rightarrow> sched res" where
  "rpi_exit s =
     (case cur_thread s of
        None \<Rightarrow> Inl BadAccess
      | Some c \<Rightarrow>
          let s = s\<lparr>threads := (threads s)(c := zero_thread), smem := (smem s)(Some c := (\<lambda>_. 0))\<rparr>;
              (q, h) = Q_append (freeq s) c (threads s);
              s = s\<lparr>freeq := q, threads := h, cur_thread := None\<rparr> in
          rbind (Q_pop (runq s) (threads s)) (\<lambda>(t, q).
            let s = s\<lparr>runq := q, cur_thread := (if t = None then scheduler_thread s else t)\<rparr> in
            case cur_thread s of None \<Rightarrow> Inl BadAccess | Some n \<Rightarrow> rpi_cswitch None n s))"

definition rpi_yield :: "sched \<Rightarrow> sched res" where
  "rpi_yield s =
     rbind (Q_pop (runq s) (threads s)) (\<lambda>(t, q).
       let s = s\<lparr>runq := q\<rparr> in
       case t of
         None \<Rightarrow> Inr s
       | Some n \<Rightarrow>
           (case cur_thread s of
              None \<Rightarrow> Inl BadAccess
            | Some c \<Rightarrow>
                let (q, h) = Q_append (runq s) c (threads s) in
                rpi_cswitch (Some c) n (s\<lparr>runq := q, threads := h, cur_thread := Some n\<rparr>)))"

definition rpi_thread_start :: "bool \<Rightarrow> sched \<Rightarrow> sched res" where
  "rpi_thread_start preemptive_p s =
     rbind (assert_that (\<not> preemptive_p)) (\<lambda>_.
     rbind (Q_pop (runq s) (threads s)) (\<lambda>(t, q).
       let s = s\<lparr>runq := q, cur_thread := t\<rparr> in
       case t of
         None \<Rightarrow> Inr s
       | Some n \<Rightarrow>
           rbind (mk_thread s) (\<lambda>(d, s). rpi_cswitch (Some d) n (s\<lparr>scheduler_thread := Some d\<rparr>))))"

definition rpi_cur_thread :: "sched \<Rightarrow> nat option" where
  "rpi_cur_thread s = cur_thread s"

section \<open>The queue as a list\<close>

text \<open>
  The interface the scheduler uses: \<open>rep h q ps\<close> says that in the store \<open>h\<close> the queue \<open>q\<close> holds
  the elements \<open>ps\<close>. Appending to one queue leaves a queue without common elements as it is.
\<close>

locale intrusive_queue =
  fixes pop :: "'q \<Rightarrow> 'h \<Rightarrow> ('e option \<times> 'q) res"
    and append :: "'q \<Rightarrow> 'e \<Rightarrow> 'h \<Rightarrow> 'q \<times> 'h"
    and rep :: "'h \<Rightarrow> 'q \<Rightarrow> 'e list \<Rightarrow> bool"
  assumes pop_Nil: "rep h q [] \<Longrightarrow> pop q h = Inr (None, q)"
    and pop_Cons: "rep h q (p # ps) \<Longrightarrow> \<exists>q'. pop q h = Inr (Some p, q') \<and> rep h q' ps"
    and append_rep: "rep h q ps \<Longrightarrow> e \<notin> set ps \<Longrightarrow> append q e h = (q', h') \<Longrightarrow> rep h' q' (ps @ [e])"
    and append_frame: "rep h q ps \<Longrightarrow> append q e h = (q', h') \<Longrightarrow> rep h q2 ps2 \<Longrightarrow>
       e \<notin> set ps2 \<Longrightarrow> set ps \<inter> set ps2 = {} \<Longrightarrow> rep h' q2 ps2"
    and rep_distinct: "rep h q ps \<Longrightarrow> distinct ps"
begin

lemma pop_append:
  assumes "rep h q (p # ps)" "c \<notin> set (p # ps)"
  shows "\<exists>q1 q2 h2. pop q h = Inr (Some p, q1) \<and> append q1 c h = (q2, h2) \<and> rep h2 q2 (ps @ [c])"
proof -
  obtain q1 where "pop q h = Inr (Some p, q1)" "rep h q1 ps" using pop_Cons [OF assms(1)] by blast
  moreover obtain q2 h2 where "append q1 c h = (q2, h2)" by fastforce
  ultimately show ?thesis using append_rep assms(2) by fastforce
qed

lemma append_pop_Nil:
  assumes "rep h q []" "append q c h = (q', h')"
  shows "\<exists>q''. pop q' h' = Inr (Some c, q'') \<and> rep h' q'' []"
  using append_rep [OF assms(1) _ assms(2)] pop_Cons by simp

end

fun linked :: "(nat \<Rightarrow> thread) \<Rightarrow> nat option \<Rightarrow> nat list \<Rightarrow> bool" where
  "linked h x [] \<longleftrightarrow> x = None"
| "linked h x (p # ps) \<longleftrightarrow> x = Some p \<and> linked h (t_next (h p)) ps"

definition Q_rep :: "(nat \<Rightarrow> thread) \<Rightarrow> Q \<Rightarrow> nat list \<Rightarrow> bool" where
  "Q_rep h q ps \<longleftrightarrow> linked h (Q_head q) ps \<and> distinct ps \<and>
     Q_tail q = (if ps = [] then None else Some (last ps))"

lemma linked_cong: "\<forall>p \<in> set ps. t_next (h p) = t_next (h' p) \<Longrightarrow> linked h x ps = linked h' x ps"
  by (induction ps arbitrary: x) simp_all

lemma Q_rep_cong: "\<forall>p \<in> set ps. t_next (h p) = t_next (h' p) \<Longrightarrow> Q_rep h q ps = Q_rep h' q ps"
  using linked_cong [of ps h h' "Q_head q"] by (simp add: Q_rep_def)

lemma linked_snoc:
  "linked h x ps \<Longrightarrow> ps \<noteq> [] \<Longrightarrow> distinct ps \<Longrightarrow> e \<notin> set ps \<Longrightarrow> t_next (h e) = None \<Longrightarrow>
   linked (h(last ps := h (last ps)\<lparr>t_next := Some e\<rparr>)) x (ps @ [e])"
proof (induction ps arbitrary: x)
  case (Cons p ps)
  show ?case
  proof (cases "ps = []")
    case False
    then have "p \<noteq> last ps" using Cons.prems by auto
    then show ?thesis using Cons False by auto
  qed (use Cons in auto)
qed simp

lemma Q_append_next:
  assumes "Q_append q e h = (q', h')" "p \<noteq> e" "Q_tail q \<noteq> Some p"
  shows "h' p = h p"
  using assms by (auto simp: Q_append_def Let_def split: option.splits)

interpretation lq: intrusive_queue Q_pop Q_append Q_rep
proof unfold_locales
  fix h q
  show "Q_rep h q [] \<Longrightarrow> Q_pop q h = Inr (None, q)"
    by (simp add: Q_rep_def Q_pop_def)
next
  fix h q p ps
  show "Q_rep h q (p # ps) \<Longrightarrow> \<exists>q'. Q_pop q h = Inr (Some p, q') \<and> Q_rep h q' ps"
    by (cases ps) (auto simp: Q_rep_def Q_pop_def Let_def)
next
  fix h q ps e q' h'
  assume r: "Q_rep h q ps" and e: "e \<notin> set ps" and a: "Q_append q e h = (q', h')"
  let ?h = "h(e := h e\<lparr>t_next := None\<rparr>)"
  show "Q_rep h' q' (ps @ [e])"
  proof (cases "ps = []")
    case True
    then show ?thesis using r a by (auto simp: Q_rep_def Q_append_def Let_def)
  next
    case False
    have "\<forall>p \<in> set ps. t_next (h p) = t_next (?h p)" using e by auto
    then have "linked ?h (Q_head q) ps" using r linked_cong [of ps h ?h] by (simp add: Q_rep_def)
    then have "linked (?h(last ps := ?h (last ps)\<lparr>t_next := Some e\<rparr>)) (Q_head q) (ps @ [e])"
      using r e False by (intro linked_snoc) (auto simp: Q_rep_def)
    then show ?thesis using r a e False by (auto simp: Q_rep_def Q_append_def Let_def)
  qed
next
  fix h q ps e q' h' q2 ps2
  assume r: "Q_rep h q ps" and a: "Q_append q e h = (q', h')" and r2: "Q_rep h q2 ps2"
    and d: "e \<notin> set ps2" "set ps \<inter> set ps2 = {}"
  have "h' p = h p" if "p \<in> set ps2" for p
  proof (rule Q_append_next [OF a])
    show "p \<noteq> e" using that d by auto
    show "Q_tail q \<noteq> Some p" using r that d(2) last_in_set [of ps] by (auto simp: Q_rep_def disjoint_iff)
  qed
  then show "Q_rep h' q2 ps2" using r2 Q_rep_cong [of ps2 h h' q2] by simp
next
  fix h q ps
  show "Q_rep h q ps \<Longrightarrow> distinct ps" by (simp add: Q_rep_def)
qed

lemma Q_append_fields:
  assumes "Q_append q e h = (q', h')"
  shows "t_sp (h' p) = t_sp (h p)" "t_tid (h' p) = t_tid (h p)"
  using assms by (auto simp: Q_append_def Let_def split: option.splits)

section \<open>Scheduler states\<close>

text \<open>
  \<open>saved s t\<close> are the registers that the next switch to \<open>t\<close> restores. In a proper state the
  threads that run, wait and are free are different, the running thread is on its own stack (with
  none running, the kernel is on the boot stack), a waiting thread's frame is on its own stack,
  and the scheduler's on the boot stack.
\<close>

definition saved :: "sched \<Rightarrow> nat \<Rightarrow> u32 list" where
  "saved s t = frame_at (smem s (fst (t_sp (threads s t)))) (snd (t_sp (threads s t)))"

definition all_threads :: "nat option \<Rightarrow> nat list \<Rightarrow> nat list \<Rightarrow> nat set" where
  "all_threads co rs fs = set_option co \<union> set rs \<union> set fs"

definition sched_rep :: "sched \<Rightarrow> nat option \<Rightarrow> nat list \<Rightarrow> nat list \<Rightarrow> bool" where
  "sched_rep s co rs fs \<longleftrightarrow>
     cur_thread s = co \<and> Q_rep (threads s) (runq s) rs \<and> Q_rep (threads s) (freeq s) fs \<and>
     set rs \<inter> set fs = {} \<and> set_option co \<inter> (set rs \<union> set fs) = {} \<and>
     (\<forall>p \<in> all_threads co rs fs. p < fresh s) \<and> length (regs s) = 15 \<and>
     fst (cpu_sp s) = co \<and> 15 \<le> snd (cpu_sp s) \<and>
     (\<forall>p \<in> set rs. fst (t_sp (threads s p)) = Some p) \<and>
     (\<forall>d. scheduler_thread s = Some d \<longrightarrow>
        d \<notin> all_threads co rs fs \<and> d < fresh s \<and> fst (t_sp (threads s d)) = None)"

lemma frame_push: "length rs = 15 \<Longrightarrow> frame_at (push_frame rs i m) i = rs"
  by (rule nth_equalityI) (auto simp: frame_at_def push_frame_def)

lemma length_frame_at [simp]: "length (frame_at m i) = 15"
  by (simp add: frame_at_def)

lemma cswitch_eq:
  assumes "15 \<le> snd (cpu_sp s)" "fst (t_sp (threads s n)) \<noteq> fst (cpu_sp s)" "old \<noteq> Some n"
  shows "rpi_cswitch old n s = Inr (s\<lparr>
     smem := (smem s)(fst (cpu_sp s) := push_frame (regs s) (snd (cpu_sp s) - 15) (smem s (fst (cpu_sp s)))),
     threads := (case old of None \<Rightarrow> threads s
       | Some p \<Rightarrow> (threads s)(p := (threads s p)\<lparr>t_sp := (fst (cpu_sp s), snd (cpu_sp s) - 15)\<rparr>)),
     regs := saved s n, cpu_sp := (fst (t_sp (threads s n)), snd (t_sp (threads s n)) + 15)\<rparr>)"
proof -
  obtain blk i where b: "cpu_sp s = (blk, i)" by fastforce
  obtain b2 j where b2: "t_sp (threads s n) = (b2, j)" by fastforce
  have "t_sp ((case old of None \<Rightarrow> threads s
       | Some p \<Rightarrow> (threads s)(p := (threads s p)\<lparr>t_sp := (blk, i - 15)\<rparr>)) n) = (b2, j)"
    using assms(3) b2 by (cases old) auto
  then show ?thesis
    using assms b b2 unfolding rpi_cswitch_def by (cases old) (simp_all add: Let_def saved_def)
qed

lemma cswitch_overwrites_top:
  assumes "rpi_cswitch old n s = Inr s'" "cpu_sp s = (blk, i)"
  shows "smem s' blk i = regs s ! 14"
  using assms by (auto simp: rpi_cswitch_def Let_def push_frame_def split: if_splits prod.splits)

text \<open>Every context that a step must keep: of the waiting threads and of the scheduler.\<close>

definition keeps :: "nat set \<Rightarrow> sched \<Rightarrow> sched \<Rightarrow> bool" where
  "keeps A s s' \<longleftrightarrow> scheduler_thread s' = scheduler_thread s \<and>
     (\<forall>t \<in> A \<union> set_option (scheduler_thread s).
        t_sp (threads s' t) = t_sp (threads s t) \<and> saved s' t = saved s t)"

lemma yield_rep:
  assumes r: "sched_rep s (Some c) (p # rs) fs"
  shows "\<exists>s'. rpi_yield s = Inr s' \<and> sched_rep s' (Some p) (rs @ [c]) fs \<and> regs s' = saved s p \<and>
    saved s' c = regs s \<and> keeps (set rs) s s' \<and> cpu_sp s' = (Some p, snd (t_sp (threads s p)) + 15) \<and>
    t_sp (threads s' c) = (Some c, snd (cpu_sp s) - 15) \<and>
    smem s' = (smem s)(Some c := push_frame (regs s) (snd (cpu_sp s) - 15) (smem s (Some c)))"
proof -
  have q: "Q_rep (threads s) (runq s) (p # rs)" "Q_rep (threads s) (freeq s) fs" and cur: "cur_thread s = Some c"
    and d: "set (p # rs) \<inter> set fs = {}" "c \<notin> set (p # rs)" "c \<notin> set fs" "distinct (p # rs)"
    using r lq.rep_distinct [of "threads s" "runq s" "p # rs"] by (auto simp: sched_rep_def)
  obtain q1 q2 h where pop: "Q_pop (runq s) (threads s) = Inr (Some p, q1)" "Q_rep (threads s) q1 rs"
    and app: "Q_append q1 c (threads s) = (q2, h)" and rep: "Q_rep h q2 (rs @ [c])"
    using lq.pop_Cons [OF q(1)] lq.append_rep d(2) by (metis list.set_intros(2) surj_pair)
  have free: "Q_rep h (freeq s) fs" using lq.append_frame [OF pop(2) app q(2)] d by auto
  note sp = Q_append_fields(1) [OF app]
  let ?s = "s\<lparr>runq := q2, threads := h, cur_thread := Some p\<rparr>"
  let ?h = "h(c := h c\<lparr>t_sp := (Some c, snd (cpu_sp s) - 15)\<rparr>)"
  let ?s' = "s\<lparr>runq := q2, threads := ?h, cur_thread := Some p,
    smem := (smem s)(Some c := push_frame (regs s) (snd (cpu_sp s) - 15) (smem s (Some c))),
    regs := saved s p, cpu_sp := (Some p, snd (t_sp (threads s p)) + 15)\<rparr>"
  have k: "fst (cpu_sp s) = Some c" "15 \<le> snd (cpu_sp s)" "fst (t_sp (threads s p)) = Some p" "length (regs s) = 15"
    using r by (simp_all add: sched_rep_def)
  have "rpi_cswitch (Some c) p ?s = Inr ?s'"
    using cswitch_eq [of ?s p "Some c"] k d(2) sp by (simp add: saved_def)
  then have e: "rpi_yield s = Inr ?s'" using pop(1) cur app by (simp add: rpi_yield_def Let_def)
  have "Q_rep ?h q2 (rs @ [c])" "Q_rep ?h (freeq s) fs"
    using rep free Q_rep_cong [of "rs @ [c]" h ?h q2] Q_rep_cong [of fs h ?h "freeq s"] by auto
  then have "sched_rep ?s' (Some p) (rs @ [c]) fs"
    using r d sp k by (auto simp: sched_rep_def all_threads_def saved_def)
  moreover have "saved ?s' c = regs s" using k by (simp add: saved_def frame_push)
  moreover have "keeps (set rs) s ?s'"
    using r d sp by (auto simp: keeps_def saved_def sched_rep_def all_threads_def)
  ultimately show ?thesis using e by (intro exI [of _ ?s']) simp
qed

lemma exit_prefix:
  assumes r: "sched_rep s (Some c) rs fs"
  obtains q h where
    "Q_append (freeq s) c ((threads s)(c := zero_thread)) = (q, h)" "Q_rep h q (fs @ [c])"
    "Q_rep h (runq s) rs" "\<And>t. t \<noteq> c \<Longrightarrow> t_sp (h t) = t_sp (threads s t)"
proof -
  let ?h = "(threads s)(c := zero_thread)"
  have q: "Q_rep (threads s) (runq s) rs" "Q_rep (threads s) (freeq s) fs" "c \<notin> set rs" "c \<notin> set fs" "set fs \<inter> set rs = {}"
    using r by (auto simp: sched_rep_def)
  then have q': "Q_rep ?h (runq s) rs" "Q_rep ?h (freeq s) fs"
    using Q_rep_cong [of rs "threads s" ?h "runq s"] Q_rep_cong [of fs "threads s" ?h "freeq s"] by auto
  obtain q h where a: "Q_append (freeq s) c ?h = (q, h)" by fastforce
  have "t_sp (h t) = t_sp (threads s t)" if "t \<noteq> c" for t
    using Q_append_fields(1) [OF a, of t] that by simp
  then show ?thesis
    using that [OF a lq.append_rep [OF q'(2) q(4) a] lq.append_frame [OF q'(2) a q'(1) q(3,5)]] by blast
qed

lemma exit_rep:
  assumes r: "sched_rep s (Some c) (p # rs) fs"
  shows "\<exists>s'. rpi_exit s = Inr s' \<and> sched_rep s' (Some p) rs (fs @ [c]) \<and> regs s' = saved s p \<and> keeps (set rs) s s'"
proof -
  obtain q h where a: "Q_append (freeq s) c ((threads s)(c := zero_thread)) = (q, h)" "Q_rep h q (fs @ [c])"
    "Q_rep h (runq s) (p # rs)" and sp: "\<And>t. t \<noteq> c \<Longrightarrow> t_sp (h t) = t_sp (threads s t)"
    using exit_prefix [OF r] by blast
  obtain q1 where pop: "Q_pop (runq s) h = Inr (Some p, q1)" "Q_rep h q1 rs" using lq.pop_Cons [OF a(3)] by blast
  have k: "fst (cpu_sp s) = Some c" "15 \<le> snd (cpu_sp s)" "fst (t_sp (threads s p)) = Some p" "length (regs s) = 15"
    "c \<noteq> p" "cur_thread s = Some c" "p \<notin> set rs"
    using r lq.rep_distinct [OF a(3)] by (auto simp: sched_rep_def)
  let ?s = "s\<lparr>smem := (smem s)(Some c := (\<lambda>_. 0)), freeq := q, threads := h, runq := q1, cur_thread := Some p\<rparr>"
  let ?s' = "?s\<lparr>smem := (smem s)(Some c := push_frame (regs s) (snd (cpu_sp s) - 15) (\<lambda>_. 0)),
    regs := saved s p, cpu_sp := (Some p, snd (t_sp (threads s p)) + 15)\<rparr>"
  have "rpi_cswitch None p ?s = Inr ?s'"
    using cswitch_eq [of ?s p None] k sp by (simp add: saved_def)
  then have e: "rpi_exit s = Inr ?s'" using a(1) pop(1) k by (simp add: rpi_exit_def Let_def)
  have "\<forall>t \<in> set rs \<union> set_option (scheduler_thread s). t \<noteq> c"
    using r by (auto simp: sched_rep_def all_threads_def)
  then have spr: "\<forall>t \<in> set rs \<union> set_option (scheduler_thread s). t_sp (h t) = t_sp (threads s t)"
    using sp by blast
  then have "sched_rep ?s' (Some p) rs (fs @ [c])"
    using r a(2) pop(2) k by (auto simp: sched_rep_def all_threads_def saved_def)
  moreover have "keeps (set rs) s ?s'"
    using r k spr by (auto simp: keeps_def saved_def sched_rep_def all_threads_def)
  ultimately show ?thesis using e by (intro exI [of _ ?s']) simp
qed

lemma exit_last_rep:
  assumes r: "sched_rep s (Some c) [] fs" and d: "scheduler_thread s = Some d"
  shows "\<exists>s'. rpi_exit s = Inr s' \<and> cur_thread s' = Some d \<and> scheduler_thread s' = Some d \<and> regs s' = saved s d \<and>
    cpu_sp s' = (None, snd (t_sp (threads s d)) + 15)"
proof -
  obtain q h where a: "Q_append (freeq s) c ((threads s)(c := zero_thread)) = (q, h)"
    "Q_rep h (runq s) []" and sp: "\<And>t. t \<noteq> c \<Longrightarrow> t_sp (h t) = t_sp (threads s t)"
    using exit_prefix [OF r] by blast
  have k: "fst (cpu_sp s) = Some c" "15 \<le> snd (cpu_sp s)" "fst (t_sp (threads s d)) = None" "d \<noteq> c" "cur_thread s = Some c"
    using r d by (auto simp: sched_rep_def all_threads_def)
  let ?s = "s\<lparr>smem := (smem s)(Some c := (\<lambda>_. 0)), freeq := q, threads := h, cur_thread := Some d\<rparr>"
  have "\<exists>s'. rpi_cswitch None d ?s = Inr s' \<and> cur_thread s' = Some d \<and> scheduler_thread s' = Some d \<and>
      regs s' = saved s d \<and> cpu_sp s' = (None, snd (t_sp (threads s d)) + 15)"
    using cswitch_eq [of ?s d None] k sp d by (simp add: saved_def)
  then show ?thesis
    using a(1) lq.pop_Nil [OF a(2)] k d by (simp add: rpi_exit_def Let_def)
qed

lemma mk_thread_rep:
  assumes r: "sched_rep s co rs fs"
  shows "\<exists>t s1. mk_thread s = Inr (t, s1) \<and> sched_rep s1 co rs (tl fs) \<and> t < fresh s1 \<and>
    t \<notin> all_threads co rs (tl fs) \<and> scheduler_thread s1 \<noteq> Some t \<and> regs s1 = regs s \<and> cpu_sp s1 = cpu_sp s \<and>
    nthreads s1 = nthreads s \<and> (\<forall>b. b \<noteq> Some t \<longrightarrow> smem s1 b = smem s b) \<and> keeps (set rs) s s1"
proof (cases fs)
  case Nil
  let ?t = "fresh s"
  let ?h = "(threads s)(?t := zero_thread)"
  let ?s = "s\<lparr>fresh := Suc ?t, threads := ?h, smem := (smem s)(Some ?t := (\<lambda>_. 0))\<rparr>"
  have q: "Q_rep (threads s) (freeq s) []" "Q_rep (threads s) (runq s) rs" "?t \<notin> all_threads co rs fs"
    using r Nil by (auto simp: sched_rep_def)
  then have q': "Q_rep ?h (runq s) rs" "Q_rep ?h (freeq s) []"
    using Q_rep_cong [of rs "threads s" ?h "runq s"] Q_rep_cong [of "[]" "threads s" ?h "freeq s"]
    by (auto simp: all_threads_def)
  have "mk_thread s = Inr (?t, ?s)" using lq.pop_Nil [OF q(1)] by (simp add: mk_thread_def)
  moreover have "sched_rep ?s co rs []"
    using r q' q(3) Nil by (auto simp: sched_rep_def all_threads_def less_Suc_eq)
  moreover have "scheduler_thread ?s \<noteq> Some ?t" using r by (auto simp: sched_rep_def)
  moreover have "keeps (set rs) s ?s"
    using r q(3) by (auto simp: keeps_def saved_def sched_rep_def all_threads_def)
  ultimately show ?thesis using Nil q(3) by (intro exI [of _ ?t] exI [of _ ?s]) simp
next
  case (Cons t fs')
  obtain q where p: "Q_pop (freeq s) (threads s) = Inr (Some t, q)" "Q_rep (threads s) q fs'"
    and dist: "t \<notin> set fs'"
    using r Cons lq.pop_Cons [of "threads s" "freeq s" t fs'] lq.rep_distinct [of "threads s" "freeq s" fs]
    by (auto simp: sched_rep_def)
  let ?s = "s\<lparr>freeq := q\<rparr>"
  have "mk_thread s = Inr (t, ?s)" using p(1) by (simp add: mk_thread_def)
  moreover have "sched_rep ?s co rs fs'"
    using r p(2) Cons by (auto simp: sched_rep_def all_threads_def)
  moreover have "t < fresh ?s" "t \<notin> all_threads co rs fs'" "scheduler_thread ?s \<noteq> Some t"
    using r Cons dist by (auto simp: sched_rep_def all_threads_def)
  moreover have "keeps (set rs) s ?s" by (simp add: keeps_def saved_def)
  ultimately show ?thesis using Cons by (intro exI [of _ t] exI [of _ ?s]) simp
qed

lemma keeps_trans: "keeps A s s1 \<Longrightarrow> keeps A s1 s2 \<Longrightarrow> keeps A s s2"
  by (simp add: keeps_def)

lemma fork_rep:
  assumes r: "sched_rep s co rs fs"
  shows "\<exists>t s'. rpi_fork tr code arg s = Inr (t, s') \<and> sched_rep s' co (rs @ [t]) (tl fs) \<and> regs s' = regs s \<and>
    cpu_sp s' = cpu_sp s \<and> saved s' t ! 0 = arg \<and> saved s' t ! 1 = code \<and> saved s' t ! 13 = tr \<and>
    saved s' t ! 14 = regs s ! 14 \<and> t_tid (threads s' t) = nthreads s \<and> keeps (set rs) s s'"
proof -
  obtain t s1 where m: "mk_thread s = Inr (t, s1)" and r1: "sched_rep s1 co rs (tl fs)"
    and t: "t < fresh s1" "t \<notin> all_threads co rs (tl fs)" "scheduler_thread s1 \<noteq> Some t"
    and same: "regs s1 = regs s" "cpu_sp s1 = cpu_sp s" "nthreads s1 = nthreads s" and k1: "keeps (set rs) s s1"
    using mk_thread_rep [OF r] by blast
  define h0 where "h0 = (threads s1)(t := (threads s1 t)\<lparr>t_tid := nthreads s1, t_sp := (Some t, 8176)\<rparr>)"
  define st where "st = (smem s1 (Some t))(8191 := regs s1 ! 14, 8177 := arg, 8178 := code, 8190 := tr)"
  have q: "Q_rep h0 (runq s1) rs" "Q_rep h0 (freeq s1) (tl fs)"
    using r1 Q_rep_cong [of rs "threads s1" h0 "runq s1"] Q_rep_cong [of "tl fs" "threads s1" h0 "freeq s1"]
    by (auto simp: sched_rep_def h0_def)
  obtain q' h where a: "Q_append (runq s1) t h0 = (q', h)" by fastforce
  have nt: "t \<notin> set rs" "t \<notin> set (tl fs)" "t \<notin> set_option co" using t(2) by (auto simp: all_threads_def)
  have q2: "Q_rep h q' (rs @ [t])" "Q_rep h (freeq s1) (tl fs)"
    using lq.append_rep [OF q(1) nt(1) a] lq.append_frame [OF q(1) a q(2) nt(2)] r1 by (auto simp: sched_rep_def)
  note sp = Q_append_fields [OF a]
  let ?s = "s1\<lparr>nthreads := nthreads s1 + 1, smem := (smem s1)(Some t := st), runq := q', threads := h\<rparr>"
  have e: "rpi_fork tr code arg s = Inr (t, ?s)"
    using m a by (simp add: rpi_fork_def Let_def h0_def st_def)
  have spt: "t_sp (h t) = (Some t, 8176)" "t_tid (h t) = nthreads s" using sp same by (simp_all add: h0_def)
  have spo: "t_sp (h p) = t_sp (threads s1 p)" if "p \<noteq> t" for p using sp that by (simp add: h0_def)
  have spr: "\<forall>p \<in> set rs \<union> set_option (scheduler_thread s1). t_sp (h p) = t_sp (threads s1 p)"
    using spo nt(1) t(3) by (metis UnE elem_set)
  then have "sched_rep ?s co (rs @ [t]) (tl fs)"
    using r1 q2 t nt spt by (auto simp: sched_rep_def all_threads_def)
  moreover have "saved ?s t ! 0 = arg" "saved ?s t ! 1 = code" "saved ?s t ! 13 = tr" "saved ?s t ! 14 = regs s ! 14"
    using spt same by (simp_all add: saved_def frame_at_def st_def)
  moreover have "keeps (set rs) s1 ?s"
    using r1 nt t(3) spr by (auto simp: keeps_def saved_def sched_rep_def)
  ultimately show ?thesis
    using e same spt k1 by (intro exI [of _ t] exI [of _ ?s]) (auto dest: keeps_trans)
qed

lemma mk_thread_frame:
  "mk_thread (s\<lparr>runq := q, cur_thread := c\<rparr>) =
     rbind (mk_thread s) (\<lambda>(t, s'). Inr (t, s'\<lparr>runq := q, cur_thread := c\<rparr>))"
  "mk_thread (s\<lparr>runq := q\<rparr>) = rbind (mk_thread s) (\<lambda>(t, s'). Inr (t, s'\<lparr>runq := q\<rparr>))"
  by (cases "Q_pop (freeq s) (threads s)"; auto simp: mk_thread_def intro!: sched.equality split: option.splits)+

lemma start_rep:
  assumes r: "sched_rep s None (p # rs) fs" and n: "scheduler_thread s = None"
  shows "\<exists>s' d. rpi_thread_start False s = Inr s' \<and> sched_rep s' (Some p) rs (tl fs) \<and>
    scheduler_thread s' = Some d \<and> saved s' d = regs s \<and> snd (t_sp (threads s' d)) + 15 = snd (cpu_sp s) \<and>
    regs s' = saved s p \<and> (\<forall>t \<in> set rs. saved s' t = saved s t)"
proof -
  obtain q1 where pop: "Q_pop (runq s) (threads s) = Inr (Some p, q1)" "Q_rep (threads s) q1 rs"
    using r lq.pop_Cons [of "threads s" "runq s" p rs] by (auto simp: sched_rep_def)
  have "sched_rep (s\<lparr>runq := q1\<rparr>) None rs fs" using r pop(2) by (auto simp: sched_rep_def all_threads_def)
  then obtain d s1 where m1: "mk_thread (s\<lparr>runq := q1\<rparr>) = Inr (d, s1)" and r1: "sched_rep s1 None rs (tl fs)"
    using mk_thread_rep by blast
  obtain d' s2 where m: "mk_thread s = Inr (d', s2)" and d: "d' < fresh s2" "d' \<notin> all_threads None (p # rs) (tl fs)"
    and r2: "sched_rep s2 None (p # rs) (tl fs)"
    and same: "regs s2 = regs s" "cpu_sp s2 = cpu_sp s" and k: "keeps (set (p # rs)) s s2"
    using mk_thread_rep [OF r] by auto
  have eq: "d' = d" "s1 = s2\<lparr>runq := q1\<rparr>" using m1 mk_thread_frame(2) [where s = s and q = q1] m by simp_all
  let ?s2 = "s2\<lparr>runq := q1, cur_thread := Some p, scheduler_thread := Some d\<rparr>"
  let ?s' = "?s2\<lparr>smem := (smem s2)(None := push_frame (regs s) (snd (cpu_sp s) - 15) (smem s2 None)),
    threads := (threads s2)(d := (threads s2 d)\<lparr>t_sp := (None, snd (cpu_sp s) - 15)\<rparr>),
    regs := saved s p, cpu_sp := (Some p, snd (t_sp (threads s p)) + 15)\<rparr>"
  have b: "fst (cpu_sp s) = None" "15 \<le> snd (cpu_sp s)" "fst (t_sp (threads s2 p)) = Some p" "length (regs s) = 15"
    "d \<noteq> p" "saved s2 p = saved s p" "t_sp (threads s2 p) = t_sp (threads s p)" "p \<notin> set rs"
    using r r2 d eq k lq.rep_distinct [of "threads s" "runq s" "p # rs"]
    by (auto simp: sched_rep_def all_threads_def keeps_def)
  have "rpi_cswitch (Some d) p ?s2 = Inr ?s'"
    using cswitch_eq [of ?s2 p "Some d"] b same by (simp add: saved_def)
  then have e: "rpi_thread_start False s = Inr ?s'"
    using pop(1) mk_thread_frame(1) [where s = s and q = q1 and c = "Some p"] m eq(1) by (simp add: rpi_thread_start_def Let_def)
  have "Q_rep (threads ?s') q1 rs" "Q_rep (threads ?s') (freeq s2) (tl fs)"
    using r1 r2 eq Q_rep_cong [of rs "threads s2" "threads ?s'" q1]
      Q_rep_cong [of "tl fs" "threads s2" "threads ?s'" "freeq s2"] by (auto simp: sched_rep_def)
  then have "sched_rep ?s' (Some p) rs (tl fs)"
    using r2 b d eq by (auto simp: sched_rep_def all_threads_def saved_def)
  moreover have "saved ?s' d = regs s" "snd (t_sp (threads ?s' d)) + 15 = snd (cpu_sp s)"
    using b by (simp_all add: saved_def frame_push)
  moreover have "saved ?s' t = saved s t" if "t \<in> set rs" for t
  proof -
    have "saved s2 t = saved s t" "fst (t_sp (threads s2 t)) = Some t" "t \<noteq> d"
      using that k r2 d eq(1) by (auto simp: keeps_def sched_rep_def all_threads_def)
    then show ?thesis by (simp add: saved_def)
  qed
  ultimately show ?thesis using e by (intro exI [of _ ?s'] exI [of _ d]) simp
qed

section \<open>The abstract scheduler\<close>

text \<open>
  Abstractly the scheduler is a list of threads with their registers, the running one first, and a
  list of free threads.
\<close>

definition sched_abs :: "sched \<Rightarrow> (nat \<times> u32 list) list \<Rightarrow> nat list \<Rightarrow> bool" where
  "sched_abs s xs fs \<longleftrightarrow>
     (case xs of [] \<Rightarrow> False
      | (c, r) # ys \<Rightarrow> sched_rep s (Some c) (map fst ys) fs \<and> regs s = r \<and>
          (\<forall>(t, r') \<in> set ys. saved s t = r'))"

fun yields :: "nat \<Rightarrow> sched \<Rightarrow> sched res" where
  "yields 0 s = Inr s"
| "yields (Suc n) s = rbind (rpi_yield s) (yields n)"

lemma keeps_saved: "keeps A s s' \<Longrightarrow> t \<in> A \<Longrightarrow> saved s' t = saved s t"
  by (simp add: keeps_def)

lemma sched_absE:
  assumes "sched_abs s xs fs"
  obtains c ys where "xs = (c, regs s) # ys" "sched_rep s (Some c) (map fst ys) fs"
    "\<forall>t r. (t, r) \<in> set ys \<longrightarrow> saved s t = r"
proof -
  obtain c r ys where "xs = (c, r) # ys" using assms by (auto simp: sched_abs_def split: list.splits)
  moreover from this have "\<forall>t r. (t, r) \<in> set ys \<longrightarrow> saved s t = r" "r = regs s"
    "sched_rep s (Some c) (map fst ys) fs" using assms by (auto simp: sched_abs_def)
  ultimately show ?thesis using that [of c ys] by blast
qed

text \<open>
  What a thread owns while it runs or waits: the registers of its last context switch, its stack
  pointer, and the words of its stack above the one the stack pointer points to. That word is left
  out because \<open>rpi_cswitch\<close> overwrites it with the status register (\<open>cswitch_overwrites_top\<close>).
\<close>

definition live_words :: "nat \<Rightarrow> (nat \<Rightarrow> u32) \<Rightarrow> nat \<Rightarrow> u32" where
  "live_words i m = (\<lambda>j. if i < j then m j else 0)"

definition thread_ctx :: "sched \<Rightarrow> nat \<Rightarrow> u32 list \<times> nat \<times> (nat \<Rightarrow> u32)" where
  "thread_ctx s t =
     (let (rs, i) = (if cur_thread s = Some t then (regs s, snd (cpu_sp s))
                     else (saved s t, snd (t_sp (threads s t)) + 15))
      in (rs, i, live_words i (smem s (Some t))))"

lemma live_push_frame [simp]: "15 \<le> i \<Longrightarrow> live_words i (push_frame rs (i - 15) m) = live_words i m"
  by (auto simp: live_words_def push_frame_def fun_eq_iff)

lemma yield_ctx:
  assumes r: "sched_rep s (Some c) rs fs"
  shows "\<exists>s' c' rs'. rpi_yield s = Inr s' \<and> rotate1 (c # rs) = c' # rs' \<and> sched_rep s' (Some c') rs' fs \<and>
    (\<forall>t \<in> set (c # rs). thread_ctx s' t = thread_ctx s t)"
proof (cases rs)
  case Nil
  then have "Q_pop (runq s) (threads s) = Inr (None, runq s)"
    using r lq.pop_Nil by (auto simp: sched_rep_def)
  then have "rpi_yield s = Inr s" by (simp add: rpi_yield_def)
  with r Nil show ?thesis by simp
next
  case (Cons p zs)
  then have r': "sched_rep s (Some c) (p # zs) fs" using r by simp
  from yield_rep [OF this] obtain s' where s': "rpi_yield s = Inr s'"
    "sched_rep s' (Some p) (zs @ [c]) fs" "regs s' = saved s p" "saved s' c = regs s" "keeps (set zs) s s'"
    "cpu_sp s' = (Some p, snd (t_sp (threads s p)) + 15)" "t_sp (threads s' c) = (Some c, snd (cpu_sp s) - 15)"
    "smem s' = (smem s)(Some c := push_frame (regs s) (snd (cpu_sp s) - 15) (smem s (Some c)))"
    by blast
  have d: "cur_thread s = Some c" "cur_thread s' = Some p" "c \<noteq> p" "c \<notin> set zs" "p \<notin> set zs" "15 \<le> snd (cpu_sp s)"
    using r' s'(2) lq.rep_distinct [of "threads s" "runq s" "p # zs"] by (auto simp: sched_rep_def)
  have "thread_ctx s' c = thread_ctx s c" using d s' by (simp add: thread_ctx_def)
  moreover have "thread_ctx s' p = thread_ctx s p" using d s' by (simp add: thread_ctx_def)
  moreover have "thread_ctx s' t = thread_ctx s t" if "t \<in> set zs" for t
  proof -
    have "t \<noteq> c" "t \<noteq> p" using that d by auto
    then show ?thesis using that d s'(5,8) by (simp add: thread_ctx_def keeps_def)
  qed
  ultimately show ?thesis using s'(1,2) Cons by auto
qed

lemma yields_ctx:
  assumes "sched_rep s (Some c) rs fs"
  shows "\<exists>s' c' rs'. yields n s = Inr s' \<and> rotate n (c # rs) = c' # rs' \<and> sched_rep s' (Some c') rs' fs \<and>
    (\<forall>t \<in> set (c # rs). thread_ctx s' t = thread_ctx s t)"
  using assms
proof (induction n arbitrary: s c rs)
  case (Suc n)
  obtain s1 c1 rs1 where 1: "rpi_yield s = Inr s1" "rotate1 (c # rs) = c1 # rs1" "sched_rep s1 (Some c1) rs1 fs"
    "\<forall>t \<in> set (c # rs). thread_ctx s1 t = thread_ctx s t" using yield_ctx Suc.prems by blast
  then have same: "set (c1 # rs1) = set (c # rs)" by (metis set_rotate1)
  have "rotate (Suc n) (c # rs) = rotate n (c1 # rs1)" using 1(2) by (simp add: rotate1_rotate_swap)
  moreover obtain s' c' rs' where 2: "yields n s1 = Inr s'" "rotate n (c1 # rs1) = c' # rs'"
    "sched_rep s' (Some c') rs' fs" "\<forall>t \<in> set (c1 # rs1). thread_ctx s' t = thread_ctx s1 t"
    using Suc.IH [OF 1(3)] by blast
  moreover have "\<forall>t \<in> set (c # rs). thread_ctx s' t = thread_ctx s t"
    using 1(4) 2(4) unfolding same by simp
  ultimately show ?case using 1(1) by simp
qed simp


definition demo_sched :: sched where
  "demo_sched = \<lparr>runq = \<lparr>Q_head = Some 2, Q_tail = Some 2, Q_n = 0\<rparr>, freeq = \<lparr>Q_head = None, Q_tail = None, Q_n = 0\<rparr>,
     nthreads = 2, cur_thread = Some 1, scheduler_thread = Some 0,
     threads = (\<lambda>t. if t = 2 then \<lparr>t_next = None, t_sp = (Some 2, 100), t_tid = 1\<rparr> else zero_thread),
     smem = (\<lambda>_ _. 5), fresh = 3, regs = replicate 15 9, cpu_sp = (Some 1, 200)\<rparr>"

lemma demo_sched_abs: "sched_abs demo_sched [(1, replicate 15 9), (2, replicate 15 5)] []"
  by (simp add: sched_abs_def sched_rep_def demo_sched_def Q_rep_def all_threads_def zero_thread_def
      saved_def frame_at_def map_replicate_const)

lemma demo_sched_rep: "sched_rep demo_sched (Some 1) [2] []"
  using demo_sched_abs by (simp add: sched_abs_def)


text \<open>
  \<open>rpi_fork\<close> on any proper state returns a thread that was neither running nor waiting,
  appended to the run queue; the first switch to it restores \<open>arg\<close> in \<open>r0\<close>, \<open>code\<close> in \<open>r1\<close>, the
  address of \<open>rpi_init_trampoline\<close> in \<open>lr\<close> and the creator's status register; every other thread keeps
  its registers, and a thread from the free queue is used before memory is allocated.
\<close>

theorem fork_appends:
  assumes "sched_abs s xs fs"
  shows "\<exists>t s' r. rpi_fork tr code arg s = Inr (t, s') \<and> sched_abs s' (xs @ [(t, r)]) (tl fs)
    \<and> t \<notin> fst ` set xs \<and> r ! 0 = arg \<and> r ! 1 = code \<and> r ! 13 = tr \<and> r ! 14 = regs s ! 14
    \<and> (fs \<noteq> [] \<longrightarrow> t = hd fs)"
proof -
  obtain c ys where xs: "xs = (c, regs s) # ys" and r: "sched_rep s (Some c) (map fst ys) fs"
    and sv: "\<forall>t r. (t, r) \<in> set ys \<longrightarrow> saved s t = r"
    using assms by (rule sched_absE)
  from fork_rep [OF r, of tr code arg] obtain t s' where s': "rpi_fork tr code arg s = Inr (t, s')"
    "sched_rep s' (Some c) (map fst ys @ [t]) (tl fs)" "regs s' = regs s" "saved s' t ! 0 = arg"
    "saved s' t ! 1 = code" "saved s' t ! 13 = tr" "saved s' t ! 14 = regs s ! 14" "keeps (fst ` set ys) s s'"
    by auto
  have "saved s' u = r'" if "(u, r') \<in> set ys" for u r'
    using keeps_saved [OF s'(8), of u] sv that by force
  then have "sched_abs s' (xs @ [(t, saved s' t)]) (tl fs)"
    using s' xs by (auto simp: sched_abs_def)
  moreover have "t \<notin> fst ` set xs"
    using s'(2) xs lq.rep_distinct [of "threads s'" "runq s'" "map fst ys @ [t]"] by (auto simp: sched_rep_def)
  moreover have "t = hd fs" if "fs \<noteq> []"
  proof -
    obtain q where "Q_pop (freeq s) (threads s) = Inr (Some (hd fs), q)"
      using \<open>fs \<noteq> []\<close> r lq.pop_Cons [of "threads s" "freeq s" "hd fs" "tl fs"]
      by (cases fs) (auto simp: sched_rep_def)
    then show ?thesis using s'(1) by (auto simp: rpi_fork_def mk_thread_def Let_def split: prod.splits)
  qed
  ultimately show ?thesis using s' by (intro exI [of _ t] exI [of _ s'] exI [of _ "saved s' t"]) simp
qed

theorem fork_appends_witness:
  "\<exists>t s' r. rpi_fork 0x8100 0x9000 7 demo_sched = Inr (t, s')
     \<and> sched_abs s' [(1, replicate 15 9), (2, replicate 15 5), (t, r)] [] \<and> r ! 0 = 7 \<and> r ! 13 = 0x8100"
  using fork_appends [OF demo_sched_abs, of "0x8100" "0x9000" 7] by auto

section \<open>The life of the thread system\<close>

text \<open>
  What happens between \<open>rpi_thread_start\<close> and its return: the running thread computes (on its
  registers and its own stack), yields, forks, or exits while another thread waits.
\<close>

inductive thread_step :: "sched \<Rightarrow> sched \<Rightarrow> bool" where
  compute: "length rs = 15 \<Longrightarrow> 15 \<le> i \<Longrightarrow> cur_thread s = Some c \<Longrightarrow>
     thread_step s (s\<lparr>regs := rs, cpu_sp := (Some c, i), smem := (smem s)(Some c := m)\<rparr>)"
| yield: "rpi_yield s = Inr s' \<Longrightarrow> thread_step s s'"
| fork: "rpi_fork tr code arg s = Inr (t, s') \<Longrightarrow> thread_step s s'"
| exit: "Q_head (runq s) \<noteq> None \<Longrightarrow> rpi_exit s = Inr s' \<Longrightarrow> thread_step s s'"

definition scheduler_waits :: "u32 list \<Rightarrow> nat \<Rightarrow> sched \<Rightarrow> bool" where
  "scheduler_waits r i s \<longleftrightarrow> (\<exists>c rs fs d. sched_rep s (Some c) rs fs \<and> scheduler_thread s = Some d \<and>
     saved s d = r \<and> snd (t_sp (threads s d)) + 15 = i)"

lemma waits_keeps:
  assumes "sched_rep s' (Some c) rs fs" "keeps A s s'" "scheduler_thread s = Some d" "saved s d = r"
    "snd (t_sp (threads s d)) + 15 = i"
  shows "scheduler_waits r i s'"
  unfolding scheduler_waits_def
  by (rule exI [of _ c], rule exI [of _ rs], rule exI [of _ fs], rule exI [of _ d])
    (use assms in \<open>simp add: keeps_def\<close>)

lemma thread_step_waits:
  assumes "thread_step s s'" "scheduler_waits r i s"
  shows "scheduler_waits r i s'"
proof -
  obtain c rs fs d where q: "sched_rep s (Some c) rs fs"
    and d: "scheduler_thread s = Some d" "saved s d = r" "snd (t_sp (threads s d)) + 15 = i"
    using assms(2) by (auto simp: scheduler_waits_def)
  from assms(1) show ?thesis
  proof cases
    case (compute rs' i' c' m)
    then have "sched_rep s' (Some c) rs fs" "keeps {} s s'"
      using q by (auto simp: sched_rep_def keeps_def saved_def)
    then show ?thesis using waits_keeps d by blast
  next
    case yield
    show ?thesis
    proof (cases rs)
      case Nil
      then have "Q_pop (runq s) (threads s) = Inr (None, runq s)" using q lq.pop_Nil by (auto simp: sched_rep_def)
      then have "s' = s" using yield by (simp add: rpi_yield_def)
      then show ?thesis using assms(2) by simp
    next
      case (Cons p rs')
      then show ?thesis using yield_rep [of s c p rs' fs] q yield waits_keeps d by fastforce
    qed
  next
    case (fork tr code arg t)
    then show ?thesis using fork_rep [OF q, of tr code arg] waits_keeps d by fastforce
  next
    case exit
    then obtain p rs' where "rs = p # rs'" using q by (cases rs) (auto simp: sched_rep_def Q_rep_def)
    then show ?thesis using exit_rep [of s c p rs' fs] q exit waits_keeps d by fastforce
  qed
qed

lemma thread_steps_wait: "thread_step\<^sup>*\<^sup>* s s' \<Longrightarrow> scheduler_waits r i s \<Longrightarrow> scheduler_waits r i s'"
  by (induction rule: rtranclp_induct) (auto intro: thread_step_waits)

text \<open>
  C16: \<open>rpi_thread_start\<close>, called on the boot stack with waiting threads, starts the first of them, and
  whatever the threads then do, the exit of the last one switches back to the caller of
  \<open>rpi_thread_start\<close> with the registers and the stack pointer of the call.
\<close>

theorem thread_start_returns:
  assumes "sched_rep s None (p # rs) fs" "scheduler_thread s = None"
    and "rpi_thread_start False s = Inr s1" "thread_step\<^sup>*\<^sup>* s1 s2" "Q_head (runq s2) = None"
  shows "cur_thread s1 = Some p \<and> regs s1 = saved s p \<and>
    (\<exists>s3. rpi_exit s2 = Inr s3 \<and> cur_thread s3 = scheduler_thread s3 \<and> regs s3 = regs s \<and> cpu_sp s3 = cpu_sp s)"
proof -
  obtain d where r1: "sched_rep s1 (Some p) rs (tl fs)" and d: "scheduler_thread s1 = Some d" "saved s1 d = regs s"
    "snd (t_sp (threads s1 d)) + 15 = snd (cpu_sp s)" and g: "regs s1 = saved s p"
    using start_rep [OF assms(1,2)] assms(3) by auto
  have "scheduler_waits (regs s) (snd (cpu_sp s)) s1"
    unfolding scheduler_waits_def using r1 d by blast
  then have "scheduler_waits (regs s) (snd (cpu_sp s)) s2" using thread_steps_wait [OF assms(4)] by blast
  then obtain c rs2 fs2 e where r2: "sched_rep s2 (Some c) rs2 fs2" and e: "scheduler_thread s2 = Some e"
    "saved s2 e = regs s" "snd (t_sp (threads s2 e)) + 15 = snd (cpu_sp s)"
    by (auto simp: scheduler_waits_def)
  have "rs2 = []" using r2 assms(5) by (cases rs2) (auto simp: sched_rep_def Q_rep_def)
  then obtain s3 where s3: "rpi_exit s2 = Inr s3" "cur_thread s3 = Some e" "scheduler_thread s3 = Some e" "regs s3 = regs s"
    "cpu_sp s3 = (None, snd (cpu_sp s))"
    using exit_last_rep [OF _ e(1)] r2 e by auto
  moreover have "fst (cpu_sp s) = None" using assms(1) by (simp add: sched_rep_def)
  ultimately show ?thesis using r1 g s3 by (auto simp: sched_rep_def prod_eq_iff)
qed

definition boot_sched :: sched where
  "boot_sched = \<lparr>runq = \<lparr>Q_head = Some 1, Q_tail = Some 1, Q_n = 0\<rparr>, freeq = \<lparr>Q_head = None, Q_tail = None, Q_n = 0\<rparr>,
     nthreads = 1, cur_thread = None, scheduler_thread = None,
     threads = (\<lambda>t. if t = 1 then \<lparr>t_next = None, t_sp = (Some 1, 8176), t_tid = 0\<rparr> else zero_thread),
     smem = (\<lambda>_ _. 5), fresh = 2, regs = replicate 15 9, cpu_sp = (None, 200)\<rparr>"

theorem thread_start_returns_witness:
  "\<exists>s1 s3. rpi_thread_start False boot_sched = Inr s1 \<and> rpi_exit s1 = Inr s3
     \<and> regs s3 = replicate 15 9 \<and> cpu_sp s3 = (None, 200)"
proof -
  have r: "sched_rep boot_sched None [1] []" "scheduler_thread boot_sched = None"
    by (simp_all add: sched_rep_def boot_sched_def Q_rep_def all_threads_def)
  obtain s1 where s1: "rpi_thread_start False boot_sched = Inr s1" "sched_rep s1 (Some 1) [] []"
    using start_rep [OF r] by auto
  then have "Q_head (runq s1) = None" by (simp add: sched_rep_def Q_rep_def)
  from thread_start_returns [OF r s1(1) _ this] s1(1) show ?thesis by (auto simp: boot_sched_def)
qed

end
