(* ===== verification/Pi_Io.thy ===== *)
theory Pi_Io
  imports Pi_Prelude
begin

text \<open>
  Programs that talk over a serial line, one byte at a time (\<open>uart_getc\<close>, \<open>uart_putc\<close> on the Pi,
  \<open>read\<close>, \<open>write\<close> of one byte on the Unix side), and two such programs connected by a reliable
  line with unbounded buffers. A get blocks while no byte has arrived, so the system has many
  interleavings; \<open>dstep_converges\<close> shows that they all end in the same state.
\<close>

section \<open>Byte programs\<close>

datatype 'a io = Ret 'a | GetByte "u8 \<Rightarrow> 'a io" | PutByte u8 "'a io"

primrec io_bind :: "'a io \<Rightarrow> ('a \<Rightarrow> 'b io) \<Rightarrow> 'b io" where
  "io_bind (Ret a) k = k a"
| "io_bind (GetByte f) k = GetByte (\<lambda>b. io_bind (f b) k)"
| "io_bind (PutByte b p) k = PutByte b (io_bind p k)"

text \<open>Running one program on given input: its result, what it wrote, and the input left.\<close>

primrec run_io :: "'a io \<Rightarrow> u8 list \<Rightarrow> ('a \<times> u8 list \<times> u8 list) option" where
  "run_io (Ret a) inp = Some (a, [], inp)"
| "run_io (GetByte f) inp = (case inp of [] \<Rightarrow> None | b # bs \<Rightarrow> run_io (f b) bs)"
| "run_io (PutByte b p) inp = map_option (\<lambda>(a, out, rest). (a, b # out, rest)) (run_io p inp)"

definition get_uint :: "(u32 \<Rightarrow> 'a io) \<Rightarrow> 'a io" where
  "get_uint k =
     GetByte (\<lambda>b0. GetByte (\<lambda>b1. GetByte (\<lambda>b2. GetByte (\<lambda>b3.
       k (ucast b0 OR push_bit 8 (ucast b1) OR push_bit 16 (ucast b2) OR push_bit 24 (ucast b3))))))"

definition put_uint :: "u32 \<Rightarrow> 'a io \<Rightarrow> 'a io" where
  "put_uint u p =
     PutByte (ucast (drop_bit 0 u AND 0xff)) (PutByte (ucast (drop_bit 8 u AND 0xff))
       (PutByte (ucast (drop_bit 16 u AND 0xff)) (PutByte (ucast (drop_bit 24 u AND 0xff)) p)))"

lemma uint_of_bytes:
  "ucast b0 OR push_bit 8 (ucast b1) OR push_bit 16 (ucast b2) OR push_bit 24 (ucast b3)
     = bytes_word [b0, b1, b2, b3]"
  by (rule bit_word_eqI) (auto simp: bit_simps)

lemma low_byte: "ucast (x AND 0xff) = (ucast x :: u8)" for x :: u32
proof -
  have "x AND 0xff = take_bit 8 x" by (simp add: take_bit_eq_mask mask_eq_exp_minus_1)
  then show ?thesis by (simp only:) (rule bit_word_eqI, simp add: bit_simps)
qed

lemma put_uint_eq:
  "put_uint u p = PutByte (ucast u) (PutByte (ucast (drop_bit 8 u))
     (PutByte (ucast (drop_bit 16 u)) (PutByte (ucast (drop_bit 24 u)) p)))"
  by (simp add: put_uint_def low_byte)

lemma io_bind_put [simp]: "io_bind (put_uint u p) k = put_uint u (io_bind p k)"
  by (simp add: put_uint_def)

lemma io_bind_get [simp]: "io_bind (get_uint f) k = get_uint (\<lambda>u. io_bind (f u) k)"
  by (simp add: get_uint_def)

lemma bytes_word_4: "bytes_word [ucast u, ucast (drop_bit 8 u), ucast (drop_bit 16 u), ucast (drop_bit 24 u)] = u"
  using bytes_word_bytes [of u] by (simp only: word_bytes_def)

lemma run_get_uint [simp]: "run_io (get_uint f) (word_bytes u @ inp) = run_io (f u) inp"
  by (simp add: get_uint_def uint_of_bytes bytes_word_4 word_bytes_def del: bytes_word.simps)

lemma run_put_uint [simp]:
  "run_io (put_uint u p) inp = map_option (\<lambda>(a, out, rest). (a, word_bytes u @ out, rest)) (run_io p inp)"
  by (cases "run_io p inp") (auto simp: put_uint_eq word_bytes_def)

lemma run_io_bind:
  "run_io (io_bind p k) inp =
     (case run_io p inp of None \<Rightarrow> None
      | Some (a, out, rest) \<Rightarrow> map_option (\<lambda>(b, out', rest'). (b, out @ out', rest')) (run_io (k a) rest))"
proof (induction p arbitrary: inp)
  case (Ret a)
  then show ?case by (cases "run_io (k a) inp") auto
next
  case (GetByte f)
  then show ?case by (cases inp) auto
next
  case (PutByte b p)
  then show ?case
    by (cases "run_io p inp") (auto simp: option.map_comp comp_def split_def split: option.splits)
qed

section \<open>Two programs on a line\<close>

type_synonym ('a, 'b) link = "'a io \<times> 'b io \<times> u8 list \<times> u8 list"

inductive left_step :: "('a, 'b) link \<Rightarrow> ('a, 'b) link \<Rightarrow> bool" where
  put: "left_step (PutByte b p, q, lr, rl) (p, q, lr @ [b], rl)"
| get: "left_step (GetByte f, q, lr, b # rl) (f b, q, lr, rl)"

inductive right_step :: "('a, 'b) link \<Rightarrow> ('a, 'b) link \<Rightarrow> bool" where
  put: "right_step (p, PutByte b q, lr, rl) (p, q, lr, rl @ [b])"
| get: "right_step (p, GetByte g, b # lr, rl) (p, g b, lr, rl)"

definition dstep :: "('a, 'b) link \<Rightarrow> ('a, 'b) link \<Rightarrow> bool" where
  "dstep c c' \<longleftrightarrow> left_step c c' \<or> right_step c c'"

inductive_cases left_stepE [elim!]: "left_step (p, q, lr, rl) c"
inductive_cases right_stepE [elim!]: "right_step (p, q, lr, rl) c"

inductive_simps left_step_simps [simp]:
  "left_step (PutByte b p, q, lr, rl) c" "left_step (GetByte f, q, lr, b # rl) c"
  "left_step (GetByte f, q, lr, []) c" "left_step (Ret a, q, lr, rl) c"
inductive_simps right_step_simps [simp]:
  "right_step (p, PutByte b q, lr, rl) c" "right_step (p, GetByte g, b # lr, rl) c"
  "right_step (p, GetByte g, [], rl) c" "right_step (p, Ret a, lr, rl) c"

lemma left_det: "left_step c c1 \<Longrightarrow> left_step c c2 \<Longrightarrow> c1 = c2"
  by (cases c) auto

lemma right_det: "right_step c c1 \<Longrightarrow> right_step c c2 \<Longrightarrow> c1 = c2"
  by (cases c) auto

lemma left_right_commute: "left_step c c1 \<Longrightarrow> right_step c c2 \<Longrightarrow> \<exists>d. right_step c1 d \<and> left_step c2 d"
  by (cases c) auto

lemma dstep_diamond: "dstep c c1 \<Longrightarrow> dstep c c2 \<Longrightarrow> c1 = c2 \<or> (\<exists>d. dstep c1 d \<and> dstep c2 d)"
  unfolding dstep_def using left_det right_det left_right_commute by blast

lemma diamond_run:
  "(dstep ^^ n) c t \<Longrightarrow> \<nexists>t'. dstep t t' \<Longrightarrow> dstep c c' \<Longrightarrow> \<exists>m. n = Suc m \<and> (dstep ^^ m) c' t"
proof (induction n arbitrary: c c')
  case (Suc n)
  obtain c1 where c1: "dstep c c1" "(dstep ^^ n) c1 t" using Suc.prems(1) by (metis relpowp_Suc_D2)
  from dstep_diamond [OF c1(1) Suc.prems(3)] show ?case
  proof
    assume "\<exists>d. dstep c1 d \<and> dstep c' d"
    then obtain d where d: "dstep c1 d" "dstep c' d" by blast
    from Suc.IH [OF c1(2) Suc.prems(2) d(1)] obtain m where "n = Suc m" "(dstep ^^ m) d t" by blast
    then show ?thesis using relpowp_Suc_I2 [where P = dstep, OF d(2)] by metis
  qed (use c1 in auto)
qed auto

text \<open>If one interleaving ends, all runs end, in the same state and after as many steps.\<close>

lemma dstep_converges:
  assumes "dstep\<^sup>*\<^sup>* c t" "\<nexists>t'. dstep t t'"
  shows "\<exists>n. \<forall>c' m. (dstep ^^ m) c c' \<longrightarrow> m \<le> n \<and> (dstep ^^ (n - m)) c' t"
proof -
  obtain n where n: "(dstep ^^ n) c t" using assms(1) by (metis rtranclp_power)
  have "m \<le> n \<and> (dstep ^^ (n - m)) c' t" if "(dstep ^^ m) c c'" for m c'
    using that
  proof (induction m arbitrary: c')
    case 0
    then show ?case using n by simp
  next
    case (Suc m)
    then obtain c1 where c1: "(dstep ^^ m) c c1" "dstep c1 c'" by auto
    then have le: "m \<le> n" and r: "(dstep ^^ (n - m)) c1 t" using Suc.IH by auto
    from diamond_run [OF r assms(2) c1(2)] show ?case by (metis Suc_diff_Suc Suc_leI Suc_inject diff_is_0_eq le le_neq_implies_less nat.distinct(1))
  qed
  then show ?thesis by blast
qed

definition converges :: "('a, 'b) link \<Rightarrow> ('a, 'b) link \<Rightarrow> bool" where
  "converges c t \<longleftrightarrow> (\<nexists>t'. dstep t t') \<and>
     (\<exists>n. \<forall>c' m. (dstep ^^ m) c c' \<longrightarrow> m \<le> n \<and> (dstep ^^ (n - m)) c' t)"

lemma convergesI: "dstep\<^sup>*\<^sup>* c (Ret a, Ret b, lr, rl) \<Longrightarrow> converges c (Ret a, Ret b, lr, rl)"
  unfolding converges_def by (intro conjI dstep_converges) (auto simp: dstep_def)

section \<open>Runs of 32-bit transfers\<close>

lemma left_put: "dstep\<^sup>*\<^sup>* (put_uint u p, q, lr, rl) (p, q, lr @ word_bytes u, rl)"
proof -
  have s: "dstep (PutByte b p', q, l, rl) (p', q, l @ [b], rl)" for b p' l
    by (simp add: dstep_def left_step.put)
  show ?thesis unfolding put_uint_eq word_bytes_def
    by (rule converse_rtranclp_into_rtranclp [where r = dstep, OF s])+ simp
qed

lemma right_put: "dstep\<^sup>*\<^sup>* (p, put_uint u q, lr, rl) (p, q, lr, rl @ word_bytes u)"
proof -
  have s: "dstep (p, PutByte b q', lr, l) (p, q', lr, l @ [b])" for b q' l
    by (simp add: dstep_def right_step.put)
  show ?thesis unfolding put_uint_eq word_bytes_def
    by (rule converse_rtranclp_into_rtranclp [where r = dstep, OF s])+ simp
qed

lemma left_get: "dstep\<^sup>*\<^sup>* (get_uint f, q, lr, word_bytes u @ rl) (f u, q, lr, rl)"
proof -
  have s: "dstep (GetByte f', q, lr, b # l) (f' b, q, lr, l)" for b l and f' :: "u8 \<Rightarrow> 'a io"
    by (simp add: dstep_def left_step.get)
  have "dstep\<^sup>*\<^sup>* (get_uint f, q, lr, [b0, b1, b2, b3] @ rl) (f (bytes_word [b0, b1, b2, b3]), q, lr, rl)" for b0 b1 b2 b3
    unfolding get_uint_def uint_of_bytes append_Cons append_Nil
    by (rule converse_rtranclp_into_rtranclp [where r = dstep, OF s])+ simp
  from this [of "ucast u" "ucast (drop_bit 8 u)" "ucast (drop_bit 16 u)" "ucast (drop_bit 24 u)"]
  show ?thesis by (simp only: bytes_word_4 word_bytes_def)
qed

lemma right_get: "dstep\<^sup>*\<^sup>* (p, get_uint f, word_bytes u @ lr, rl) (p, f u, lr, rl)"
proof -
  have s: "dstep (p, GetByte f', b # l, rl) (p, f' b, l, rl)" for b l and f' :: "u8 \<Rightarrow> 'b io"
    by (simp add: dstep_def right_step.get)
  have "dstep\<^sup>*\<^sup>* (p, get_uint f, [b0, b1, b2, b3] @ lr, rl) (p, f (bytes_word [b0, b1, b2, b3]), lr, rl)" for b0 b1 b2 b3
    unfolding get_uint_def uint_of_bytes append_Cons append_Nil
    by (rule converse_rtranclp_into_rtranclp [where r = dstep, OF s])+ simp
  from this [of "ucast u" "ucast (drop_bit 8 u)" "ucast (drop_bit 16 u)" "ucast (drop_bit 24 u)"]
  show ?thesis by (simp only: bytes_word_4 word_bytes_def)
qed

end
