(* ===== verification/Pi_Boot.thy ===== *)
theory Pi_Boot
  imports Pi_Io Pi_Crc32
begin

text \<open>
  Loading code over the serial line: the bootloader (pi-side/bootloader/bootloader.c) with its Unix
  counterpart (unix-side/support/simple-boot.c), and the loader of the kernel's shell
  (pi-side/kernel/loader.c) with \<open>send_prog\<close> of unix-side/shell/shell.c. The counter of the receive
  loops is an \<open>int\<close>; the model counts in \<open>nat\<close>, which agrees for images below 2 GiB.
\<close>

section \<open>Protocol constants (simple-boot.h, shell.h)\<close>

definition ARMBASE :: u32 where "ARMBASE = 0x8000"
definition SOH :: u32 where "SOH = 0x12345678"
definition ACK :: u32 where "ACK = 5"
definition NAK :: u32 where "NAK = 6"
definition EOT :: u32 where "EOT = 7"
definition LAST_USED_ADDRESSES :: u32 where "LAST_USED_ADDRESSES = 0x9000000"
definition MAX_ADDRESS :: u32 where "MAX_ADDRESS = 0x16000000"
definition PROTOCOL_VERSION :: u32 where "PROTOCOL_VERSION = 2"

section \<open>The Pi's side\<close>

function recv_words :: "nat \<Rightarrow> nat \<Rightarrow> u32 \<Rightarrow> mem \<Rightarrow> mem io" where
  "recv_words i n addr m =
     (if i < n then get_uint (\<lambda>u. recv_words (i + 4) n addr (PUT32 m (addr + of_nat i) u)) else Ret m)"
  by pat_completeness auto
termination
  by (relation "measure (\<lambda>(i, n, addr, m). n - i)") auto

definition receive_image :: "mem \<Rightarrow> (u32 \<times> mem) io" where
  "receive_image m =
     get_uint (\<lambda>s. if s \<noteq> SOH then Ret (NAK, m) else
     get_uint (\<lambda>size.
     get_uint (\<lambda>code_checksum.
       let size_checksum = crc32 (word_bytes size) in
       put_uint SOH (put_uint size_checksum (put_uint code_checksum (
       get_uint (\<lambda>a. if a \<noteq> ACK then Ret (NAK, m) else
       io_bind (recv_words 0 (unat size) ARMBASE m) (\<lambda>m.
       get_uint (\<lambda>e. if e \<noteq> EOT then Ret (NAK, m) else
       if crc32 (load_bytes m ARMBASE (unat size)) \<noteq> code_checksum then Ret (NAK, m)
       else Ret (ACK, m))))))))))"

text \<open>
  \<open>notmain\<close> of the bootloader repeats until an image has been accepted and then jumps to it;
  the model bounds the number of attempts and returns the memory the image starts in.
\<close>

fun boot_loop :: "nat \<Rightarrow> mem \<Rightarrow> mem option io" where
  "boot_loop 0 m = Ret None"
| "boot_loop (Suc n) m =
     io_bind (receive_image m) (\<lambda>(response, m).
       put_uint response (if response \<noteq> ACK then boot_loop n m else Ret (Some m)))"

definition load_code :: "mem \<Rightarrow> (u32 \<times> mem) io" where
  "load_code m =
     put_uint ACK (
     get_uint (\<lambda>version.
     get_uint (\<lambda>addr.
     get_uint (\<lambda>nbytes.
     get_uint (\<lambda>checksum.
       if version \<noteq> PROTOCOL_VERSION then put_uint NAK (Ret (0, m))
       else if addr < LAST_USED_ADDRESSES \<or> addr + nbytes > MAX_ADDRESS then put_uint NAK (Ret (0, m))
       else if nbytes mod 4 \<noteq> 0 then put_uint NAK (Ret (0, m))
       else put_uint ACK (
         io_bind (recv_words 0 (unat nbytes) addr m) (\<lambda>m.
         get_uint (\<lambda>e. if e \<noteq> EOT then put_uint NAK (Ret (0, m))
         else if crc32 (load_bytes m addr (unat nbytes)) \<noteq> checksum then put_uint NAK (Ret (0, m))
         else put_uint ACK (Ret (addr + 8, m))))))))))"

section \<open>The Unix side\<close>

definition expect :: "u32 \<Rightarrow> unit res io \<Rightarrow> unit res io" where
  "expect v k = get_uint (\<lambda>x. if x \<noteq> v then put_uint NAK (Ret (Inl PanicFault)) else k)"

definition word_at :: "u8 list \<Rightarrow> nat \<Rightarrow> u32" where
  "word_at buf i = bytes_word (take 4 (drop (4 * i) buf))"

fun send_words :: "u32 list \<Rightarrow> 'a io \<Rightarrow> 'a io" where
  "send_words [] k = k"
| "send_words (w # ws) k = put_uint w (send_words ws k)"

definition simple_boot :: "u8 list \<Rightarrow> unit res io" where
  "simple_boot buf =
     (let n = (of_nat (length buf) :: u32) in
      if n mod 4 \<noteq> 0 then Ret (Inl PanicFault)
      else
        let n_words = unat (n div 4);
            code_checksum = crc32 buf;
            size_checksum = crc32 (word_bytes n) in
        put_uint SOH (put_uint n (put_uint code_checksum (
        expect SOH (expect size_checksum (expect code_checksum (
        put_uint ACK (
        send_words (map (word_at buf) [0..<n_words]) (
        put_uint EOT (
        expect ACK (Ret (Inr ())))))))))))) "

definition expect_val :: "u32 \<Rightarrow> unit res io \<Rightarrow> unit res io" where
  "expect_val v k = get_uint (\<lambda>got. if v \<noteq> got then Ret (Inl PanicFault) else k)"

text \<open>\<open>send_prog\<close> on the contents \<open>code\<close> of the program's file.\<close>

definition send_prog :: "u8 list \<Rightarrow> unit res io" where
  "send_prog code =
     (let nbytes = (of_nat (length code) :: u32) in
      if nbytes mod 4 \<noteq> 0 then Ret (Inl AssertFault)
      else expect_val ACK (
        if length code < 8 then Ret (Inl BadAccess)
        else
          put_uint (word_at code 0) (put_uint (word_at code 1) (put_uint nbytes (put_uint (crc32 code) (
          expect_val ACK (
          send_words (map (word_at code) [0..<unat (nbytes div 4)]) (
          put_uint EOT (
          expect_val ACK (Ret (Inr ()))))))))))) "

section \<open>Blocks of words\<close>

declare recv_words.simps [simp del]

lemma concat_word_at:
  "4 * k \<le> length buf \<Longrightarrow> concat (map word_bytes (map (word_at buf) [0..<k])) = take (4 * k) buf"
proof (induction k)
  case (Suc k)
  have "word_bytes (word_at buf k) = take 4 (drop (4 * k) buf)"
    using Suc.prems by (simp add: word_at_def word_bytes_bytes)
  moreover have "take (4 * Suc k) buf = take (4 * k) buf @ take 4 (drop (4 * k) buf)"
    by (simp add: take_add [symmetric] add.commute)
  ultimately show ?case using Suc by simp
qed simp

lemma length_concat_words: "length (concat (map word_bytes ws)) = 4 * length ws"
  by (induction ws) simp_all

lemma bind_recv_step:
  "io_bind (recv_words i n addr m) k =
     (if i < n then get_uint (\<lambda>u. io_bind (recv_words (i + 4) n addr (PUT32 m (addr + of_nat i) u)) k) else k m)"
  by (subst recv_words.simps) simp

lemma store_words_step:
  "i + 4 * Suc (length ws) \<le> 4294967296 \<Longrightarrow>
   store_bytes (PUT32 m (addr + of_nat i) w) (addr + of_nat (i + 4)) (concat (map word_bytes ws)) =
   store_bytes m (addr + of_nat i) (concat (map word_bytes (w # ws)))"
  using store_bytes_append [of "word_bytes w" "concat (map word_bytes ws)" m "addr + of_nat i"]
  by (simp add: PUT32_def length_concat_words algebra_simps)

lemma right_recv:
  "i + 4 * length ws \<le> 4294967296 \<Longrightarrow>
   dstep\<^sup>*\<^sup>* (p, io_bind (recv_words i (i + 4 * length ws) addr m) k, concat (map word_bytes ws) @ lr, rl)
     (p, k (store_bytes m (addr + of_nat i) (concat (map word_bytes ws))), lr, rl)"
proof (induction ws arbitrary: i m)
  case Nil
  then show ?case by (simp add: bind_recv_step)
next
  case (Cons w ws)
  let ?f = "\<lambda>u. io_bind (recv_words (i + 4) (i + 4 * length (w # ws)) addr (PUT32 m (addr + of_nat i) u)) k"
  have g: "dstep\<^sup>*\<^sup>* (p, get_uint ?f, word_bytes w @ concat (map word_bytes ws) @ lr, rl)
     (p, ?f w, concat (map word_bytes ws) @ lr, rl)" by (rule right_get)
  have r: "dstep\<^sup>*\<^sup>* (p, ?f w, concat (map word_bytes ws) @ lr, rl)
     (p, k (store_bytes m (addr + of_nat i) (concat (map word_bytes (w # ws)))), lr, rl)"
    using Cons.IH [of "i + 4" "PUT32 m (addr + of_nat i) w"] Cons.prems store_words_step [of i ws m addr w]
    by (simp add: algebra_simps)
  show ?case using rtranclp_trans [OF g r] by (simp add: bind_recv_step [of i])
qed

lemma run_recv:
  "i + 4 * length ws \<le> 4294967296 \<Longrightarrow>
   run_io (io_bind (recv_words i (i + 4 * length ws) addr m) k) (concat (map word_bytes ws) @ inp) =
   run_io (k (store_bytes m (addr + of_nat i) (concat (map word_bytes ws)))) inp"
proof (induction ws arbitrary: i m)
  case Nil
  then show ?case by (simp add: bind_recv_step)
next
  case (Cons w ws)
  then show ?case
    using Cons.IH [of "i + 4" "PUT32 m (addr + of_nat i) w"] store_words_step [of i ws m addr w]
    by (simp add: bind_recv_step [of i] algebra_simps)
qed

lemma left_send:
  "dstep\<^sup>*\<^sup>* (send_words ws p, q, lr, rl) (p, q, lr @ concat (map word_bytes ws), rl)"
proof (induction ws arbitrary: lr)
  case (Cons w ws)
  have g: "dstep\<^sup>*\<^sup>* (send_words (w # ws) p, q, lr, rl) (send_words ws p, q, lr @ word_bytes w, rl)"
    by (simp add: left_put)
  have r: "dstep\<^sup>*\<^sup>* (send_words ws p, q, lr @ word_bytes w, rl) (p, q, lr @ concat (map word_bytes (w # ws)), rl)"
    using Cons.IH [of "lr @ word_bytes w"] by simp
  show ?case by (rule rtranclp_trans [OF g r])
qed simp

lemma step_lp: "dstep\<^sup>*\<^sup>* (p, q, lr @ word_bytes u, rl) t \<Longrightarrow> dstep\<^sup>*\<^sup>* (put_uint u p, q, lr, rl) t"
  by (rule rtranclp_trans [OF left_put])

lemma step_rp: "dstep\<^sup>*\<^sup>* (p, q, lr, rl @ word_bytes u) t \<Longrightarrow> dstep\<^sup>*\<^sup>* (p, put_uint u q, lr, rl) t"
  by (rule rtranclp_trans [OF right_put])

lemma step_lg: "dstep\<^sup>*\<^sup>* (f u, q, lr, rl) t \<Longrightarrow> dstep\<^sup>*\<^sup>* (get_uint f, q, lr, word_bytes u @ rl) t"
  by (rule rtranclp_trans [OF left_get])

lemma step_rg: "dstep\<^sup>*\<^sup>* (p, f u, lr, rl) t \<Longrightarrow> dstep\<^sup>*\<^sup>* (p, get_uint f, word_bytes u @ lr, rl) t"
  by (rule rtranclp_trans [OF right_get])

lemma step_ls: "dstep\<^sup>*\<^sup>* (p, q, lr @ concat (map word_bytes ws), rl) t \<Longrightarrow> dstep\<^sup>*\<^sup>* (send_words ws p, q, lr, rl) t"
  by (rule rtranclp_trans [OF left_send])

lemma step_expect: "dstep\<^sup>*\<^sup>* (k, q, lr, rl) t \<Longrightarrow> dstep\<^sup>*\<^sup>* (expect v k, q, lr, word_bytes v @ rl) t"
  unfolding expect_def by (rule step_lg) simp

lemma step_expect_val: "dstep\<^sup>*\<^sup>* (k, q, lr, rl) t \<Longrightarrow> dstep\<^sup>*\<^sup>* (expect_val v k, q, lr, word_bytes v @ rl) t"
  unfolding expect_val_def by (rule step_lg) simp

lemma step_recv:
  assumes "length buf = 4 * length ws" "buf = concat (map word_bytes ws)" "length buf < 4294967296"
    "dstep\<^sup>*\<^sup>* (p, k (store_bytes m addr buf), lr, rl) t"
  shows "dstep\<^sup>*\<^sup>* (p, io_bind (recv_words 0 (length buf) addr m) k, buf @ lr, rl) t"
proof -
  have "dstep\<^sup>*\<^sup>* (p, io_bind (recv_words 0 (0 + 4 * length ws) addr m) k, concat (map word_bytes ws) @ lr, rl)
     (p, k (store_bytes m (addr + of_nat 0) (concat (map word_bytes ws))), lr, rl)"
    using assms(1,3) by (intro right_recv) simp
  then have "dstep\<^sup>*\<^sup>* (p, io_bind (recv_words 0 (length buf) addr m) k, buf @ lr, rl)
     (p, k (store_bytes m addr buf), lr, rl)"
    using assms(1) by (simp flip: assms(2))
  then show ?thesis using assms(4) by (rule rtranclp_trans)
qed

lemma step_rg0: "dstep\<^sup>*\<^sup>* (p, f u, [], rl) t \<Longrightarrow> dstep\<^sup>*\<^sup>* (p, get_uint f, word_bytes u, rl) t"
  using step_rg [of p f u "[]"] by simp

lemma step_expect0: "dstep\<^sup>*\<^sup>* (k, q, lr, []) t \<Longrightarrow> dstep\<^sup>*\<^sup>* (expect v k, q, lr, word_bytes v) t"
  using step_expect [of k q lr "[]"] by simp

lemma step_expect_val0: "dstep\<^sup>*\<^sup>* (k, q, lr, []) t \<Longrightarrow> dstep\<^sup>*\<^sup>* (expect_val v k, q, lr, word_bytes v) t"
  using step_expect_val [of k q lr "[]"] by simp

lemma io_bind_assoc: "io_bind (io_bind p f) g = io_bind p (\<lambda>x. io_bind (f x) g)"
  by (induction p) simp_all

section \<open>The bootloader delivers\<close>

definition words_of :: "u8 list \<Rightarrow> u32 list" where
  "words_of buf = map (word_at buf) [0..<length buf div 4]"

lemma words_of_concat: "4 dvd length buf \<Longrightarrow> concat (map word_bytes (words_of buf)) = buf"
  unfolding words_of_def by (subst concat_word_at) auto

lemma length_words_of: "4 dvd length buf \<Longrightarrow> length buf = 4 * length (words_of buf)"
  by (simp add: words_of_def)

lemma size_word:
  assumes "length buf < 4294967296" "4 dvd length buf"
  shows "unat (of_nat (length buf) :: u32) = length buf" "(of_nat (length buf) :: u32) mod 4 = 0"
    "unat ((of_nat (length buf) :: u32) div 4) = length buf div 4"
proof -
  show u: "unat (of_nat (length buf) :: u32) = length buf" using assms(1) by (rule unat_of_nat_u32)
  have "unat ((of_nat (length buf) :: u32) mod 4) = 0" using assms(2) u by (simp add: unat_mod_distrib)
  then show "(of_nat (length buf) :: u32) mod 4 = 0" by (simp only: unat_eq_zero)
  show "unat ((of_nat (length buf) :: u32) div 4) = length buf div 4" using u by (simp add: unat_div_distrib)
qed

lemma simple_boot_eq:
  assumes "length buf < 4294967296" "4 dvd length buf"
  shows "simple_boot buf =
    put_uint SOH (put_uint (of_nat (length buf)) (put_uint (crc32 buf) (
    expect SOH (expect (crc32 (word_bytes (of_nat (length buf)))) (expect (crc32 buf) (
    put_uint ACK (send_words (words_of buf) (put_uint EOT (expect ACK (Ret (Inr ()))))))))))) "
  using size_word [OF assms] by (simp add: simple_boot_def words_of_def Let_def)

lemma boot_run:
  assumes "4 dvd length buf" "length buf < 4294967296"
  shows "converges (simple_boot buf, boot_loop (Suc k) m, [], []) (Ret (Inr ()), Ret (Some (store_bytes m ARMBASE buf)), [], [])"
proof -
  let ?n = "of_nat (length buf) :: u32"
  note sz = size_word [OF assms(2,1)]
  note ws = length_words_of [OF assms(1)] words_of_concat [OF assms(1)]
  let ?m = "store_bytes m ARMBASE buf"
  have ld: "load_bytes ?m ARMBASE (length buf) = buf" using assms(2) by simp
  have "dstep\<^sup>*\<^sup>* (simple_boot buf, boot_loop (Suc k) m, [], [])
      (Ret (Inr ()), Ret (Some ?m), [], [])"
    unfolding simple_boot_eq [OF assms(2,1)]
    apply (rule step_lp)+
    apply (simp add: receive_image_def Let_def)
    apply (rule step_rg, simp)
    apply (rule step_rg)
    apply (rule step_rg0)
    apply (rule step_rp)+
    apply simp
    apply (rule step_expect)+
    apply (rule step_expect0)
    apply (rule step_lp step_ls)+
    apply simp
    apply (rule step_rg, simp add: io_bind_assoc ws(2) sz(1))
    apply (rule step_recv [OF ws(1) ws(2) [symmetric] assms(2)])
    apply (rule step_rg0, simp add: ld sz(1))
    apply (rule step_rp, simp)
    apply (rule step_expect0)
    apply simp
    done
  then show ?thesis by (rule convergesI)
qed

text \<open>
  C4: over a reliable line, \<open>simple_boot\<close> on the Unix side and the bootloader on the Pi always finish,
  in every interleaving, in the same state: the Unix side has seen the acknowledgement, the
  Pi is about to start a memory that holds the image at \<open>ARMBASE\<close> and is otherwise unchanged,
  and no byte is left on the line.
\<close>

theorem boot_delivers:
  assumes "4 dvd length buf" "length buf < 4294967296"
  shows "converges (simple_boot buf, boot_loop (Suc k) m, [], [])
           (Ret (Inr ()), Ret (Some (store_bytes m ARMBASE buf)), [], [])
    \<and> load_bytes (store_bytes m ARMBASE buf) ARMBASE (length buf) = buf"
  using boot_run [OF assms] assms(2) by simp

theorem boot_delivers_witness:
  "converges (simple_boot [1, 2, 3, 4, 5, 6, 7, 8], boot_loop 1 (\<lambda>_. 0), [], [])
     (Ret (Inr ()), Ret (Some (store_bytes (\<lambda>_. 0) ARMBASE [1, 2, 3, 4, 5, 6, 7, 8])), [], [])"
proof -
  have "4 dvd length [1, 2, 3, 4, 5, 6, 7, 8 :: u8]" by (simp, presburger)
  then show ?thesis using boot_delivers [of "[1, 2, 3, 4, 5, 6, 7, 8]" 0 "\<lambda>_. 0"] by simp
qed

section \<open>The bootloader rejects corrupted transfers\<close>

lemma run_receive:
  assumes "4 dvd length buf" "length buf < 4294967296"
  shows "run_io (receive_image m)
      (word_bytes SOH @ word_bytes (of_nat (length buf)) @ word_bytes ck @ word_bytes ACK @ buf @ word_bytes EOT @ rest)
    = Some ((if crc32 buf = ck then ACK else NAK, store_bytes m ARMBASE buf),
        word_bytes SOH @ word_bytes (crc32 (word_bytes (of_nat (length buf)))) @ word_bytes ck, rest)"
proof -
  note ws = length_words_of [OF assms(1)] words_of_concat [OF assms(1)]
  have "run_io (io_bind (recv_words 0 (length buf) ARMBASE m) k) (buf @ inp)
      = run_io (k (store_bytes m ARMBASE buf)) inp" for k :: "mem \<Rightarrow> (u32 \<times> mem) io" and inp
    using run_recv [of 0 "words_of buf" ARMBASE m k inp] ws assms(2) by simp
  then show ?thesis
    using assms(2) size_word(1) [OF assms(2,1)] by (simp add: receive_image_def Let_def)
qed

text \<open>
  C19: corruption on the line is caught. If up to four consecutive bytes of the image arrive changed,
  the bootloader answers NAK and does not start the image; and if the size arrives changed, the
  echoed checksum tells the Unix side, which sends NAK and stops before it sends any code.
\<close>

theorem boot_rejects_corruption:
  assumes "length xs = length ys" "length xs \<le> 4" "xs \<noteq> ys"
    and "4 dvd length (pre @ xs @ post)" "length (pre @ xs @ post) < 4294967296" "n' \<noteq> of_nat (length (pre @ xs @ post))"
  shows "(\<exists>m' out. run_io (receive_image m)
        (word_bytes SOH @ word_bytes (of_nat (length (pre @ xs @ post))) @ word_bytes (crc32 (pre @ xs @ post)) @
         word_bytes ACK @ (pre @ ys @ post) @ word_bytes EOT @ rest) = Some ((NAK, m'), out, rest))
    \<and> (\<exists>out. run_io (simple_boot (pre @ xs @ post))
        (word_bytes SOH @ word_bytes (crc32 (word_bytes n')) @ rest)
        = Some (Inl PanicFault, word_bytes SOH @ word_bytes (of_nat (length (pre @ xs @ post))) @
            word_bytes (crc32 (pre @ xs @ post)) @ word_bytes NAK, rest))"
proof
  have len: "length (pre @ ys @ post) = length (pre @ xs @ post)" using assms(1) by simp
  have "crc32 (pre @ ys @ post) \<noteq> crc32 (pre @ xs @ post)"
    using crc32_word_inj [of ys xs pre post] assms(1-3) by simp
  then show "\<exists>m' out. run_io (receive_image m)
        (word_bytes SOH @ word_bytes (of_nat (length (pre @ xs @ post))) @ word_bytes (crc32 (pre @ xs @ post)) @
         word_bytes ACK @ (pre @ ys @ post) @ word_bytes EOT @ rest) = Some ((NAK, m'), out, rest)"
    using run_receive [of "pre @ ys @ post" m "crc32 (pre @ xs @ post)" rest] assms(4,5) unfolding len by simp
  have "crc32 (word_bytes n') \<noteq> crc32 (word_bytes (of_nat (length (pre @ xs @ post))))"
    using crc32_word_inj [of "word_bytes n'" "word_bytes (of_nat (length (pre @ xs @ post)))" "[]" "[]"] assms(6)
    by (metis append_Nil append_Nil2 bytes_word_bytes length_word_bytes order_refl)
  then show "\<exists>out. run_io (simple_boot (pre @ xs @ post))
        (word_bytes SOH @ word_bytes (crc32 (word_bytes n')) @ rest)
        = Some (Inl PanicFault, word_bytes SOH @ word_bytes (of_nat (length (pre @ xs @ post))) @
            word_bytes (crc32 (pre @ xs @ post)) @ word_bytes NAK, rest)"
    unfolding simple_boot_eq [OF assms(5,4)] by (simp add: expect_def del: length_append)
qed

theorem boot_rejects_corruption_witness:
  "\<exists>m' out. run_io (receive_image (\<lambda>_. 0))
     (word_bytes SOH @ word_bytes 8 @ word_bytes (crc32 [1, 2, 3, 4, 5, 6, 7, 8]) @ word_bytes ACK @
      [1, 2, 3, 4, 5, 6, 0x87, 8] @ word_bytes EOT) = Some ((NAK, m'), out, [])"
proof -
  have "4 dvd length ([1, 2, 3, 4, 5, 6] @ [7] @ [8 :: u8])" by (simp, presburger)
  then show ?thesis
    using boot_rejects_corruption [of "[7]" "[0x87]" "[1, 2, 3, 4, 5, 6]" "[8]" 12 "\<lambda>_. 0" "[]"] by simp
qed

section \<open>The kernel's loader\<close>


definition demo_prog :: "u8 list" where
  "demo_prog = word_bytes 2 @ word_bytes 0x9000000 @ word_bytes 0xE12FFF1E"


text \<open>The range check adds modulo \<open>2\<^sup>32\<close>: a range that wraps past the end of memory is accepted.\<close>

lemma load_code_accepts_wrapping_range:
  "\<exists>a ans. run_io (load_code m) (word_bytes 2 @ word_bytes 0xFFFFFFF8 @ word_bytes 0x10 @ word_bytes ck @
     concat (map word_bytes [w0, w1, w2, w3]) @ word_bytes EOT)
   = Some ((a, store_bytes m 0xFFFFFFF8 (concat (map word_bytes [w0, w1, w2, w3]))),
       word_bytes ACK @ word_bytes ACK @ word_bytes ans, [])"
proof -
  let ?b = "concat (map word_bytes [w0, w1, w2, w3])"
  have r: "run_io (io_bind (recv_words 0 16 0xFFFFFFF8 m) k) (?b @ inp) = run_io (k (store_bytes m 0xFFFFFFF8 ?b)) inp"
    for k :: "mem \<Rightarrow> (u32 \<times> mem) io" and inp
    using run_recv [of 0 "[w0, w1, w2, w3]" "0xFFFFFFF8" m k inp] by simp
  have e: "run_io (get_uint f) (word_bytes EOT) = run_io (f EOT) []" for f :: "u32 \<Rightarrow> (u32 \<times> mem) io"
    using run_get_uint [of f EOT "[]"] by simp
  show ?thesis
    by (simp add: load_code_def PROTOCOL_VERSION_def LAST_USED_ADDRESSES_def MAX_ADDRESS_def r e
        del: concat.simps list.map) auto
qed

end
