(* ===== verification/Pi_Utf8.thy ===== *)
theory Pi_Utf8
  imports Pi_Prelude
begin

text \<open>
  pi-side/kernel/disk/unicode-utf8.c: converting code points to UTF-8 and back. The loops over the
  table look for a null entry that the table does not have (its last element points to a zero
  structure), so a search that fails reads past the end: \<open>BadAccess\<close>. So does a shift by a
  negative amount, whose result C leaves undefined.
\<close>

section \<open>Model\<close>

record utf_t =
  u_mask :: u8
  u_lead :: u8
  u_beg :: u32
  u_end :: u32
  bits_stored :: int

definition utf :: "utf_t list" where
  "utf =
    [\<lparr>u_mask = 0x3F, u_lead = 0x80, u_beg = 0, u_end = 0, bits_stored = 6\<rparr>,
     \<lparr>u_mask = 0x7F, u_lead = 0x00, u_beg = 0, u_end = 0x7F, bits_stored = 7\<rparr>,
     \<lparr>u_mask = 0x1F, u_lead = 0xC0, u_beg = 0x80, u_end = 0x7FF, bits_stored = 5\<rparr>,
     \<lparr>u_mask = 0x0F, u_lead = 0xE0, u_beg = 0x800, u_end = 0xFFFF, bits_stored = 4\<rparr>,
     \<lparr>u_mask = 0x07, u_lead = 0xF0, u_beg = 0x10000, u_end = 0x10FFFF, bits_stored = 3\<rparr>,
     \<lparr>u_mask = 0, u_lead = 0, u_beg = 0, u_end = 0, bits_stored = 0\<rparr>]"

fun utf_scan :: "(utf_t \<Rightarrow> bool) \<Rightarrow> utf_t list \<Rightarrow> int \<Rightarrow> int res" where
  "utf_scan P [] len = Inl BadAccess"
| "utf_scan P (u # us) len = (if P u then Inr len else utf_scan P us (len + 1))"

definition codepoint_len :: "u32 \<Rightarrow> int res" where
  "codepoint_len cp =
     rbind (utf_scan (\<lambda>u. cp \<ge> u_beg u \<and> cp \<le> u_end u) utf 0) (\<lambda>len.
     Inr (if len > 4 then - 1 else len))"

definition utf8_len :: "u8 \<Rightarrow> int res" where
  "utf8_len ch =
     rbind (utf_scan (\<lambda>u. ch AND NOT (u_mask u) = u_lead u) utf 0) (\<lambda>len.
     Inr (if len > 4 then - 1 else len))"

definition utf_byte :: "utf_t \<Rightarrow> nat \<Rightarrow> u32 \<Rightarrow> u8" where
  "utf_byte u shift cp = ucast ((drop_bit shift cp AND ucast (u_mask u)) OR ucast (u_lead u))"

text \<open>The bytes stored in the static buffer before the terminating NUL, or \<open>None\<close> for NULL.\<close>

definition to_utf8 :: "u32 \<Rightarrow> u8 list option res" where
  "to_utf8 cp =
     rbind (codepoint_len cp) (\<lambda>bytes.
       if bytes < 0 then Inr None
       else if bytes = 0 then Inl BadAccess
       else
         let shift = 6 * (nat bytes - 1) in
         Inr (Some (utf_byte (utf ! nat bytes) shift cp #
               map (\<lambda>i. utf_byte (utf ! 0) (shift - 6 * i) cp) [1..<nat bytes])))"

fun cp_rest :: "nat \<Rightarrow> nat \<Rightarrow> u8 list \<Rightarrow> u32 \<Rightarrow> u32 res" where
  "cp_rest 0 shift cs codep = Inr codep"
| "cp_rest (Suc n) shift [] codep = Inl BadAccess"
| "cp_rest (Suc n) shift (c # cs) codep =
     cp_rest n (shift - 6) cs (codep OR push_bit (shift - 6) (ucast (c AND u_mask (utf ! 0))))"

definition to_cp :: "u8 list \<Rightarrow> u32 res" where
  "to_cp chr =
     (case chr of [] \<Rightarrow> Inl BadAccess
      | c # cs \<Rightarrow>
          rbind (utf8_len c) (\<lambda>bytes.
            if bytes < 0 then Inr 0
            else if bytes = 0 then Inl BadAccess
            else
              let shift = 6 * (nat bytes - 1) in
              cp_rest (nat bytes - 1) shift cs (push_bit shift (ucast (c AND u_mask (utf ! nat bytes))))))"

section \<open>Round trip\<close>

lemma codepoint_len_cases:
  assumes "0 < cp" "cp \<le> 0x10FFFF"
  shows "codepoint_len cp =
    Inr (if cp \<le> 0x7F then 1 else if cp \<le> 0x7FF then 2 else if cp \<le> 0xFFFF then 3 else 4)"
  using assms by (auto simp: codepoint_len_def utf_def word_le_nat_alt word_less_nat_alt)

lemma utf_byte_eq:
  "utf_byte u shift cp = (ucast (drop_bit shift cp) AND u_mask u) OR u_lead u"
  unfolding utf_byte_def by (rule bit_word_eqI) (auto simp: bit_simps)

lemma and_mask_take:
  "x AND 0x3F = take_bit 6 (x :: u8)" "x AND 0x7F = take_bit 7 (x :: u8)" "x AND 0x1F = take_bit 5 (x :: u8)"
  "x AND 0x0F = take_bit 4 (x :: u8)" "x AND 0x07 = take_bit 3 (x :: u8)"
  by (simp_all add: take_bit_eq_mask mask_eq_exp_minus_1)

lemma field_and: "((a AND m) OR l) AND n = (a AND (m AND n)) OR (l AND n)" for a :: u8
  by (simp add: bit.conj_disj_distrib2 and.assoc)

lemma utf8_len_lead:
  "utf8_len ((a AND 0x7F) OR 0) = Inr 1" "utf8_len ((a AND 0x1F) OR 0xC0) = Inr 2"
  "utf8_len ((a AND 0x0F) OR 0xE0) = Inr 3" "utf8_len ((a AND 0x07) OR 0xF0) = Inr 4"
proof -
  have "a AND 0x40 \<noteq> 0x80"
  proof
    assume "a AND 0x40 = 0x80"
    then have "bit (a AND 0x40) 7 = bit (0x80 :: u8) 7" by simp
    then show False by (simp add: bit_simps)
  qed
  then show "utf8_len ((a AND 0x7F) OR 0) = Inr 1" "utf8_len ((a AND 0x1F) OR 0xC0) = Inr 2"
    "utf8_len ((a AND 0x0F) OR 0xE0) = Inr 3" "utf8_len ((a AND 0x07) OR 0xF0) = Inr 4"
    by (simp_all add: utf8_len_def utf_def field_and) (simp add: and.assoc)
qed

lemma take_bit_le: "cp \<le> of_nat (2 ^ k - 1) \<Longrightarrow> k < 32 \<Longrightarrow> take_bit k cp = (cp :: u32)"
proof -
  assume le: "cp \<le> of_nat (2 ^ k - 1)" and k: "k < 32"
  have "(2 :: nat) ^ k < 2 ^ 32" using k by (intro power_strict_increasing) simp_all
  then have "unat (of_nat (2 ^ k - 1) :: u32) = 2 ^ k - 1" by (intro unat_of_nat_u32) simp
  then have "unat cp < 2 ^ k" using le by (simp add: word_le_nat_alt) (metis One_nat_def Suc_pred less_Suc_eq_le zero_less_numeral zero_less_power)
  then have "unat (take_bit k cp) = unat cp" by (simp add: unsigned_take_bit_eq take_bit_nat_eq_self)
  then show ?thesis by (simp only: word_unat_eq_iff)
qed

lemma or_eq_zero: "a OR l = 0 \<longleftrightarrow> a = 0 \<and> l = 0" for a l :: u8
  by (auto simp: bit_eq_iff bit_simps)

lemma upt_small: "[Suc 0..<2] = [1]" "[Suc 0..<3] = [1, 2]" "[Suc 0..<4] = [1, 2, 3]"
  by (simp_all add: upt_conv_Cons)

lemma bits_1: assumes "take_bit 7 cp = cp" shows "ucast (take_bit 7 (ucast cp :: u8)) = (cp :: u32)"
proof (subst (2) assms [symmetric], rule bit_word_eqI)
qed (auto simp: bit_simps)

lemma bits_2: assumes "take_bit 11 cp = cp"
  shows "push_bit 6 (ucast (take_bit 5 (ucast (drop_bit 6 cp) :: u8))) OR ucast (take_bit 6 (ucast cp :: u8)) = (cp :: u32)"
proof (subst (3) assms [symmetric], rule bit_word_eqI)
qed (auto simp: bit_simps)

lemma bits_3: assumes "take_bit 16 cp = cp"
  shows "(push_bit 12 (ucast (take_bit 4 (ucast (drop_bit 12 cp) :: u8))) OR
    push_bit 6 (ucast (take_bit 6 (ucast (drop_bit 6 cp) :: u8)))) OR ucast (take_bit 6 (ucast cp :: u8)) = (cp :: u32)"
proof (subst (4) assms [symmetric], rule bit_word_eqI)
  fix n assume "n < LENGTH(32)"
  then consider "n < 6" | "6 \<le> n" "n < 12" | "12 \<le> n" "n < 16" | "16 \<le> n" "n < 32" by fastforce
  then show "bit ((push_bit 12 (ucast (take_bit 4 (ucast (drop_bit 12 cp) :: u8))) OR
    push_bit 6 (ucast (take_bit 6 (ucast (drop_bit 6 cp) :: u8)))) OR ucast (take_bit 6 (ucast cp :: u8)) :: u32) n
    = bit (take_bit 16 cp) n"
    by cases (auto simp: bit_simps)
qed

lemma bits_4: assumes "take_bit 21 cp = cp"
  shows "((push_bit 18 (ucast (take_bit 3 (ucast (drop_bit 18 cp) :: u8))) OR
    push_bit 12 (ucast (take_bit 6 (ucast (drop_bit 12 cp) :: u8)))) OR
    push_bit 6 (ucast (take_bit 6 (ucast (drop_bit 6 cp) :: u8)))) OR ucast (take_bit 6 (ucast cp :: u8)) = (cp :: u32)"
proof (subst (5) assms [symmetric], rule bit_word_eqI)
  fix n assume "n < LENGTH(32)"
  then consider "n < 6" | "6 \<le> n" "n < 12" | "12 \<le> n" "n < 18" | "18 \<le> n" "n < 21" | "21 \<le> n" "n < 32" by fastforce
  then show "bit (((push_bit 18 (ucast (take_bit 3 (ucast (drop_bit 18 cp) :: u8))) OR
    push_bit 12 (ucast (take_bit 6 (ucast (drop_bit 12 cp) :: u8)))) OR
    push_bit 6 (ucast (take_bit 6 (ucast (drop_bit 6 cp) :: u8)))) OR ucast (take_bit 6 (ucast cp :: u8)) :: u32) n
    = bit (take_bit 21 cp) n"
    by cases (auto simp: bit_simps)
qed

text \<open>What encoding a code point has to do: the round trip, one case of the table at a time.\<close>

abbreviation utf8_encodes :: "u32 \<Rightarrow> bool" where
  "utf8_encodes cp \<equiv>
     \<exists>bs. to_utf8 cp = Inr (Some bs) \<and> 1 \<le> length bs \<and> length bs \<le> 4 \<and> 0 \<notin> set bs \<and> to_cp bs = Inr cp"

lemmas utf8_eqs = to_utf8_def Let_def utf_byte_eq upt_small

lemma utf8_encodes_1:
  assumes "0 < cp" "cp \<le> 0x10FFFF" and c: "cp \<le> 0x7F"
  shows "utf8_encodes cp"
proof -
  have t: "take_bit 7 cp = cp" using c by (intro take_bit_le) simp_all
  let ?b = "(ucast cp AND 0x7F) OR 0 :: u8"
  have e: "to_utf8 cp = Inr (Some [?b])" using c by (simp add: utf8_eqs codepoint_len_cases [OF assms(1,2)]) (simp add: utf_def)
  have "to_cp [?b] = Inr (ucast (?b AND 0x7F))"
    unfolding to_cp_def list.case utf8_len_lead by (simp add: utf_def)
  then have d: "to_cp [?b] = Inr cp" using bits_1 [OF t] by (simp add: and_mask_take)
  moreover have "?b \<noteq> 0"
  proof
    assume "?b = 0"
    then have "ucast (take_bit 7 (ucast cp :: u8)) = (0 :: u32)" by (simp add: and_mask_take)
    then show False using bits_1 [OF t] assms(1) by simp
  qed
  ultimately show ?thesis using e by auto
qed

lemma utf8_encodes_2:
  assumes "0 < cp" "cp \<le> 0x10FFFF" and c: "\<not> cp \<le> 0x7F" "cp \<le> 0x7FF"
  shows "utf8_encodes cp"
proof -
  have t: "take_bit 11 cp = cp" using c by (intro take_bit_le) simp_all
  let ?b = "(ucast (drop_bit 6 cp) AND 0x1F) OR 0xC0 :: u8" and ?c = "(ucast cp AND 0x3F) OR 0x80 :: u8"
  have e: "to_utf8 cp = Inr (Some [?b, ?c])" using c by (simp add: utf8_eqs codepoint_len_cases [OF assms(1,2)]) (simp add: utf_def)
  have "to_cp [?b, ?c] = Inr (push_bit 6 (ucast (?b AND 0x1F)) OR ucast (?c AND 0x3F))"
    unfolding to_cp_def list.case utf8_len_lead by (simp add: utf_def numeral_2_eq_2)
  then have "to_cp [?b, ?c] = Inr cp" unfolding field_and using bits_2 [OF t] by (simp add: and_mask_take)
  then show ?thesis using e by (auto simp: or_eq_zero)
qed

lemma utf8_encodes_3:
  assumes "0 < cp" "cp \<le> 0x10FFFF" and c: "\<not> cp \<le> 0x7F" "\<not> cp \<le> 0x7FF" "cp \<le> 0xFFFF"
  shows "utf8_encodes cp"
proof -
  have t: "take_bit 16 cp = cp" using c by (intro take_bit_le) simp_all
  let ?b = "(ucast (drop_bit 12 cp) AND 0x0F) OR 0xE0 :: u8"
    and ?c = "(ucast (drop_bit 6 cp) AND 0x3F) OR 0x80 :: u8" and ?d = "(ucast cp AND 0x3F) OR 0x80 :: u8"
  have e: "to_utf8 cp = Inr (Some [?b, ?c, ?d])" using c by (simp add: utf8_eqs codepoint_len_cases [OF assms(1,2)]) (simp add: utf_def)
  have "to_cp [?b, ?c, ?d] = Inr ((push_bit 12 (ucast (?b AND 0x0F)) OR push_bit 6 (ucast (?c AND 0x3F))) OR ucast (?d AND 0x3F))"
    unfolding to_cp_def list.case utf8_len_lead by (simp add: utf_def numeral_2_eq_2)
  then have "to_cp [?b, ?c, ?d] = Inr cp" unfolding field_and using bits_3 [OF t] by (simp add: and_mask_take)
  then show ?thesis using e by (auto simp: or_eq_zero)
qed

lemma utf8_encodes_4:
  assumes "0 < cp" "cp \<le> 0x10FFFF" and c: "\<not> cp \<le> 0x7F" "\<not> cp \<le> 0x7FF" "\<not> cp \<le> 0xFFFF"
  shows "utf8_encodes cp"
proof -
  have "(0x10FFFF :: u32) \<le> of_nat (2 ^ 21 - 1)" by simp
  then have t: "take_bit 21 cp = cp" using assms(2) by (intro take_bit_le) (auto intro: order_trans)
  let ?b = "(ucast (drop_bit 18 cp) AND 0x07) OR 0xF0 :: u8" and ?c = "(ucast (drop_bit 12 cp) AND 0x3F) OR 0x80 :: u8"
    and ?d = "(ucast (drop_bit 6 cp) AND 0x3F) OR 0x80 :: u8" and ?e = "(ucast cp AND 0x3F) OR 0x80 :: u8"
  have e: "to_utf8 cp = Inr (Some [?b, ?c, ?d, ?e])" using c by (simp add: utf8_eqs codepoint_len_cases [OF assms(1,2)]) (simp add: utf_def)
  have "to_cp [?b, ?c, ?d, ?e] = Inr (((push_bit 18 (ucast (?b AND 0x07)) OR push_bit 12 (ucast (?c AND 0x3F)))
      OR push_bit 6 (ucast (?d AND 0x3F))) OR ucast (?e AND 0x3F))"
    unfolding to_cp_def list.case utf8_len_lead by (simp add: utf_def numeral_3_eq_3)
  then have "to_cp [?b, ?c, ?d, ?e] = Inr cp" unfolding field_and using bits_4 [OF t] by (simp add: and_mask_take)
  then show ?thesis using e by (auto simp: or_eq_zero)
qed

lemma utf8_encodes_all: "0 < cp \<Longrightarrow> cp \<le> 0x10FFFF \<Longrightarrow> utf8_encodes cp"
  using utf8_encodes_1 utf8_encodes_2 utf8_encodes_3 utf8_encodes_4 by blast

text \<open>
  C36: every code point from 1 to \<open>0x10FFFF\<close> is encoded without undefined behaviour in one to four
  bytes, none of them NUL, and decoding them gives the code point back.
\<close>

theorem utf8_roundtrip:
  assumes "0 < cp" "cp \<le> 0x10FFFF"
  shows "\<exists>bs. to_utf8 cp = Inr (Some bs) \<and> 1 \<le> length bs \<and> length bs \<le> 4 \<and> 0 \<notin> set bs \<and> to_cp bs = Inr cp"
  using assms by (rule utf8_encodes_all)

theorem utf8_roundtrip_witness:
  "\<exists>bs. to_utf8 0x20AC = Inr (Some bs) \<and> 0 \<notin> set bs \<and> to_cp bs = Inr 0x20AC"
  using utf8_roundtrip [of "0x20AC"] by auto

lemma to_utf8_undefined: "to_utf8 0 = Inl BadAccess" "0x10FFFF < cp \<Longrightarrow> to_utf8 cp = Inl BadAccess"
  by (auto simp: to_utf8_def codepoint_len_def utf_def word_less_nat_alt word_le_nat_alt)

end
