(* ===== verification/Pi_Fat32.thy ===== *)
theory Pi_Fat32
  imports Pi_Utf8
begin

text \<open>
  The on-disk structures of FAT32 (pi-side/kernel/disk/fat32.h) and the helpers that check and
  interpret them (fat32-helpers.c). A structure is read from the bytes of its sector or entry at
  the offsets that the packed declaration fixes. The helpers that only print are not modelled.
\<close>

section \<open>Reading little-endian fields\<close>

definition le16 :: "u8 list \<Rightarrow> nat \<Rightarrow> u16" where
  "le16 bs i = ucast (bytes_word [bs ! i, bs ! (i + 1)])"

definition le32 :: "u8 list \<Rightarrow> nat \<Rightarrow> u32" where
  "le32 bs i = bytes_word [bs ! i, bs ! (i + 1), bs ! (i + 2), bs ! (i + 3)]"

definition field :: "u8 list \<Rightarrow> nat \<Rightarrow> nat \<Rightarrow> u8 list" where
  "field bs i n = take n (drop i bs)"

section \<open>Master boot record\<close>

record partition_entry =
  bootable_p :: u8
  chs_start :: "24 word"
  part_type :: u8
  chs_end :: "24 word"
  lba_start :: u32
  p_nsec :: u32

definition partition_of :: "u8 list \<Rightarrow> partition_entry" where
  "partition_of b =
     \<lparr>bootable_p = b ! 0, chs_start = ucast (drop_bit 8 (le32 b 0)), part_type = b ! 4,
      chs_end = ucast (drop_bit 8 (le32 b 4)), lba_start = le32 b 8, p_nsec = le32 b 12\<rparr>"

record mbr =
  part_tab :: "partition_entry list"
  part_raw :: "u8 list list"
  sigval :: u16

definition mbr_of :: "u8 list \<Rightarrow> mbr" where
  "mbr_of s =
     (let raw = map (\<lambda>i. field s (446 + 16 * i) 16) [0..<4] in
      \<lparr>part_tab = map partition_of raw, part_raw = raw, sigval = le16 s 510\<rparr>)"

definition fat32_mbr_check :: "mbr \<Rightarrow> unit res" where
  "fat32_mbr_check m =
     rbind (assert_that (\<exists>p \<in> set (take 4 (part_tab m)). part_type p = 0x0b \<or> part_type p = 0x0c)) (\<lambda>_.
     assert_that (sigval m = 0xAA55))"

definition fat32_part_names :: "(u8 \<times> string) list" where
  "fat32_part_names =
    [(0x00, ''Empty''), (0x01, ''FAT12 - CHS''), (0x04, ''FAT16 - 16-32 MB - CHS''),
     (0x05, ''Microsoft Extended - CHS''), (0x06, ''FAT16 - 32 MB-2 GB - CHS''), (0x07, ''NTFS''),
     (0x0b, ''FAT32 - CHS''), (0x0c, ''FAT32 - LBA''), (0x0e, ''FAT16 - 32 MB-2 GB - LBA''),
     (0x0f, ''Microsoft Extended - LBA''), (0x11, ''Hidden FAT12 - CHS''),
     (0x14, ''Hidden FAT16 - 16-32 MB - CHS''), (0x16, ''Hidden FAT16 - 32 MB-2 GB - CHS''),
     (0x1b, ''Hidden FAT32 - CHS''), (0x1c, ''Hidden FAT32 - LBA''),
     (0x1e, ''Hidden FAT16 - 32 MB-2 GB - LBA''), (0x42, ''Microsoft MBR - Dynamic Disk''),
     (0x82, ''Solaris x86 or Linux swap?''), (0x83, ''Linux''), (0x84, ''Hibernation''),
     (0x85, ''Linux Extended''), (0x86, ''NTFS Volume Set''), (0x87, ''NTFS Volume Set''),
     (0xa0, ''Hibernation''), (0xa1, ''Hibernation''), (0xa5, ''FreeBSD''), (0xa6, ''OpenBSD''),
     (0xa8, ''Mac OSX''), (0xa9, ''NetBSD''), (0xab, ''Mac OSX Boot''), (0xb7, ''BSDI''),
     (0xb8, ''BSDI swap''), (0xee, ''EFI GPT Disk''), (0xef, ''EFI System Partition''),
     (0xfb, ''Vmware File System''), (0xfc, ''Vmware swap'')]"

definition fat32_part_str :: "u8 \<Rightarrow> string res" where
  "fat32_part_str x =
     (case map_of fat32_part_names x of Some s \<Rightarrow> Inr s | None \<Rightarrow> Inl PanicFault)"

fun partition_empty_loop :: "nat \<Rightarrow> u8 list \<Rightarrow> bool" where
  "partition_empty_loop 0 part = True"
| "partition_empty_loop (Suc n) [] = True"
| "partition_empty_loop (Suc n) (b # part) = (if b \<noteq> 0 then False else partition_empty_loop n part)"

definition fat32_partition_empty :: "u8 list \<Rightarrow> bool" where
  "fat32_partition_empty part = partition_empty_loop 16 part"

definition is_fat32 :: "u8 \<Rightarrow> bool" where
  "is_fat32 t \<longleftrightarrow> t = 0xb \<or> t = 0xc"

section \<open>Boot sector and FS information\<close>

record boot_sec =
  asm_code :: "u8 list"
  oem :: "u8 list"
  bytes_per_sec :: u16
  sec_per_cluster :: u8
  reserved_area_nsec :: u16
  nfats :: u8
  max_files :: u16
  fs_nsec :: u16
  media_type :: u8
  b_zero :: u16
  sec_per_track :: u16
  n_heads :: u16
  hidden_secs :: u32
  nsec_in_fs :: u32
  nsec_per_fat :: u32
  mirror_flags :: u16
  b_version :: u16
  first_cluster :: u32
  info_sec_num :: u16
  backup_boot_loc :: u16
  logical_drive_num :: u8
  extended_sig :: u8
  serial_num :: u32
  volume_label :: "u8 list"
  fs_type :: "u8 list"
  b_sig :: u16

definition boot_sec_of :: "u8 list \<Rightarrow> boot_sec" where
  "boot_sec_of s =
     \<lparr>asm_code = field s 0 3, oem = field s 3 8, bytes_per_sec = le16 s 11, sec_per_cluster = s ! 13, reserved_area_nsec = le16 s 14,
      nfats = s ! 16, max_files = le16 s 17, fs_nsec = le16 s 19, media_type = s ! 21,
      b_zero = le16 s 22, sec_per_track = le16 s 24, n_heads = le16 s 26, hidden_secs = le32 s 28, nsec_in_fs = le32 s 32, nsec_per_fat = le32 s 36,
      mirror_flags = le16 s 40, b_version = le16 s 42, first_cluster = le32 s 44,
      info_sec_num = le16 s 48, backup_boot_loc = le16 s 50, logical_drive_num = s ! 64,
      extended_sig = s ! 66, serial_num = le32 s 67, volume_label = field s 71 11,
      fs_type = field s 82 8, b_sig = le16 s 510\<rparr>"

text \<open>\<open>is_pow2\<close> works on the promoted \<open>int\<close>; on a byte this is the two's complement test at 32 bits.\<close>

definition is_pow2_u8 :: "u8 \<Rightarrow> bool" where
  "is_pow2_u8 x \<longleftrightarrow> (let y = ucast x :: u32 in y AND - y = y)"

definition fat32_volume_id_check :: "boot_sec \<Rightarrow> unit res" where
  "fat32_volume_id_check b =
     rbind (assert_that (bytes_per_sec b = 512)) (\<lambda>_.
     rbind (assert_that (nfats b = 2)) (\<lambda>_.
     rbind (assert_that (b_sig b = 0xAA55)) (\<lambda>_.
     rbind (assert_that (is_pow2_u8 (sec_per_cluster b))) (\<lambda>_.
     rbind (assert_that (bytes_per_sec b \<in> {512, 1024, 2048, 4096})) (\<lambda>_.
     rbind (assert_that (max_files b = 0)) (\<lambda>_.
     rbind (assert_that (fs_nsec b = 0)) (\<lambda>_.
     rbind (assert_that (b_zero b = 0)) (\<lambda>_.
     rbind (assert_that (nsec_in_fs b \<noteq> 0)) (\<lambda>_.
     rbind (assert_that (info_sec_num b = 1)) (\<lambda>_.
     rbind (assert_that (backup_boot_loc b = 6)) (\<lambda>_.
     assert_that (extended_sig b = 0x29))))))))))))"

record fsinfo =
  sig1 :: u32
  sig2 :: u32
  free_cluster_count :: u32
  next_free_cluster :: u32
  sig3 :: u32

definition fsinfo_of :: "u8 list \<Rightarrow> fsinfo" where
  "fsinfo_of s = \<lparr>sig1 = le32 s 0, sig2 = le32 s 484, free_cluster_count = le32 s 488,
     next_free_cluster = le32 s 492, sig3 = le32 s 508\<rparr>"

definition fat32_fsinfo_check :: "fsinfo \<Rightarrow> unit res" where
  "fat32_fsinfo_check i =
     rbind (assert_that (sig1 i = 0x41615252)) (\<lambda>_.
     rbind (assert_that (sig2 i = 0x61417272)) (\<lambda>_.
     assert_that (sig3 i = 0xaa550000)))"

section \<open>FAT entries\<close>

definition FREE_CLUSTER :: u32 where "FREE_CLUSTER = 0"
definition RESERVED_CLUSTER :: u32 where "RESERVED_CLUSTER = 1"
definition BAD_CLUSTER :: u32 where "BAD_CLUSTER = 0xFFFFFF7"
definition LAST_CLUSTER :: u32 where "LAST_CLUSTER = 0xFFFFFF8"
definition USED_CLUSTER :: u32 where "USED_CLUSTER = 0xFFFFFF9"

definition fat32_fat_entry_type_str :: "u32 \<Rightarrow> string res" where
  "fat32_fat_entry_type_str x =
     (if x = FREE_CLUSTER then Inr ''FREE_CLUSTER''
      else if x = RESERVED_CLUSTER then Inr ''RESERVED_CLUSTER''
      else if x = BAD_CLUSTER then Inr ''BAD_CLUSTER''
      else if x = LAST_CLUSTER then Inr ''LAST_CLUSTER''
      else if x = USED_CLUSTER then Inr ''USED_CLUSTER''
      else Inl PanicFault)"

definition fat32_fat_entry_type :: "u32 \<Rightarrow> u32 res" where
  "fat32_fat_entry_type x =
     (let x = drop_bit 4 (push_bit 4 x) in
      if x = FREE_CLUSTER \<or> x = RESERVED_CLUSTER \<or> x = BAD_CLUSTER then Inr x
      else if x \<ge> 0x2 \<and> x \<le> 0xFFFFFEF then Inr USED_CLUSTER
      else if x \<ge> 0xFFFFFF0 \<and> x \<le> 0xFFFFFF6 then Inl PanicFault
      else if x \<ge> 0xFFFFFF8 \<and> x \<le> 0xFFFFFFF then Inr LAST_CLUSTER
      else Inl PanicFault)"

section \<open>Directory entries\<close>

definition FAT32_RO :: u8 where "FAT32_RO = 0x01"
definition FAT32_HIDDEN :: u8 where "FAT32_HIDDEN = 0x02"
definition FAT32_SYSTEM_FILE :: u8 where "FAT32_SYSTEM_FILE = 0x04"
definition FAT32_VOLUME_LABEL :: u8 where "FAT32_VOLUME_LABEL = 0x08"
definition FAT32_LONG_FILE_NAME :: u8 where "FAT32_LONG_FILE_NAME = 0x0f"
definition FAT32_DIR :: u8 where "FAT32_DIR = 0x10"
definition FAT32_ARCHIVE :: u8 where "FAT32_ARCHIVE = 0x20"

record fat32_dir =
  d_filename :: "u8 list"
  d_attr :: u8
  d_reserved0 :: u8
  ctime_tenths :: u8
  ctime :: u16
  create_date :: u16
  access_date :: u16
  hi_start :: u16
  mod_time :: u16
  mod_date :: u16
  lo_start :: u16
  file_nbytes :: u32

definition dir_of :: "u8 list \<Rightarrow> fat32_dir" where
  "dir_of e =
     \<lparr>d_filename = field e 0 11, d_attr = e ! 11, d_reserved0 = e ! 12, ctime_tenths = e ! 13,
      ctime = le16 e 14, create_date = le16 e 16, access_date = le16 e 18, hi_start = le16 e 20,
      mod_time = le16 e 22, mod_date = le16 e 24, lo_start = le16 e 26, file_nbytes = le32 e 28\<rparr>"

record lfn_dir =
  seqno :: u8
  name1_5 :: "u8 list"
  l_attr :: u8
  l_cksum :: u8
  name6_11 :: "u8 list"
  name12_13 :: "u8 list"

definition lfn_of :: "u8 list \<Rightarrow> lfn_dir" where
  "lfn_of e = \<lparr>seqno = e ! 0, name1_5 = field e 1 10, l_attr = e ! 11, l_cksum = e ! 13,
     name6_11 = field e 14 12, name12_13 = field e 28 4\<rparr>"

definition is_attr :: "u8 \<Rightarrow> u8 \<Rightarrow> bool" where
  "is_attr x flag \<longleftrightarrow> x AND flag = flag"

fun lfn_checksum_loop :: "nat \<Rightarrow> u8 \<Rightarrow> u8 list \<Rightarrow> u8" where
  "lfn_checksum_loop 0 s name = s"
| "lfn_checksum_loop (Suc i) s [] = s"
| "lfn_checksum_loop (Suc i) s (c # name) =
     lfn_checksum_loop i (push_bit 7 (s AND 1) + drop_bit 1 s + c) name"

definition lfn_checksum :: "u8 list \<Rightarrow> u8" where
  "lfn_checksum name = lfn_checksum_loop 11 0 name"

definition lfn_is_last :: "u8 \<Rightarrow> bool" where
  "lfn_is_last s \<longleftrightarrow> s AND 0x40 \<noteq> 0"

definition lfn_is_first :: "u8 \<Rightarrow> bool" where
  "lfn_is_first s \<longleftrightarrow> s AND NOT 0x40 = 1"

definition lfn_is_deleted :: "u8 \<Rightarrow> bool" where
  "lfn_is_deleted s \<longleftrightarrow> s AND 0xe5 = 0xe5"

definition fat32_dirent_free :: "u8 list \<Rightarrow> bool" where
  "fat32_dirent_free e =
     (if d_attr (dir_of e) = FAT32_LONG_FILE_NAME then lfn_is_deleted (seqno (lfn_of e))
      else d_filename (dir_of e) ! 0 = 0 \<or> d_filename (dir_of e) ! 0 = 0xe5)"

section \<open>File names\<close>

definition lfn_terminator :: "u8 \<Rightarrow> u8 \<Rightarrow> bool" where
  "lfn_terminator x0 x1 =
     (if x0 = 0 \<and> x1 = 0 then True else if x0 = 0xff \<and> x1 = 0xff then True else False)"

text \<open>What \<open>utf8_append\<close> appends to its buffer; an odd number of bytes fails its assertion.\<close>

fun utf8_append :: "u8 list \<Rightarrow> u8 list res" where
  "utf8_append [] = Inr []"
| "utf8_append [x] = Inl AssertFault"
| "utf8_append (x0 # x1 # xs) =
     (if lfn_terminator x0 x1 then Inr []
      else rbind (to_utf8 (ucast x0 OR push_bit 8 (ucast x1))) (\<lambda>u.
        case u of None \<Rightarrow> Inl BadAccess
        | Some bs \<Rightarrow> rbind (utf8_append xs) (\<lambda>rest. Inr (bs @ rest))))"

text \<open>The loop runs from the last entry, which holds the start of the name, down to the first.\<close>

fun lfn_name_loop :: "lfn_dir list \<Rightarrow> u8 list res" where
  "lfn_name_loop [] = Inr []"
| "lfn_name_loop (l # ls) =
     rbind (lfn_name_loop ls) (\<lambda>buf.
     rbind (assert_that (l_attr l = FAT32_LONG_FILE_NAME)) (\<lambda>_.
     rbind (utf8_append (name1_5 l)) (\<lambda>a.
     rbind (utf8_append (name6_11 l)) (\<lambda>b.
     rbind (utf8_append (name12_13 l)) (\<lambda>c.
     Inr (buf @ a @ b @ c))))))"

definition lfn_get_name :: "lfn_dir list \<Rightarrow> u8 list res" where
  "lfn_get_name s =
     rbind (lfn_name_loop s) (\<lambda>name. if length name < 512 then Inr name else Inl BadAccess)"

definition lower :: "bool \<Rightarrow> u8 \<Rightarrow> u8" where
  "lower lower_case_p c = (if lower_case_p \<and> c \<ge> 0x41 \<and> c \<le> 0x5A then c + 32 else c)"

definition short_name :: "fat32_dir \<Rightarrow> u8 list" where
  "short_name d =
     (let lower_case_p = (d_reserved0 d = 0x18) in
      map (lower lower_case_p) (filter (\<lambda>c. c \<noteq> 0x20) (take 8 (d_filename d))) @
      [0x2E] @ map (lower lower_case_p) (drop 8 (d_filename d)))"

fun lfn_run :: "u8 list list \<Rightarrow> nat" where
  "lfn_run [] = 0"
| "lfn_run (e # es) = (if d_attr (dir_of e) \<noteq> FAT32_LONG_FILE_NAME then 0 else Suc (lfn_run es))"

text \<open>
  \<open>fat32_dir_filename\<close> on the entries from \<open>d\<close> to \<open>end\<close>: the name, of at most 255 bytes, and the
  entries from the one that describes the file.
\<close>

definition fat32_dir_filename :: "u8 list list \<Rightarrow> (u8 list \<times> u8 list list) res" where
  "fat32_dir_filename es =
     (case es of [] \<Rightarrow> Inl BadAccess
      | e # rest \<Rightarrow>
          rbind (assert_that (\<not> fat32_dirent_free e)) (\<lambda>_.
          if d_attr (dir_of e) = FAT32_LONG_FILE_NAME then
            let cnt = 1 + lfn_run rest in
            rbind (assert_that (cnt < length es)) (\<lambda>_.
            let x = d_attr (dir_of (es ! cnt)) in
            rbind (assert_that (is_attr x FAT32_DIR \<or> is_attr x FAT32_ARCHIVE)) (\<lambda>_.
            rbind (lfn_get_name (map lfn_of (take cnt es))) (\<lambda>name.
            if length name < 256 then Inr (name, drop cnt es) else Inl BadAccess)))
          else
            let x = d_attr (dir_of e) in
            rbind (assert_that (is_attr x FAT32_DIR \<or> is_attr x FAT32_ARCHIVE \<or> is_attr x FAT32_VOLUME_LABEL)) (\<lambda>_.
            Inr (short_name (dir_of e), es))))"

definition fat32_dir_attr_str :: "u8 \<Rightarrow> string res" where
  "fat32_dir_attr_str attr =
     (if attr = FAT32_LONG_FILE_NAME then Inr '' LONG FILE NAME''
      else
        let (buf, attr) = (if is_attr attr FAT32_RO then (''R/O'', attr AND NOT FAT32_RO) else ([], attr));
            (buf, attr) = (if is_attr attr FAT32_HIDDEN then (buf @ '' HIDDEN'', attr AND NOT FAT32_HIDDEN) else (buf, attr))
        in if attr = FAT32_SYSTEM_FILE then Inr (buf @ '' SYSTEM FILE'')
           else if attr = FAT32_VOLUME_LABEL then Inr (buf @ '' VOLUME LABEL'')
           else if attr = FAT32_DIR then Inr (buf @ '' DIR'')
           else if attr = FAT32_ARCHIVE then Inr (buf @ '' ARCHIVE'')
           else Inl PanicFault)"

text \<open>The checks that \<open>lfn_print\<close> makes of the entries of one long name.\<close>

definition lfn_check :: "lfn_dir list \<Rightarrow> u8 \<Rightarrow> unit res" where
  "lfn_check s cksum =
     (let cnt = length s in
      rbind (assert_that (cnt \<ge> 1)) (\<lambda>_.
      rbind (demand_that (cnt > 0 \<and> cnt < 3)) (\<lambda>_.
      rbind (foldr (\<lambda>l r. rbind (assert_that (\<not> lfn_is_deleted (seqno l))) (\<lambda>_.
               rbind (assert_that (l_cksum l = cksum)) (\<lambda>_. r))) s (Inr ())) (\<lambda>_.
      rbind (assert_that (lfn_is_last (seqno (s ! 0)))) (\<lambda>_.
      assert_that (lfn_is_first (seqno (s ! (cnt - 1)))))))))"

section \<open>Classification of FAT entries\<close>

lemma drop_push_4: "drop_bit 4 (push_bit 4 x) = (take_bit 28 x :: u32)"
  by (rule bit_word_eqI) (auto simp: bit_simps)

lemma take_bit_28_le: "take_bit 28 (x :: u32) \<le> 0xFFFFFFF"
proof -
  have "unat (take_bit 28 x) < 2 ^ 28" unfolding unsigned_take_bit_eq by (rule take_bit_nat_less_exp)
  then show ?thesis by (simp add: word_le_nat_alt)
qed

text \<open>
  \<open>fat32_fat_entry_type\<close> classifies the low 28 bits of an entry exactly as the table in fat32.h
  says; it panics on the reserved values and on no other, and the four upper bits do not matter.
\<close>

theorem fat_entry_type_table:
  "fat32_fat_entry_type x =
     (let v = unat (take_bit 28 x) in
      if v = 0 then Inr FREE_CLUSTER else if v = 1 then Inr RESERVED_CLUSTER
      else if v < 0xFFFFFF0 then Inr USED_CLUSTER
      else if v < 0xFFFFFF7 then Inl PanicFault
      else if v = 0xFFFFFF7 then Inr BAD_CLUSTER else Inr LAST_CLUSTER)"
proof -
  have "unat (take_bit 28 x) \<le> 0xFFFFFFF" using take_bit_28_le [of x] by (simp add: word_le_nat_alt)
  then show ?thesis
    unfolding fat32_fat_entry_type_def drop_push_4
    by (simp add: Let_def FREE_CLUSTER_def RESERVED_CLUSTER_def BAD_CLUSTER_def word_le_nat_alt word_unat_eq_iff)
qed

section \<open>Long file names\<close>

text \<open>
  The format of a long name, as a reference: units of 16 bits, 13 to an entry, little endian; a
  short last entry is padded with a zero unit and then with units of all ones.
\<close>

definition unit_bytes :: "u16 \<Rightarrow> u8 list" where
  "unit_bytes u = [ucast u, ucast (drop_bit 8 u)]"

definition name_unit :: "u16 \<Rightarrow> bool" where
  "name_unit u \<longleftrightarrow> u \<noteq> 0 \<and> u \<noteq> 0xFFFF"

definition lfn_pad :: "u16 list \<Rightarrow> u16 list" where
  "lfn_pad us = us @ (if length us < 13 then 0 # replicate (12 - length us) 0xFFFF else [])"

definition utf8_of :: "u16 \<Rightarrow> u8 list" where
  "utf8_of u = (case to_utf8 (ucast u) of Inr (Some bs) \<Rightarrow> bs | _ \<Rightarrow> [])"

definition lfn_holds :: "lfn_dir \<Rightarrow> u16 list \<Rightarrow> bool" where
  "lfn_holds l us \<longleftrightarrow> length us \<le> 13 \<and> list_all name_unit us \<and> l_attr l = FAT32_LONG_FILE_NAME \<and>
     name1_5 l = concat (map unit_bytes (take 5 (lfn_pad us))) \<and>
     name6_11 l = concat (map unit_bytes (take 6 (drop 5 (lfn_pad us)))) \<and>
     name12_13 l = concat (map unit_bytes (drop 11 (lfn_pad us)))"

lemma unit_cp: "ucast (ucast u :: u8) OR push_bit 8 (ucast (ucast (drop_bit 8 u) :: u8)) = (ucast u :: u32)"
  for u :: u16
  by (rule bit_word_eqI) (auto simp: bit_simps dest: bit_imp_le_length)

lemma unat_ucast_u16: "unat (ucast (u :: u16) :: u32) = unat u"
proof -
  have "unat u < 2 ^ 16" by (rule order_less_le_trans [OF unsigned_less]) simp
  then show ?thesis by (simp add: unsigned_ucast_eq take_bit_nat_eq_self)
qed

lemma unit_bytes_inj: "unit_bytes u = unit_bytes v \<longleftrightarrow> u = v"
proof
  assume "unit_bytes u = unit_bytes v"
  then have "(ucast u :: u32) = ucast v" unfolding unit_bytes_def by (metis unit_cp list.inject)
  then have "unat (ucast u :: u32) = unat (ucast v :: u32)" by simp
  then show "u = v" unfolding unat_ucast_u16 by (simp only: word_unat_eq_iff)
qed simp

lemma unit_terminator: "lfn_terminator (ucast u) (ucast (drop_bit 8 u)) \<longleftrightarrow> \<not> name_unit u"
  using unit_bytes_inj [of u 0] unit_bytes_inj [of u "0xFFFF"]
  by (auto simp: lfn_terminator_def name_unit_def unit_bytes_def)

lemma utf8_of_unit:
  assumes "name_unit u"
  shows "to_utf8 (ucast u) = Inr (Some (utf8_of u))"
proof -
  have "unat u < 2 ^ 16" by (rule order_less_le_trans [OF unsigned_less]) simp
  moreover have "unat u \<noteq> 0" using assms by (simp add: name_unit_def unat_eq_zero)
  moreover have "unat (ucast u :: u32) = unat u" by (simp add: unat_ucast_u16)
  ultimately have "0 < (ucast u :: u32)" "(ucast u :: u32) \<le> 0x10FFFF"
    by (simp_all add: word_less_nat_alt word_le_nat_alt)
  then obtain bs where "to_utf8 (ucast u) = Inr (Some bs)" using utf8_encodes_all by blast
  then show ?thesis by (simp add: utf8_of_def)
qed

lemma utf8_append_units:
  "utf8_append (concat (map unit_bytes us)) = Inr (concat (map utf8_of (takeWhile name_unit us)))"
  by (induction us) (auto simp: unit_bytes_def unit_terminator unit_cp utf8_of_unit)

text \<open>In a padded name the units of the name come first, so cutting it into pieces loses nothing.\<close>

lemma takeWhile_piece:
  "list_all P xs \<Longrightarrow> list_all (\<lambda>y. \<not> P y) ys \<Longrightarrow> takeWhile P (take n (drop k (xs @ ys))) = filter P (take n (drop k (xs @ ys)))"
proof -
  assume xs: "list_all P xs" and ys: "list_all (\<lambda>y. \<not> P y) ys"
  have "takeWhile P (as @ bs) = filter P (as @ bs)" if "list_all P as" "list_all (\<lambda>y. \<not> P y) bs" for as bs
    using that by (cases bs) (auto simp: list_all_iff takeWhile_append filter_empty_conv takeWhile_eq_all_conv)
  moreover have "list_all P (take n (drop k xs))" "list_all (\<lambda>y. \<not> P y) (take m (drop l ys))" for m l
    using xs ys by (auto simp: list_all_iff dest!: in_set_takeD in_set_dropD)
  ultimately show ?thesis by (simp only: drop_append take_append)
qed

lemma lfn_holds_bytes:
  assumes "lfn_holds l us"
  shows "\<exists>a b c. utf8_append (name1_5 l) = Inr a \<and> utf8_append (name6_11 l) = Inr b \<and>
    utf8_append (name12_13 l) = Inr c \<and> a @ b @ c = concat (map utf8_of us)"
proof -
  define ys :: "u16 list" where "ys = (if length us < 13 then 0 # replicate (12 - length us) 0xFFFF else [])"
  have pad: "lfn_pad us = us @ ys" by (simp add: lfn_pad_def ys_def)
  have us: "list_all name_unit us" and len: "length us \<le> 13" using assms by (simp_all add: lfn_holds_def)
  have ys: "list_all (\<lambda>y. \<not> name_unit y) ys" by (auto simp: ys_def list_all_iff name_unit_def)
  note piece = takeWhile_piece [OF us ys]
  have "length (us @ ys) = 13" using len by (simp add: ys_def)
  then have third: "drop 11 (us @ ys) = take 2 (drop 11 (us @ ys))" by simp
  have "us @ ys = take 5 (drop 0 (us @ ys)) @ take 6 (drop 5 (us @ ys)) @ take 2 (drop 11 (us @ ys))"
    unfolding third [symmetric] using append_take_drop_id [of 6 "drop 5 (us @ ys)"] by (simp del: drop_append take_append)
  then have "filter name_unit (us @ ys) = filter name_unit (take 5 (drop 0 (us @ ys))) @
      filter name_unit (take 6 (drop 5 (us @ ys))) @ filter name_unit (take 2 (drop 11 (us @ ys)))"
    by (metis filter_append)
  moreover have "filter name_unit (us @ ys) = us" using us ys by (auto simp: list_all_iff filter_empty_conv filter_id_conv)
  ultimately have us_eq: "takeWhile name_unit (take 5 (us @ ys)) @ takeWhile name_unit (take 6 (drop 5 (us @ ys))) @
      takeWhile name_unit (drop 11 (us @ ys)) = us"
    using piece [of 5 0] piece [of 6 5] piece [of 2 11] third by simp
  show ?thesis
    using assms unfolding lfn_holds_def pad by (simp add: utf8_append_units us_eq del: take_append drop_append flip: map_append concat_append)
qed

lemma lfn_name_loop_holds:
  "list_all2 lfn_holds ls us \<Longrightarrow> lfn_name_loop ls = Inr (concat (map utf8_of (concat (rev us))))"
proof (induction rule: list_all2_induct)
  case (Cons l ls u us)
  obtain a b c where "utf8_append (name1_5 l) = Inr a" "utf8_append (name6_11 l) = Inr b"
    "utf8_append (name12_13 l) = Inr c" "a @ b @ c = concat (map utf8_of u)"
    using lfn_holds_bytes [OF Cons.hyps(1)] by blast
  then show ?case using Cons by (simp add: lfn_holds_def)
qed simp

text \<open>
  C28: directory entries that hold the pieces of a long name, last piece first as on the disk, are
  read back as exactly that name in UTF-8, whatever its length below the 512 bytes of the buffer;
  no unit is lost at the boundaries between the three fields of an entry or between entries.
\<close>

theorem lfn_name_roundtrip:
  assumes "list_all2 lfn_holds ls us"
    and "length (concat (map utf8_of (concat (rev us)))) < 512"
  shows "lfn_get_name ls = Inr (concat (map utf8_of (concat (rev us))))"
  using lfn_name_loop_holds [OF assms(1)] assms(2) by (simp add: lfn_get_name_def)

definition lfn_demo :: lfn_dir where
  "lfn_demo = lfn_of ([0x41, 0x61, 0, 0x62, 0, 0xE9, 0, 0x64, 0, 0x65, 0, 0x0F, 0, 0, 0x66, 0, 0, 0]
     @ replicate 8 0xFF @ [0, 0, 0xFF, 0xFF, 0xFF, 0xFF])"

theorem lfn_name_roundtrip_witness:
  "lfn_get_name [lfn_demo] = Inr (concat (map utf8_of [0x61, 0x62, 0xE9, 0x64, 0x65, 0x66]))"
proof -
  have "lfn_holds lfn_demo [0x61, 0x62, 0xE9, 0x64, 0x65, 0x66]" by code_simp
  moreover have "length (concat (map utf8_of [0x61, 0x62, 0xE9, 0x64, 0x65, 0x66])) < 512" by code_simp
  ultimately show ?thesis
    using lfn_name_roundtrip [of "[lfn_demo]" "[[0x61, 0x62, 0xE9, 0x64, 0x65, 0x66]]"] by simp
qed

end
