(* ===== verification/Pi_Elf.thy ===== *)
theory Pi_Elf
  imports Pi_Fat32 Pi_Syscall
begin

text \<open>
  The ELF loader, pi-side/kernel/elf.c. The file is the list of its bytes; a header or name that
  lies outside of them is \<open>BadAccess\<close>. The loader maps memory for the new process and produces
  load instructions, to be carried out later in the address space of the process (exec.c).
  Its words are read and compared as 32-bit patterns.
\<close>

section \<open>Headers\<close>

record Elf32_Ehdr =
  e_ident :: "u8 list"
  e_type :: u16
  e_machine :: u16
  e_version :: u32
  e_entry :: u32
  e_phoff :: u32
  e_shoff :: u32
  e_flags :: u32
  e_ehsize :: u16
  e_phentsize :: u16
  e_phnum :: u16
  e_shentsize :: u16
  e_shnum :: u16
  e_shstrndx :: u16

definition ehdr_of :: "u8 list \<Rightarrow> Elf32_Ehdr" where
  "ehdr_of b =
     \<lparr>e_ident = field b 0 16, e_type = le16 b 16, e_machine = le16 b 18, e_version = le32 b 20,
      e_entry = le32 b 24, e_phoff = le32 b 28, e_shoff = le32 b 32, e_flags = le32 b 36,
      e_ehsize = le16 b 40, e_phentsize = le16 b 42, e_phnum = le16 b 44, e_shentsize = le16 b 46,
      e_shnum = le16 b 48, e_shstrndx = le16 b 50\<rparr>"

definition ET_NONE :: u16 where "ET_NONE = 0"
definition ET_REL :: u16 where "ET_REL = 1"
definition ET_EXEC :: u16 where "ET_EXEC = 2"
definition ET_DYN :: u16 where "ET_DYN = 3"
definition ET_CORE :: u16 where "ET_CORE = 4"
definition ET_LOPROC :: u16 where "ET_LOPROC = 0xff00"
definition ET_HIPROC :: u16 where "ET_HIPROC = 0xffff"

record Elf32_Shdr =
  sh_name :: u32
  sh_type :: u32
  sh_flags :: u32
  sh_addr :: u32
  sh_offset :: u32
  sh_size :: u32
  sh_link :: u32
  sh_info :: u32
  sh_addralign :: u32
  sh_entsize :: u32

definition shdr_of :: "u8 list \<Rightarrow> Elf32_Shdr" where
  "shdr_of b =
     \<lparr>sh_name = le32 b 0, sh_type = le32 b 4, sh_flags = le32 b 8, sh_addr = le32 b 12, sh_offset = le32 b 16,
      sh_size = le32 b 20, sh_link = le32 b 24, sh_info = le32 b 28, sh_addralign = le32 b 32, sh_entsize = le32 b 36\<rparr>"

definition SHT_PROGBITS :: u32 where "SHT_PROGBITS = 1"
definition SHT_SYMTAB :: u32 where "SHT_SYMTAB = 2"
definition SHT_NOBITS :: u32 where "SHT_NOBITS = 8"

record Elf32_Phdr =
  p_type :: u32
  p_offset :: u32
  p_vaddr :: u32
  p_paddr :: u32
  p_filesz :: u32
  p_memsz :: u32
  p_flags :: u32
  p_align :: u32

definition phdr_of :: "u8 list \<Rightarrow> Elf32_Phdr" where
  "phdr_of b =
     \<lparr>p_type = le32 b 0, p_offset = le32 b 4, p_vaddr = le32 b 8, p_paddr = le32 b 12,
      p_filesz = le32 b 16, p_memsz = le32 b 20, p_flags = le32 b 24, p_align = le32 b 28\<rparr>"

definition PT_LOAD :: u32 where "PT_LOAD = 1"

text \<open>Element \<open>i\<close> of a table of \<open>sz\<close>-byte structures at offset \<open>off\<close> of the file.\<close>

definition elem :: "u8 list \<Rightarrow> u32 \<Rightarrow> nat \<Rightarrow> nat \<Rightarrow> u8 list res" where
  "elem data off sz i =
     (if unat off + sz * (i + 1) \<le> length data then Inr (field data (unat off + sz * i) sz) else Inl BadAccess)"

definition shdr_at :: "u8 list \<Rightarrow> u32 \<Rightarrow> nat \<Rightarrow> Elf32_Shdr res" where
  "shdr_at data off i = rbind (elem data off 40 i) (\<lambda>b. Inr (shdr_of b))"

definition phdr_at :: "u8 list \<Rightarrow> u32 \<Rightarrow> nat \<Rightarrow> Elf32_Phdr res" where
  "phdr_at data off i = rbind (elem data off 32 i) (\<lambda>b. Inr (phdr_of b))"

text \<open>\<open>strcmp(name, lit) == 0\<close> on the bytes of the file from the name on.\<close>

fun str_is :: "u8 list \<Rightarrow> u8 list \<Rightarrow> bool res" where
  "str_is [] lit = Inl BadAccess"
| "str_is (x # xs) [] = Inr (x = 0)"
| "str_is (x # xs) (l # lit) = (if x = l then str_is xs lit else Inr False)"

definition name_is :: "u8 list \<Rightarrow> u32 \<Rightarrow> Elf32_Shdr \<Rightarrow> u8 list \<Rightarrow> bool res" where
  "name_is data strtab sh lit = str_is (drop (unat strtab + unat (sh_name sh)) data) lit"

definition BSS :: "u8 list" where "BSS = [0x2E, 0x62, 0x73, 0x73]"
definition DATA :: "u8 list" where "DATA = [0x2E, 0x64, 0x61, 0x74, 0x61]"
definition DATA1 :: "u8 list" where "DATA1 = DATA @ [0x31]"
definition TEXT :: "u8 list" where "TEXT = [0x2E, 0x74, 0x65, 0x78, 0x74]"

definition elf_magic_valid :: "Elf32_Ehdr \<Rightarrow> bool" where
  "elf_magic_valid ehdr \<longleftrightarrow> take 4 (e_ident ehdr) = [0x7F, 0x45, 0x4C, 0x46]"

definition elf_type_str :: "u16 \<Rightarrow> string" where
  "elf_type_str t =
     (if t = ET_NONE then ''NONE'' else if t = ET_REL then ''NONE'' else if t = ET_EXEC then ''EXEC''
      else if t = ET_DYN then ''DYN'' else if t = ET_CORE then ''CORE''
      else if t = ET_LOPROC then ''LOPROC'' else if t = ET_HIPROC then ''HIPROC'' else ''UNKNOWN'')"

section \<open>Sections\<close>

text \<open>
  The loops over the section headers: \<open>hdr i\<close> reads header \<open>i\<close> when the loop comes to it, the list
  holds the indices still to be visited.
\<close>

fun locate_symbol_table :: "(nat \<Rightarrow> Elf32_Shdr res) \<Rightarrow> nat list \<Rightarrow> u32 res" where
  "locate_symbol_table hdr [] = Inr 0"
| "locate_symbol_table hdr (i # is) =
     rbind (hdr i) (\<lambda>sh.
     if sh_type sh = SHT_SYMTAB
     then rbind (demand_that (sh_entsize sh = 16)) (\<lambda>_. Inr (sh_size sh div 16))
     else locate_symbol_table hdr is)"

datatype load_instr =
    LOAD_COPY (src_addr: u32) (dst_addr: u32) (isize: u32)
  | LOAD_ZERO (src_addr: u32) (dst_addr: u32) (isize: u32)
  | LOAD_JUMP (src_addr: u32) (dst_addr: u32)

text \<open>Appending to the array of \<open>cap\<close> instructions; a field that is not set keeps what the stack held.\<close>

definition add_instr :: "nat \<Rightarrow> load_instr list \<Rightarrow> load_instr \<Rightarrow> load_instr list res" where
  "add_instr cap ls l = rbind (demand_that (length ls \<noteq> cap)) (\<lambda>_. Inr (ls @ [l]))"

definition is_bss :: "u8 list \<Rightarrow> u32 \<Rightarrow> Elf32_Shdr \<Rightarrow> bool res" where
  "is_bss data strtab sh = (if sh_type sh = SHT_NOBITS then name_is data strtab sh BSS else Inr False)"

fun init_bss_sections :: "nat \<Rightarrow> (nat \<Rightarrow> u32) \<Rightarrow> page_table \<Rightarrow> u8 list \<Rightarrow> u32 \<Rightarrow> (nat \<Rightarrow> Elf32_Shdr res) \<Rightarrow> nat list \<Rightarrow>
    load_instr list \<Rightarrow> vm \<Rightarrow> (load_instr list \<times> vm) res" where
  "init_bss_sections cap junk pt data strtab hdr [] ls s = Inr (ls, s)"
| "init_bss_sections cap junk pt data strtab hdr (i # is) ls s =
     rbind (hdr i) (\<lambda>sh.
     rbind (is_bss data strtab sh) (\<lambda>bss.
     if bss then
       rbind (mmu_map_to_mem pt (sh_addr sh) (sh_size sh) False s) (\<lambda>s.
       rbind (add_instr cap ls (LOAD_ZERO (junk (length ls)) (sh_addr sh) (sh_size sh))) (\<lambda>ls.
       init_bss_sections cap junk pt data strtab hdr is ls s))
     else init_bss_sections cap junk pt data strtab hdr is ls s))"

definition is_data_section :: "u8 list \<Rightarrow> u32 \<Rightarrow> Elf32_Shdr \<Rightarrow> bool res" where
  "is_data_section data strtab sh =
     rbind (is_bss data strtab sh) (\<lambda>bss.
     if bss then Inr True
     else if sh_type sh = SHT_PROGBITS
     then rbind (name_is data strtab sh DATA) (\<lambda>d. if d then Inr True else name_is data strtab sh DATA1)
     else Inr False)"

fun get_heap_address :: "u8 list \<Rightarrow> u32 \<Rightarrow> (nat \<Rightarrow> Elf32_Shdr res) \<Rightarrow> nat list \<Rightarrow> u32 \<Rightarrow> u32 res" where
  "get_heap_address data strtab hdr [] heap_addr = Inr heap_addr"
| "get_heap_address data strtab hdr (i # is) heap_addr =
     rbind (hdr i) (\<lambda>sh.
     rbind (is_data_section data strtab sh) (\<lambda>d.
     get_heap_address data strtab hdr is (if d then max heap_addr (sh_addr sh + sh_size sh) else heap_addr)))"

fun locate_text_section :: "u8 list \<Rightarrow> u32 \<Rightarrow> (nat \<Rightarrow> Elf32_Shdr res) \<Rightarrow> nat list \<Rightarrow> Elf32_Shdr option res" where
  "locate_text_section data strtab hdr [] = Inr None"
| "locate_text_section data strtab hdr (i # is) =
     rbind (hdr i) (\<lambda>sh.
     rbind (if sh_type sh = SHT_PROGBITS then name_is data strtab sh TEXT else Inr False) (\<lambda>t.
     if t then Inr (Some sh) else locate_text_section data strtab hdr is))"

section \<open>Loading\<close>

text \<open>
  The loop over the program headers: \<open>None\<close> when a header is not supported. \<open>base\<close> is the address of
  the file in memory.
\<close>

fun load_segments :: "nat \<Rightarrow> u32 \<Rightarrow> page_table \<Rightarrow> (nat \<Rightarrow> Elf32_Phdr res) \<Rightarrow> nat list \<Rightarrow> load_instr list \<Rightarrow> vm \<Rightarrow>
    (load_instr list option \<times> vm) res" where
  "load_segments cap base pt seg [] ls s = Inr (Some ls, s)"
| "load_segments cap base pt seg (i # is) ls s =
     rbind (seg i) (\<lambda>ph.
     if p_type ph = PT_LOAD then
       rbind (mmu_map_to_mem pt (p_vaddr ph) (p_filesz ph) False s) (\<lambda>s.
       rbind (add_instr cap ls (LOAD_COPY (base + p_offset ph) (p_vaddr ph) (p_filesz ph))) (\<lambda>ls.
       load_segments cap base pt seg is ls s))
     else Inr (None, s))"

text \<open>The part of \<open>elf_load\<close> after the program headers: symbol table, bss, heap address, entry point.\<close>

definition finish_load :: "nat \<Rightarrow> (nat \<Rightarrow> u32) \<Rightarrow> u8 list \<Rightarrow> u32 \<Rightarrow> (nat \<Rightarrow> Elf32_Shdr res) \<Rightarrow> nat \<Rightarrow> load_instr list \<Rightarrow>
    process \<Rightarrow> vm \<Rightarrow> (load_instr list option \<times> process \<times> vm) res" where
  "finish_load cap junk data strtab hdr shnum ls proc s =
     rbind (locate_symbol_table hdr [0..<shnum]) (\<lambda>n_sym_tab.
     if n_sym_tab = 0 then Inr (None, proc, s)
     else
       rbind (init_bss_sections cap junk (page_tab proc) data strtab hdr [0..<shnum] ls s) (\<lambda>(ls, s).
       rbind (get_heap_address data strtab hdr [0..<shnum] 0) (\<lambda>heap.
       let proc = proc\<lparr>heap_start := heap\<rparr> in
       rbind (locate_text_section data strtab hdr [0..<shnum]) (\<lambda>text_sh.
       case text_sh of None \<Rightarrow> Inr (None, proc, s)
       | Some sh \<Rightarrow>
         rbind (add_instr cap ls (LOAD_JUMP (junk (length ls)) (sh_addr sh))) (\<lambda>ls. Inr (Some ls, proc, s))))))"

definition elf_load :: "nat \<Rightarrow> (nat \<Rightarrow> u32) \<Rightarrow> u32 \<Rightarrow> u8 list \<Rightarrow> u32 \<Rightarrow> process \<Rightarrow> vm \<Rightarrow>
    (load_instr list option \<times> process \<times> vm) res" where
  "elf_load cap junk base data ndata proc s =
     (if ndata < 52 then Inr (None, proc, s)
      else let ehdr = ehdr_of data in
      if \<not> elf_magic_valid ehdr then Inr (None, proc, s)
      else if e_type ehdr \<noteq> ET_EXEC then Inr (None, proc, s)
      else
        rbind (shdr_at data (e_shoff ehdr) (unat (e_shstrndx ehdr))) (\<lambda>strsh.
        rbind (load_segments cap base (page_tab proc) (phdr_at data (e_phoff ehdr)) [0..<unat (e_phnum ehdr)] [] s)
          (\<lambda>(segs, s).
        case segs of None \<Rightarrow> Inr (None, proc, s)
        | Some ls \<Rightarrow>
          finish_load cap junk data (sh_offset strsh) (shdr_at data (e_shoff ehdr)) (unat (e_shnum ehdr)) ls proc s)))"

section \<open>What a successful load has produced\<close>

fun collect :: "(nat \<Rightarrow> 'a res) \<Rightarrow> nat list \<Rightarrow> 'a list res" where
  "collect f [] = Inr []"
| "collect f (i # is) = rbind (f i) (\<lambda>x. rbind (collect f is) (\<lambda>xs. Inr (x # xs)))"

lemma load_segments_spec:
  "load_segments cap base pt seg is ls s = Inr (Some ls', s') \<Longrightarrow> length ls \<le> cap \<Longrightarrow>
   \<exists>phs. collect seg is = Inr phs \<and> (\<forall>ph \<in> set phs. p_type ph = PT_LOAD) \<and> length ls' \<le> cap \<and>
     ls' = ls @ map (\<lambda>ph. LOAD_COPY (base + p_offset ph) (p_vaddr ph) (p_filesz ph)) phs"
proof (induction "is" arbitrary: ls s)
  case (Cons i "is")
  from Cons.prems(1) obtain ph s1 where ph: "seg i = Inr ph" "p_type ph = PT_LOAD" and n: "length ls \<noteq> cap"
    and rest: "load_segments cap base pt seg is (ls @ [LOAD_COPY (base + p_offset ph) (p_vaddr ph) (p_filesz ph)]) s1 = Inr (Some ls', s')"
    by (auto simp: add_instr_def split: if_splits)
  from Cons.IH [OF rest] n Cons.prems(2) ph show ?case by auto
qed auto

lemma init_bss_spec:
  "init_bss_sections cap junk pt data strtab hdr is ls s = Inr (ls', s') \<Longrightarrow> length ls \<le> cap \<Longrightarrow>
   \<exists>shs zs. collect hdr is = Inr shs \<and> ls' = ls @ zs \<and> length ls' \<le> cap \<and>
     map (\<lambda>z. (dst_addr z, isize z)) zs = map (\<lambda>sh. (sh_addr sh, sh_size sh)) (filter (\<lambda>sh. is_bss data strtab sh = Inr True) shs) \<and>
     list_all is_LOAD_ZERO zs"
proof (induction "is" arbitrary: ls s)
  case (Cons i "is")
  from Cons.prems(1) obtain sh bss where sh: "hdr i = Inr sh" "is_bss data strtab sh = Inr bss" by auto
  show ?case
  proof (cases bss)
    case True
    with Cons.prems(1) sh obtain s1 where n: "length ls \<noteq> cap" and
      rest: "init_bss_sections cap junk pt data strtab hdr is (ls @ [LOAD_ZERO (junk (length ls)) (sh_addr sh) (sh_size sh)]) s1 = Inr (ls', s')"
      by (auto simp: add_instr_def)
    let ?z = "LOAD_ZERO (junk (length ls)) (sh_addr sh) (sh_size sh)"
    from Cons.IH [OF rest] n Cons.prems(2) obtain shs zs where "collect hdr is = Inr shs" "ls' = ls @ ?z # zs" "length ls' \<le> cap"
      "map (\<lambda>z. (dst_addr z, isize z)) zs = map (\<lambda>sh. (sh_addr sh, sh_size sh)) (filter (\<lambda>sh. is_bss data strtab sh = Inr True) shs)"
      "list_all is_LOAD_ZERO zs" by auto
    then show ?thesis using sh True by (intro exI [of _ "sh # shs"] exI [of _ "?z # zs"]) simp
  next
    case False
    with Cons.IH [of ls s] Cons.prems sh obtain shs zs where "collect hdr is = Inr shs" "ls' = ls @ zs" "length ls' \<le> cap"
      "map (\<lambda>z. (dst_addr z, isize z)) zs = map (\<lambda>sh. (sh_addr sh, sh_size sh)) (filter (\<lambda>sh. is_bss data strtab sh = Inr True) shs)"
      "list_all is_LOAD_ZERO zs" by auto
    then show ?thesis using sh False by (intro exI [of _ "sh # shs"] exI [of _ zs]) simp
  qed
qed auto

lemma get_heap_spec:
  "get_heap_address data strtab hdr is a = Inr h \<Longrightarrow> collect hdr is = Inr shs \<Longrightarrow>
   a \<le> h \<and> (\<forall>sh \<in> set shs. is_data_section data strtab sh = Inr True \<longrightarrow> sh_addr sh + sh_size sh \<le> h) \<and>
   (h = a \<or> (\<exists>sh \<in> set shs. is_data_section data strtab sh = Inr True \<and> h = sh_addr sh + sh_size sh))"
proof (induction "is" arbitrary: a shs)
  case (Cons i "is")
  from Cons.prems obtain sh d shs' where sh: "hdr i = Inr sh" "is_data_section data strtab sh = Inr d"
    "collect hdr is = Inr shs'" "shs = sh # shs'" by auto
  let ?a = "if d then max a (sh_addr sh + sh_size sh) else a"
  have "?a \<le> h \<and> (\<forall>sh \<in> set shs'. is_data_section data strtab sh = Inr True \<longrightarrow> sh_addr sh + sh_size sh \<le> h) \<and>
   (h = ?a \<or> (\<exists>sh \<in> set shs'. is_data_section data strtab sh = Inr True \<and> h = sh_addr sh + sh_size sh))"
    using Cons.IH [of ?a shs'] Cons.prems(1) sh by simp
  then show ?case using sh by (auto simp: max_def split: if_splits)
qed simp

lemma locate_text_spec:
  "locate_text_section data strtab hdr is = Inr (Some sh) \<Longrightarrow> collect hdr is = Inr shs \<Longrightarrow>
   sh \<in> set shs \<and> sh_type sh = SHT_PROGBITS \<and> name_is data strtab sh TEXT = Inr True"
  by (induction "is" arbitrary: shs) (auto split: if_splits)

text \<open>The instruction that copies a segment of the file to its virtual address.\<close>

definition copy_instr :: "u32 \<Rightarrow> Elf32_Phdr \<Rightarrow> load_instr" where
  "copy_instr base ph = LOAD_COPY (base + p_offset ph) (p_vaddr ph) (p_filesz ph)"

text \<open>The headers of a file, and the instructions and heap address that make the program they describe.\<close>

definition loads_program :: "nat \<Rightarrow> u32 \<Rightarrow> u8 list \<Rightarrow> Elf32_Phdr list \<Rightarrow> Elf32_Shdr list \<Rightarrow> Elf32_Shdr \<Rightarrow> load_instr list \<Rightarrow>
    u32 \<Rightarrow> Elf32_Shdr \<Rightarrow> load_instr list \<Rightarrow> u32 \<Rightarrow> bool" where
  "loads_program cap base data phs shs strsh zs j sh ls heap =
    (let eh = ehdr_of data; strtab = sh_offset strsh in
    elf_magic_valid eh \<and> e_type eh = ET_EXEC \<and>
    collect (phdr_at data (e_phoff eh)) [0..<unat (e_phnum eh)] = Inr phs \<and> (\<forall>ph \<in> set phs. p_type ph = PT_LOAD) \<and>
    collect (shdr_at data (e_shoff eh)) [0..<unat (e_shnum eh)] = Inr shs \<and>
    shdr_at data (e_shoff eh) (unat (e_shstrndx eh)) = Inr strsh \<and>
    ls = map (copy_instr base) phs @ zs @ [LOAD_JUMP j (sh_addr sh)] \<and> length ls \<le> cap \<and>
    list_all is_LOAD_ZERO zs \<and>
    map (\<lambda>z. (dst_addr z, isize z)) zs = map (\<lambda>sh. (sh_addr sh, sh_size sh)) (filter (\<lambda>sh. is_bss data strtab sh = Inr True) shs) \<and>
    sh \<in> set shs \<and> sh_type sh = SHT_PROGBITS \<and> name_is data strtab sh TEXT = Inr True \<and>
    (\<forall>d \<in> set shs. is_data_section data strtab d = Inr True \<longrightarrow> sh_addr d + sh_size d \<le> heap) \<and>
    (heap = 0 \<or> (\<exists>d \<in> set shs. is_data_section data strtab d = Inr True \<and> heap = sh_addr d + sh_size d)))"

lemma elf_load_spec:
  assumes "elf_load cap junk base data ndata proc s = Inr (Some ls, proc', s')"
  shows "\<exists>phs shs strsh zs j sh. loads_program cap base data phs shs strsh zs j sh ls (heap_start proc')"
proof -
  let ?eh = "ehdr_of data"
  have m: "elf_magic_valid ?eh" "e_type ?eh = ET_EXEC"
    using assms by (auto simp: elf_load_def Let_def split: if_splits)
  then obtain strsh ls1 s1 where str: "shdr_at data (e_shoff ?eh) (unat (e_shstrndx ?eh)) = Inr strsh"
    and seg: "load_segments cap base (page_tab proc) (phdr_at data (e_phoff ?eh)) [0..<unat (e_phnum ?eh)] [] s = Inr (Some ls1, s1)"
    and fin: "finish_load cap junk data (sh_offset strsh) (shdr_at data (e_shoff ?eh)) (unat (e_shnum ?eh)) ls1 proc s1 = Inr (Some ls, proc', s')"
    using assms by (auto simp: elf_load_def Let_def split: if_splits option.splits)
  let ?hdr = "shdr_at data (e_shoff ?eh)" and ?n = "unat (e_shnum ?eh)" and ?st = "sh_offset strsh"
  obtain phs where phs: "collect (phdr_at data (e_phoff ?eh)) [0..<unat (e_phnum ?eh)] = Inr phs" "\<forall>ph \<in> set phs. p_type ph = PT_LOAD"
    "length ls1 \<le> cap" "ls1 = map (copy_instr base) phs"
    using load_segments_spec [OF seg] by (auto simp: copy_instr_def)
  obtain ls2 s2 h sh where bss: "init_bss_sections cap junk (page_tab proc) data ?st ?hdr [0..<?n] ls1 s1 = Inr (ls2, s2)"
    and heap: "get_heap_address data ?st ?hdr [0..<?n] 0 = Inr h" and p: "proc' = proc\<lparr>heap_start := h\<rparr>"
    and tx: "locate_text_section data ?st ?hdr [0..<?n] = Inr (Some sh)" and n: "length ls2 \<noteq> cap"
    and ls: "ls = ls2 @ [LOAD_JUMP (junk (length ls2)) (sh_addr sh)]"
    using fin by (auto simp: finish_load_def Let_def add_instr_def split: if_splits option.splits)
  obtain shs zs where shs: "collect ?hdr [0..<?n] = Inr shs" "ls2 = ls1 @ zs" "length ls2 \<le> cap" "list_all is_LOAD_ZERO zs"
    "map (\<lambda>z. (dst_addr z, isize z)) zs = map (\<lambda>sh. (sh_addr sh, sh_size sh)) (filter (\<lambda>sh. is_bss data ?st sh = Inr True) shs)"
    using init_bss_spec [OF bss phs(3)] by blast
  show ?thesis
    unfolding loads_program_def Let_def
    by (rule exI [of _ phs], rule exI [of _ shs], rule exI [of _ strsh], rule exI [of _ zs],
      rule exI [of _ "junk (length ls2)"], rule exI [of _ sh])
      (use m str phs shs ls n p get_heap_spec [OF heap shs(1)] locate_text_spec [OF tx shs(1)] in auto)
qed

text \<open>
  C9: whenever \<open>elf_load\<close> succeeds, the file is an executable whose program headers are all loadable;
  the instructions are, within the capacity of the array, one copy for each program header in order,
  then one clearing for each bss section in order, then one jump, to a section named .text; and the
  heap of the process starts at the highest end of its data and bss sections (at 0 if it has none).
\<close>

theorem elf_load_program:
  assumes "elf_load cap junk base data ndata proc s = Inr (Some ls, proc', s')"
  shows "\<exists>phs shs strsh zs j sh. loads_program cap base data phs shs strsh zs j sh ls (heap_start proc')"
  by (rule elf_load_spec [OF assms])

text \<open>A small executable: one segment, and sections .text, .bss and a symbol table.\<close>

definition demo_elf :: "u8 list" where
  "demo_elf =
     [0x7F, 0x45, 0x4C, 0x46] @ replicate 12 0 @ [2, 0, 0x28, 0] @ word_bytes 1 @ word_bytes 0x100 @ word_bytes 52 @ word_bytes 84 @
     word_bytes 0 @ [52, 0, 32, 0, 1, 0, 40, 0, 3, 0, 0, 0] @
     concat (map word_bytes [1, 204, 0x100, 0x100, 20, 20, 5, 1]) @
     concat (map word_bytes [0, 1, 0, 0x100, 204, 20, 0, 0, 0, 0]) @
     concat (map word_bytes [6, 8, 0, 0x200, 0, 0x40, 0, 0, 0, 0]) @
     concat (map word_bytes [11, 2, 0, 0, 0, 32, 0, 0, 0, 16]) @ TEXT @ [0] @ BSS @ [0] @ replicate 9 0"

definition demo_proc :: process where
  "demo_proc = \<lparr>heap_start = 0, heap_end = 0, page_tab = \<lparr>pt_asid = 2, vaddr_map = 2\<rparr>\<rparr>"

definition demo_vm :: vm where
  "demo_vm = \<lparr>asid_map = [], tt = \<lambda>_. [], syncs = []\<rparr>"

definition demo_load :: "(load_instr list option \<times> process \<times> vm) res" where
  "demo_load = elf_load 256 (\<lambda>_. 0) 0x10000000 demo_elf 224 demo_proc demo_vm"

lemma demo_load_result:
  "case demo_load of Inr (Some ls, p, _) \<Rightarrow> heap_start p = 0x240 \<and>
     ls = [LOAD_COPY 0x100000CC 0x100 20, LOAD_ZERO 0 0x200 0x40, LOAD_JUMP 0 0x100] | _ \<Rightarrow> False"
  by code_simp

theorem elf_load_program_witness:
  "\<exists>ls p s'. elf_load 256 (\<lambda>_. 0) 0x10000000 demo_elf 224 demo_proc demo_vm = Inr (Some ls, p, s') \<and>
     heap_start p = 0x240 \<and> length ls = 3 \<and>
     (\<exists>phs shs strsh zs j sh. loads_program 256 0x10000000 demo_elf phs shs strsh zs j sh ls (heap_start p))"
proof -
  obtain ls p s' where l: "elf_load 256 (\<lambda>_. 0) 0x10000000 demo_elf 224 demo_proc demo_vm = Inr (Some ls, p, s')"
    and h: "heap_start p = 0x240" "length ls = 3"
    using demo_load_result unfolding demo_load_def by (auto split: sum.splits prod.splits option.splits)
  show ?thesis by (rule exI [of _ ls], rule exI [of _ p], rule exI [of _ s'], intro conjI l h elf_load_program [OF l])
qed

end
