(* ===== verification/Pi_Printf.thy ===== *)
theory Pi_Printf
  imports Pi_Prelude
begin

text \<open>
  Formatted output of the Pi, pi-side/libpi/printf.c, as it is built (without floating point). Strings
  are lists of bytes without their terminating NUL. The bounded formatter \<open>va_printk\<close> is shown
  to write the unbounded expansion \<open>format\<close> cut to its buffer, and the numbers \<open>emit\<close> prints are shown to
  read back as the values printed.
\<close>

section \<open>Numbers\<close>

definition str :: "string \<Rightarrow> u8 list" where
  "str s = map of_char s"

text \<open>
  The loop \<open>do { *p++ = tab[u % b]; } while (u /= b)\<close>, least significant digit first. It is used at 2, 10
  and 16 only, so the test that the base is above one, needed for termination, never fails.
\<close>

function emit_digits :: "u32 \<Rightarrow> u32 \<Rightarrow> u8 list" where
  "emit_digits b u =
     str ''0123456789abcdef'' ! unat (u mod b) # (if 1 < b \<and> u div b \<noteq> 0 then emit_digits b (u div b) else [])"
  by pat_completeness auto
termination
proof (relation "measure (\<lambda>(b, u). unat u)")
  fix b u :: u32
  assume "1 < b \<and> u div b \<noteq> 0"
  then have "1 < unat b" "unat u div unat b \<noteq> 0" by (simp_all add: word_less_nat_alt unat_div word_unat_eq_iff)
  then have "unat u div unat b < unat u" by (metis div_less_dividend div_0 gr0I)
  then show "((b, u div b), b, u) \<in> measure (\<lambda>(b, u). unat u)" by (simp add: unat_div)
qed simp

declare emit_digits.simps [simp del]

definition pad :: "u8 list \<Rightarrow> nat \<Rightarrow> u8 list" where
  "pad p width = p @ replicate (width - length p) 0x20"

text \<open>\<open>reverse\<close> into a buffer of \<open>n\<close> bytes, dropping the characters that would come last if they do not fit.\<close>

definition reverse :: "nat \<Rightarrow> u8 list \<Rightarrow> u8 list" where
  "reverse n p = (let len = length p + 1 in rev (if n < len then drop (len - n) p else p))"

definition emit :: "nat \<Rightarrow> nat \<Rightarrow> u32 \<Rightarrow> nat \<Rightarrow> bool \<Rightarrow> u8 list res" where
  "emit base n val width signed_p =
     (let width = (if n < width then n - 1 else width) in
      rbind (if base = 10 then
               let neg_p = (val <s 0 \<and> signed_p); u = (if neg_p then - val else val)
               in Inr (emit_digits 10 u @ (if neg_p then str ''-'' else []))
             else if base = 16 then Inr (emit_digits 16 val)
             else if base = 8 then Inr [ucast val]
             else if base = 2 then Inr (emit_digits 2 val)
             else Inl AssertFault) (\<lambda>p.
      let q = pad p width in
      if 64 \<le> length q then Inl BadAccess else Inr (reverse n q)))"

section \<open>Formatting\<close>

datatype arg = Num u32 | Text "u8 list"

definition isdigit :: "u8 \<Rightarrow> bool" where
  "isdigit c \<longleftrightarrow> 0x30 \<le> c \<and> c \<le> 0x39"

fun get_width :: "u32 \<Rightarrow> u8 list \<Rightarrow> u32 \<times> u8 list" where
  "get_width width [] = (width, [])"
| "get_width width (c # fmt) =
     (if isdigit c then get_width (width * 10 + ucast c - 0x30) fmt else (width, c # fmt))"

text \<open>The next argument as a number or as a string; an argument of the other kind is undefined behaviour.\<close>

definition num_arg :: "(u32 \<Rightarrow> u8 list res) \<Rightarrow> arg list \<Rightarrow> (u8 list \<times> arg list) res" where
  "num_arg f args = (case args of Num v # args \<Rightarrow> rbind (f v) (\<lambda>s. Inr (s, args)) | _ \<Rightarrow> Inl BadAccess)"

definition conversion :: "u8 \<Rightarrow> nat \<Rightarrow> arg list \<Rightarrow> (u8 list \<times> arg list) res" where
  "conversion c width args =
     (if c \<in> set (str ''f'') then Inl PanicFault
      else if c \<in> set (str ''di'') then num_arg (\<lambda>v. emit 10 128 v width True) args
      else if c \<in> set (str ''u'') then num_arg (\<lambda>v. emit 10 128 v width False) args
      else if c \<in> set (str ''px'') then num_arg (\<lambda>v. emit 16 128 v width False) args
      else if c \<in> set (str ''b'') then num_arg (\<lambda>v. emit 2 128 v width False) args
      else if c \<in> set (str ''s'') then (case args of Text s # args \<Rightarrow> Inr (s, args) | _ \<Rightarrow> Inl BadAccess)
      else if c \<in> set (str ''c'') then num_arg (\<lambda>v. emit 8 128 v width False) args
      else Inl PanicFault)"

text \<open>A conversion from the character after its percent sign: the string, the arguments and the format left.\<close>

definition convert :: "u8 list \<Rightarrow> arg list \<Rightarrow> (u8 list \<times> arg list \<times> u8 list) res" where
  "convert fmt args =
     (let (width, fmt) = get_width 0 fmt in
      if \<not> width < 32 then Inl AssertFault
      else case fmt of [] \<Rightarrow> Inl PanicFault
        | c # fmt \<Rightarrow> rbind (conversion c (unat width) args) (\<lambda>(s, args). Inr (takeWhile (\<lambda>b. b \<noteq> 0) s, args, fmt)))"

lemma get_width_shorter: "get_width w fmt = (w', fmt') \<Longrightarrow> length fmt' \<le> length fmt"
  by (induction w fmt rule: get_width.induct) (auto split: if_splits)

lemma convert_shorter: "convert fmt args = Inr (s, args', fmt') \<Longrightarrow> length fmt' < Suc (length fmt)"
  by (auto simp: convert_def split: prod.splits if_splits list.splits dest: get_width_shorter)

text \<open>The loop with \<open>room\<close> bytes left before the last one of the buffer, which is kept for the NUL.\<close>

function va_loop :: "nat \<Rightarrow> u8 list \<Rightarrow> arg list \<Rightarrow> u8 list res" where
  "va_loop room fmt args =
     (if room = 0 then Inr []
      else case fmt of
        [] \<Rightarrow> Inr []
      | c # fmt \<Rightarrow>
          if c \<noteq> 0x25 then rbind (va_loop (room - 1) fmt args) (\<lambda>out. Inr (c # out))
          else if fmt \<noteq> [] \<and> hd fmt = 0x25 then rbind (va_loop (room - 1) (tl fmt) args) (\<lambda>out. Inr (c # out))
          else (case convert fmt args of Inl e \<Rightarrow> Inl e
                | Inr (s, args, fmt) \<Rightarrow>
                    rbind (va_loop (room - length (take room s)) fmt args) (\<lambda>out. Inr (take room s @ out))))"
  by pat_completeness auto
termination
  by (relation "measure (\<lambda>(room, fmt, args). length fmt)") (auto dest: convert_shorter)

declare va_loop.simps [simp del]

text \<open>The bytes stored before the NUL, and the value returned.\<close>

definition va_printk :: "nat \<Rightarrow> u8 list \<Rightarrow> arg list \<Rightarrow> (u8 list \<times> nat) res" where
  "va_printk n fmt args =
     (if n = 0 then Inl BadAccess else rbind (va_loop (n - 1) fmt args) (\<lambda>out. Inr (out, length out + 1)))"

definition snprintk :: "nat \<Rightarrow> u8 list \<Rightarrow> arg list \<Rightarrow> (u8 list \<times> nat) res" where
  "snprintk n fmt args = va_printk n fmt args"

text \<open>The bytes sent to the serial port.\<close>

definition printk :: "u8 list \<Rightarrow> arg list \<Rightarrow> u8 list res" where
  "printk fmt args = rbind (va_printk 1024 fmt args) (\<lambda>(buf, sz). Inr (takeWhile (\<lambda>b. b \<noteq> 0) buf))"

text \<open>Most formats end in a newline: \<open>printk(fmt "\n", args)\<close>.\<close>

definition printk_nl :: "string \<Rightarrow> arg list \<Rightarrow> u8 list res" where
  "printk_nl fmt args = printk (str fmt @ [0x0A]) args"

definition tab_nl :: "string \<Rightarrow> arg list \<Rightarrow> u8 list res" where
  "tab_nl fmt args = printk (0x09 # str fmt @ [0x0A]) args"

text \<open>Several calls of \<open>printk\<close> in a row; the first that fails ends the output.\<close>

fun prints :: "u8 list res list \<Rightarrow> u8 list res" where
  "prints [] = Inr []"
| "prints (p # ps) = rbind p (\<lambda>a. rbind (prints ps) (\<lambda>b. Inr (a @ b)))"

definition putk :: "u8 list \<Rightarrow> u8 list" where
  "putk p = takeWhile (\<lambda>b. b \<noteq> 0) p"

section \<open>Truncation\<close>

function format :: "u8 list \<Rightarrow> arg list \<Rightarrow> u8 list res" where
  "format fmt args =
     (case fmt of
        [] \<Rightarrow> Inr []
      | c # fmt \<Rightarrow>
          if c \<noteq> 0x25 then rbind (format fmt args) (\<lambda>out. Inr (c # out))
          else if fmt \<noteq> [] \<and> hd fmt = 0x25 then rbind (format (tl fmt) args) (\<lambda>out. Inr (c # out))
          else (case convert fmt args of Inl e \<Rightarrow> Inl e
                | Inr (s, args, fmt) \<Rightarrow> rbind (format fmt args) (\<lambda>out. Inr (s @ out))))"
  by pat_completeness auto
termination
  by (relation "measure (\<lambda>(fmt, args). length fmt)") (auto dest: convert_shorter)

lemmas format_Cons = format.simps [of "c # fmt" for c fmt, simplified list.case]
lemmas va_loop_Cons = va_loop.simps [of "Suc room" "c # fmt" for room c fmt, simplified nat.distinct if_False list.case]

declare format.simps [simp del]

lemma take_min_diff [simp]: "take (n - min l n) xs = take (n - l) xs"
  by (simp add: min_def)

lemma va_loop_take: "format fmt args = Inr full \<Longrightarrow> va_loop room fmt args = Inr (take room full)"
proof (induction fmt args arbitrary: room full rule: format.induct)
  case (1 fmt args)
  show ?case
  proof (cases "room = 0")
    case True
    then show ?thesis by (simp add: va_loop.simps [of 0])
  next
    case False
    then obtain r where r: "room = Suc r" by (cases room) auto
    show ?thesis
    proof (cases fmt)
      case Nil
      then show ?thesis using "1.prems" by (simp add: va_loop.simps [of _ "[]"] format.simps [of "[]"])
    next
      case (Cons c f)
      show ?thesis
        using "1.prems" "1.IH" [OF Cons] r
        by (auto simp: va_loop_Cons format_Cons Cons split: if_splits sum.splits prod.splits)
    qed
  qed
qed

lemma get_width_set: "get_width w fmt = (w', fmt') \<Longrightarrow> x \<in> set fmt' \<Longrightarrow> x \<in> set fmt"
  by (induction w fmt rule: get_width.induct) (auto split: if_splits)

lemma convert_bytes: "convert fmt args = Inr (s, args', fmt') \<Longrightarrow> 0 \<notin> set s \<and> set fmt' \<subseteq> set fmt"
  by (auto simp: convert_def split: prod.splits if_splits list.splits dest: get_width_set set_takeWhileD)

lemma format_char: "c \<noteq> 0x25 \<Longrightarrow> format (c # f) args = rbind (format f args) (\<lambda>out. Inr (c # out))"
  by (simp only: format_Cons if_True not_False_eq_True)

lemma format_escape:
  "f \<noteq> [] \<and> hd f = 0x25 \<Longrightarrow> format (0x25 # f) args = rbind (format (tl f) args) (\<lambda>out. Inr (0x25 # out))"
  by (subst format_Cons) simp

lemma format_convert:
  "\<not> (f \<noteq> [] \<and> hd f = 0x25) \<Longrightarrow> format (0x25 # f) args =
     (case convert f args of Inl e \<Rightarrow> Inl e | Inr (s, args, fmt) \<Rightarrow> rbind (format fmt args) (\<lambda>out. Inr (s @ out)))"
  by (subst format_Cons) (simp only: if_not_P if_False not_True_eq_False)

lemma format_convert_Inr:
  assumes "\<not> (f \<noteq> [] \<and> hd f = 0x25)" "format (0x25 # f) args = Inr full"
  shows "\<exists>s args' fmt' out. convert f args = Inr (s, args', fmt') \<and> format fmt' args' = Inr out \<and> full = s @ out"
  using assms(2) unfolding format_convert [OF assms(1)] by (auto split: sum.splits)

lemma format_no_nul: "0 \<notin> set fmt \<Longrightarrow> format fmt args = Inr full \<Longrightarrow> 0 \<notin> set full"
proof (induction fmt args arbitrary: full rule: format.induct)
  case (1 fmt args)
  show ?case
  proof (cases fmt)
    case Nil
    then show ?thesis using "1.prems" by (simp add: format.simps [of "[]"])
  next
    case (Cons c f)
    have tl: "0 \<notin> set f \<Longrightarrow> 0 \<notin> set (tl f)" by (cases f) auto
    consider "c \<noteq> 0x25" | "c = 0x25" "f \<noteq> [] \<and> hd f = 0x25" | "c = 0x25" "\<not> (f \<noteq> [] \<and> hd f = 0x25)" by blast
    then show ?thesis
    proof cases
      case 1
      then obtain out where "format f args = Inr out" "full = c # out" using "1.prems"(2) Cons by (auto simp: format_char)
      then show ?thesis using "1.IH"(1) [OF Cons 1] "1.prems"(1) Cons by simp
    next
      case 2
      have "rbind (format (tl f) args) (\<lambda>out. Inr (0x25 # out)) = Inr full"
        using "1.prems"(2) unfolding Cons 2(1) format_escape [OF 2(2)] .
      then obtain out where out: "format (tl f) args = Inr out" "full = 0x25 # out" by auto
      have "\<not> c \<noteq> 0x25" "0 \<notin> set (tl f)" using 2(1) tl "1.prems"(1) Cons by auto
      from "1.IH"(2) [OF Cons this(1) 2(2) this(2) out(1)] show ?thesis unfolding out(2) by simp
    next
      case 3
      then obtain s args' fmt' out where
        o: "convert f args = Inr (s, args', fmt')" "format fmt' args' = Inr out" "full = s @ out"
        using format_convert_Inr [of f args full] "1.prems"(2) Cons by blast
      moreover have "0 \<notin> set s" "0 \<notin> set fmt'" using convert_bytes [OF o(1)] "1.prems"(1) Cons by auto
      ultimately show ?thesis using "1.IH"(3) [OF Cons _ _ o(1) refl refl _ o(2)] 3 by simp
    qed
  qed
qed

text \<open>
  The return value is the number of bytes written with the NUL. The comment at the head of the file
  quotes the manual of \<open>snprintf\<close>, by which it should be the number of bytes needed.
\<close>

lemma snprintk_returns:
  assumes "format fmt args = Inr full" "0 < n"
  shows "snprintk n fmt args = Inr (take (n - 1) full, min (length full) (n - 1) + 1)"
  using va_loop_take [OF assms(1)] assms(2) by (simp add: snprintk_def va_printk_def)


lemma printk_format:
  assumes "format fmt args = Inr full" "0 \<notin> set fmt"
  shows "printk fmt args = Inr (take 1023 full)"
proof -
  have "0 \<notin> set (take 1023 full)" using format_no_nul [OF assms(2,1)] by (meson in_set_takeD)
  then have "takeWhile (\<lambda>b. b \<noteq> 0) (take 1023 full) = take 1023 full" by (simp add: takeWhile_eq_all_conv) blast
  then show ?thesis using va_loop_take [OF assms(1), of 1023] by (simp add: printk_def va_printk_def)
qed


section \<open>Numbers read back\<close>

definition digit_value :: "u8 \<Rightarrow> nat" where
  "digit_value c = (if c \<le> 0x39 then unat (c - 0x30) else unat (c - 0x57))"

fun read_nat :: "nat \<Rightarrow> nat \<Rightarrow> u8 list \<Rightarrow> nat" where
  "read_nat b acc [] = acc"
| "read_nat b acc (c # cs) = read_nat b (acc * b + digit_value c) cs"

definition read_int :: "u8 list \<Rightarrow> int" where
  "read_int s = (case s of c # cs \<Rightarrow> if c = 0x2D then - int (read_nat 10 0 cs) else int (read_nat 10 0 s) | [] \<Rightarrow> 0)"

lemma digit_value_digit: "d < 16 \<Longrightarrow> digit_value (str ''0123456789abcdef'' ! d) = d"
proof -
  have "\<forall>d \<in> {..<16}. digit_value (str ''0123456789abcdef'' ! d) = d" by code_simp
  then show "d < 16 \<Longrightarrow> digit_value (str ''0123456789abcdef'' ! d) = d" by blast
qed

lemma read_nat_append: "read_nat b acc (xs @ [c]) = read_nat b acc xs * b + digit_value c"
  by (induction xs arbitrary: acc) auto

lemma read_emit_digits:
  "1 < b \<Longrightarrow> b \<le> 16 \<Longrightarrow> read_nat (unat b) 0 (rev (emit_digits b u)) = unat u"
proof (induction b u rule: emit_digits.induct)
  case (1 b u)
  have b: "0 < unat b" "unat b \<le> 16" using "1.prems" by (simp_all add: word_less_nat_alt word_le_nat_alt)
  have m: "digit_value (str ''0123456789abcdef'' ! unat (u mod b)) = unat u mod unat b"
    using digit_value_digit [of "unat (u mod b)"] b mod_less_divisor [OF b(1), of "unat u"] by (simp add: unat_mod)
  show ?case
  proof (cases "u div b = 0")
    case True
    then have "unat u div unat b = 0" by (metis unat_0 unat_div)
    then have "unat u mod unat b = unat u" by (metis add_0 div_mult_mod_eq mult_0)
    then show ?thesis using True m by (simp add: emit_digits.simps [of b u])
  next
    case False
    then show ?thesis using "1.IH" "1.prems" m div_mult_mod_eq [of "unat u" "unat b"]
      by (simp add: emit_digits.simps [of b u] read_nat_append unat_div)
  qed
qed

lemma length_emit_digits: "1 < b \<Longrightarrow> unat u < 2 ^ n \<Longrightarrow> length (emit_digits b u) \<le> max 1 n"
proof (induction n arbitrary: u)
  case 0
  then have "u = 0" by (simp add: unat_eq_zero)
  then show ?case by (simp add: emit_digits.simps [of b])
next
  case (Suc n)
  have "1 < unat b" using Suc.prems(1) by (simp add: word_less_nat_alt)
  then have "unat u div unat b \<le> unat u div 2" by (intro div_le_mono2) auto
  then have "unat (u div b) < 2 ^ n" using Suc.prems(2) by (simp add: unat_div)
  then show ?case using Suc.IH [OF Suc.prems(1), of "u div b"]
    by (cases "u div b = 0"; cases n) (auto simp: emit_digits.simps [of b u] unat_eq_zero)
qed

lemma sint_negative:
  fixes v :: u32
  assumes "v <s 0"
  shows "sint v = - int (unat (- v))"
proof -
  have "sint v < 0" using assms by (simp add: word_sless_alt)
  moreover have "- (2 ^ 31) \<le> sint v" using sint_ge [of v] by simp
  moreover have "uint (- v) = take_bit 32 (- sint v)"
    using uint_word_of_int_eq [of "- sint v", where 'a = 32] by simp
  ultimately show ?thesis by (simp add: take_bit_int_eq_self)
qed

lemma sint_nonnegative: "\<not> v <s 0 \<Longrightarrow> sint v = int (unat v)" for v :: u32
proof -
  assume "\<not> v <s 0"
  then have "0 \<le> sint v" by (simp add: word_sless_alt)
  moreover have "sint v < 2 ^ 31" using sint_lt [of v] by simp
  moreover have "uint v = take_bit 32 (sint v)" using uint_word_of_int_eq [of "sint v", where 'a = 32] by simp
  ultimately show ?thesis by (simp add: take_bit_int_eq_self)
qed

lemma emit_digits_chars: "1 < b \<Longrightarrow> b \<le> 16 \<Longrightarrow> 0x2D \<notin> set (emit_digits b u) \<and> emit_digits b u \<noteq> []"
proof (induction b u rule: emit_digits.induct)
  case (1 b u)
  have b: "0 < unat b" "unat b \<le> 16" using "1.prems" by (simp_all add: word_less_nat_alt word_le_nat_alt)
  then have "unat (u mod b) < 16" using mod_less_divisor [OF b(1), of "unat u"] by (simp add: unat_mod)
  moreover have "\<forall>d \<in> {..<16}. str ''0123456789abcdef'' ! d \<noteq> 0x2D" by code_simp
  ultimately have "str ''0123456789abcdef'' ! unat (u mod b) \<noteq> 0x2D" by blast
  then show ?case using "1.IH" "1.prems" by (cases "u div b = 0") (auto simp: emit_digits.simps [of b u])
qed

lemma emit_padded:
  assumes "length p \<le> 33" "w < 32"
  shows "pad p w = q \<Longrightarrow> length q < 64 \<and> reverse 128 q = replicate (w - length (rev p)) 0x20 @ rev p"
  using assms by (auto simp: pad_def reverse_def)

lemma read_int_digits:
  assumes "0x2D \<notin> set t" "t \<noteq> []"
  shows "read_int t = int (read_nat 10 0 t)" "read_int (0x2D # t) = - int (read_nat 10 0 t)"
  using assms by (auto simp: read_int_def split: list.splits)

text \<open>
  C37: A number printed in decimal, signed or unsigned, at any field width the formatter accepts, is a
  numeral that reads back as the number, after the spaces that fill the field; the smallest
  signed number, whose negation overflows, included. In hexadecimal likewise.
\<close>

theorem emit_reads_back:
  assumes "w < 32"
  shows "(\<exists>t. emit 10 128 v w s = Inr (replicate (w - length t) 0x20 @ t) \<and> read_int t = (if s then sint v else uint v)) \<and>
         (\<exists>t. emit 16 128 v w s = Inr (replicate (w - length t) 0x20 @ t) \<and> read_nat 16 0 t = unat v)"
proof (intro conjI)
  have len: "length (emit_digits b u) \<le> 32" if "1 < b" for b u :: u32
    using length_emit_digits [OF that, of u 32] unsigned_less [of u] by simp
  have hex: "length (pad (emit_digits 16 v) w) < 64"
      "reverse 128 (pad (emit_digits 16 v) w) = replicate (w - length (rev (emit_digits 16 v))) 0x20 @ rev (emit_digits 16 v)"
    using emit_padded [OF _ assms refl, of "emit_digits 16 v"] len [of 16 v] by simp_all
  then have "emit 16 128 v w s = Inr (replicate (w - length (rev (emit_digits 16 v))) 0x20 @ rev (emit_digits 16 v))"
    using assms by (simp add: emit_def)
  then show "\<exists>t. emit 16 128 v w s = Inr (replicate (w - length t) 0x20 @ t) \<and> read_nat 16 0 t = unat v"
    using read_emit_digits [of 16 v] by (intro exI [of _ "rev (emit_digits 16 v)"]) auto
  define neg where "neg \<longleftrightarrow> v <s 0 \<and> s"
  define u where "u = (if neg then - v else v)"
  define p where "p = emit_digits 10 u @ (if neg then str ''-'' else [])"
  have "length p \<le> 33" using len [of 10 u] by (simp add: p_def str_def)
  from emit_padded [OF this assms refl]
  have "emit 10 128 v w s = Inr (replicate (w - length (rev p)) 0x20 @ rev p)"
    using assms by (simp add: emit_def p_def u_def neg_def Let_def)
  moreover have "read_int (rev p) = (if s then sint v else uint v)"
    using read_int_digits [of "rev (emit_digits 10 u)"] emit_digits_chars [of 10 u] read_emit_digits [of 10 u]
      sint_negative [of v] sint_nonnegative [of v]
    by (auto simp: p_def u_def neg_def str_def)
  ultimately show "\<exists>t. emit 10 128 v w s = Inr (replicate (w - length t) 0x20 @ t) \<and> read_int t = (if s then sint v else uint v)"
    by blast
qed

theorem emit_reads_back_witness:
  "(\<exists>t. emit 10 128 0x80000000 12 True = Inr (replicate (12 - length t) 0x20 @ t) \<and> read_int t = - 2147483648) \<and>
   emit 10 128 (- 42) 6 True = Inr (str ''   -42'')"
proof -
  have "sint (0x80000000 :: u32) = - 2147483648" by simp
  moreover have "emit 10 128 (- 42) 6 True = Inr (str ''   -42'')" by code_simp
  ultimately show ?thesis using emit_reads_back [of 12 "0x80000000" True] by simp
qed

section \<open>Lines of text\<close>

lemma format_s: "format (str ''%s'' @ f) (Text s # args) = rbind (format f args) (\<lambda>out. Inr (takeWhile (\<lambda>b. b \<noteq> 0) s @ out))"
proof -
  have "convert (0x73 # f) (Text s # args) = Inr (takeWhile (\<lambda>b. b \<noteq> 0) s, args, f)"
    by (simp add: convert_def conversion_def isdigit_def str_def)
  then show ?thesis using format_convert [of "0x73 # f" "Text s # args"] by (simp add: str_def)
qed

lemma format_plain: "0x25 \<notin> set f \<Longrightarrow> format f [] = Inr f"
proof (induction f)
  case Nil
  then show ?case by (simp add: format.simps [of "[]"])
next
  case (Cons c f)
  then show ?case using format_char [of c f "[]"] by simp
qed

text \<open>The formats the kernel's shell prints with: a string and fixed text.\<close>

lemma printk_nl_s:
  assumes "0x25 \<notin> set (str f)" "0 \<notin> set (str f)"
  shows "printk_nl (''%s'' @ f) [Text s] = Inr (take 1023 (takeWhile (\<lambda>b. b \<noteq> 0) s @ str f @ [0x0A]))"
proof -
  have "format (str ''%s'' @ str f @ [0x0A]) [Text s] = Inr (takeWhile (\<lambda>b. b \<noteq> 0) s @ str f @ [0x0A])"
    using format_plain [of "str f @ [0x0A]"] assms(1) by (simp only: format_s) simp
  moreover have "0 \<notin> set (str ''%s'' @ str f @ [0x0A])" using assms(2) by (simp add: str_def)
  ultimately have "printk (str ''%s'' @ str f @ [0x0A]) [Text s] = Inr (take 1023 (takeWhile (\<lambda>b. b \<noteq> 0) s @ str f @ [0x0A]))"
    by (rule printk_format)
  then show ?thesis by (simp add: printk_nl_def str_def)
qed

lemma printk_nl_plain:
  assumes "0x25 \<notin> set (str f)" "0 \<notin> set (str f)"
  shows "printk_nl f [] = Inr (take 1023 (str f @ [0x0A]))"
  using printk_format [of "str f @ [0x0A]" "[]"] assms by (simp add: printk_nl_def format_plain)

end
