(* ===== verification/Pi_Fs.thy ===== *)
theory Pi_Fs
  imports Pi_Fat32 Pi_Crc32 Pi_Printf
begin

text \<open>
  The read-only FAT32 file system of pi-side/kernel/disk/fs.c. The functions take the block device
  as an argument: \<open>dev lba n\<close> is what \<open>sd_readblock(lba, buffer, n)\<close> returns and the bytes it
  stores in the buffer. A buffer from \<open>kmalloc\<close> is a list of bytes; storing past its end, or
  indexing past the end of the table, is \<open>BadAccess\<close>. Following a chain of clusters may not end,
  so the functions that do are partial: \<open>None\<close> is a loop that runs forever. Strings are the bytes
  before the terminating NUL.
\<close>

section \<open>Data\<close>

type_synonym dev = "u32 \<Rightarrow> u32 \<Rightarrow> u32 \<times> u8 list"

record pi_file =
  f_data :: "u8 list"
  f_cksum :: u32
  n_alloc :: u32
  n_data :: u32

record dirent =
  de_name :: "u8 list"
  cluster_id :: u32
  is_dir_p :: bool
  nbytes :: u32

type_synonym pi_dir = "dirent list"

record fat32_fs =
  fat_begin_lba :: u32
  cluster_begin_lba :: u32
  sectors_per_cluster :: u32
  root_dir_first_cluster :: u32
  fat :: "u32 list"
  n_fat :: u32

definition SECTOR_SIZE :: u32 where "SECTOR_SIZE = 512"

section \<open>Mounting\<close>

definition sec_read :: "dev \<Rightarrow> u32 \<Rightarrow> u32 \<Rightarrow> u8 list res" where
  "sec_read dev lba nsec =
     (let (result, bytes) = dev lba nsec in
      if unat (nsec * SECTOR_SIZE) < length bytes then Inl BadAccess
      else rbind (demand_that (result = nsec * SECTOR_SIZE)) (\<lambda>_. Inr bytes))"

definition fat_words :: "u8 list \<Rightarrow> u32 list" where
  "fat_words bs = map (\<lambda>i. le32 bs (4 * i)) [0..<length bs div 4]"

definition fat32_mk :: "dev \<Rightarrow> u32 \<Rightarrow> boot_sec \<Rightarrow> fat32_fs res" where
  "fat32_mk dev lba b =
     (let begin_lba = lba + ucast (reserved_area_nsec b) in
      rbind (sec_read dev begin_lba (nsec_per_fat b)) (\<lambda>fat1.
      rbind (sec_read dev (begin_lba + nsec_per_fat b) (nsec_per_fat b)) (\<lambda>fat2.
      rbind (assert_that (take (unat (nsec_per_fat b)) fat1 = take (unat (nsec_per_fat b)) fat2)) (\<lambda>_.
      Inr \<lparr>fat_begin_lba = begin_lba,
           cluster_begin_lba = begin_lba + ucast (nfats b) * nsec_per_fat b,
           sectors_per_cluster = ucast (sec_per_cluster b),
           root_dir_first_cluster = first_cluster b,
           fat = fat_words fat1,
           n_fat = ucast (nfats b)\<rparr>))))"

definition fat32_init :: "dev \<Rightarrow> fat32_fs res" where
  "fat32_init dev =
     rbind (sec_read dev 0 1) (\<lambda>sec0.
     let m = mbr_of sec0 in
     rbind (fat32_mbr_check m) (\<lambda>_.
     rbind (assert_that (\<not> fat32_partition_empty (part_raw m ! 0))) (\<lambda>_.
     rbind (assert_that (fat32_partition_empty (part_raw m ! 1))) (\<lambda>_.
     rbind (assert_that (fat32_partition_empty (part_raw m ! 2))) (\<lambda>_.
     rbind (assert_that (fat32_partition_empty (part_raw m ! 3))) (\<lambda>_.
     let p = part_tab m ! 0 in
     rbind (assert_that (is_fat32 (part_type p))) (\<lambda>_.
     rbind (sec_read dev (lba_start p) 1) (\<lambda>sec.
     let b = boot_sec_of sec in
     rbind (fat32_volume_id_check b) (\<lambda>_.
     fat32_mk dev (lba_start p) b)))))))))"

definition cluster_to_lba :: "fat32_fs \<Rightarrow> u32 \<Rightarrow> u32" where
  "cluster_to_lba f cluster_num =
     cluster_begin_lba f + (cluster_num - root_dir_first_cluster f) * sectors_per_cluster f"

section \<open>Directories\<close>

definition fat32_dir_cnt_entries :: "u8 list list \<Rightarrow> nat" where
  "fat32_dir_cnt_entries d =
     length (filter (\<lambda>e. \<not> fat32_dirent_free e \<and> d_attr (dir_of e) \<noteq> FAT32_LONG_FILE_NAME) d)"

definition dirent_of :: "u8 list \<Rightarrow> fat32_dir \<Rightarrow> dirent" where
  "dirent_of name d =
     \<lparr>de_name = takeWhile (\<lambda>c. c \<noteq> 0) name,
      cluster_id = push_bit 16 (ucast (hi_start d)) + ucast (lo_start d),
      is_dir_p = (d_attr d AND FAT32_DIR \<noteq> 0),
      nbytes = file_nbytes d\<rparr>"

lemma rbind_cong [fundef_cong]:
  "m = m' \<Longrightarrow> (\<And>x. m' = Inr x \<Longrightarrow> f x = f' x) \<Longrightarrow> rbind m f = rbind m' f'"
  by (cases m') auto

lemma fat32_dir_filename_suffix:
  "fat32_dir_filename es = Inr (name, es') \<Longrightarrow> es' \<noteq> [] \<and> length es' \<le> length es"
  by (cases es) (auto simp: fat32_dir_filename_def Let_def split: if_splits)

function to_dirent_loop :: "nat \<Rightarrow> nat \<Rightarrow> u8 list list \<Rightarrow> dirent list res" where
  "to_dirent_loop n used [] = Inr []"
| "to_dirent_loop n used (e # es) =
     (if fat32_dirent_free e then to_dirent_loop n used es
      else
        rbind (assert_that (used + 1 \<le> n)) (\<lambda>_.
        rbind (fat32_dir_filename (e # es)) (\<lambda>(name, d).
        rbind (to_dirent_loop n (used + 1) (tl d)) (\<lambda>rest.
        Inr (dirent_of name (dir_of (hd d)) # rest)))))"
  by pat_completeness auto
termination
  by (relation "measure (\<lambda>(n, used, es). length es)")
    (auto dest!: fat32_dir_filename_suffix simp: length_greater_0_conv [symmetric] simp del: length_greater_0_conv)

text \<open>The array has \<open>n\<close> elements, zeroed by \<open>kmalloc\<close>; the loop fills the first ones.\<close>

definition zero_dirent :: dirent where
  "zero_dirent = \<lparr>de_name = [], cluster_id = 0, is_dir_p = False, nbytes = 0\<rparr>"

definition fat32_to_dirent :: "u8 list list \<Rightarrow> pi_dir res" where
  "fat32_to_dirent d =
     (let n = fat32_dir_cnt_entries d in
      rbind (to_dirent_loop n 0 d) (\<lambda>dirs. Inr (dirs @ replicate (n - length dirs) zero_dirent)))"

section \<open>Chains of clusters\<close>

partial_function (option) count_clusters_loop :: "u32 list \<Rightarrow> u32 \<Rightarrow> u32 \<Rightarrow> u32 res option" where
  "count_clusters_loop tab cl n =
     (case fat32_fat_entry_type cl of
        Inl e \<Rightarrow> Some (Inl e)
      | Inr t \<Rightarrow>
          if t = LAST_CLUSTER then Some (Inr n)
          else if length tab \<le> unat cl then Some (Inl BadAccess)
          else count_clusters_loop tab (tab ! unat cl) (n + 1))"

definition count_clusters :: "fat32_fs \<Rightarrow> u32 \<Rightarrow> u32 res option" where
  "count_clusters fs start_id = count_clusters_loop (fat fs) start_id 0"

definition dir_entries :: "u8 list \<Rightarrow> nat \<Rightarrow> u8 list list" where
  "dir_entries bs n = map (\<lambda>i. field bs (32 * i) 32) [0..<n]"

definition fat32_read_dir :: "dev \<Rightarrow> fat32_fs \<Rightarrow> dirent option \<Rightarrow> pi_dir res option" where
  "fat32_read_dir dev fs d =
     (let cid = (case d of Some d \<Rightarrow> cluster_id d | None \<Rightarrow> root_dir_first_cluster fs) in
      Option.bind (count_clusters fs cid) (\<lambda>r. Some (
      rbind r (\<lambda>n_clusters.
      let n_sectors = n_clusters * sectors_per_cluster fs;
          dir_lba = cluster_to_lba fs cid;
          dir_n = n_sectors * SECTOR_SIZE div 32
      in rbind (sec_read dev dir_lba n_sectors) (\<lambda>dirs.
         fat32_to_dirent (dir_entries dirs (unat dir_n)))))))"

text \<open>The loop that reads the clusters of a file into a buffer of \<open>left\<close> more bytes.\<close>

partial_function (option) read_file_loop ::
  "dev \<Rightarrow> fat32_fs \<Rightarrow> u32 \<Rightarrow> nat \<Rightarrow> u8 list \<Rightarrow> u8 list res option" where
  "read_file_loop dev fs cl left data =
     (case fat32_fat_entry_type cl of
        Inl e \<Rightarrow> Some (Inl e)
      | Inr t \<Rightarrow>
          if t = LAST_CLUSTER then Some (Inr data)
          else let (bytes_read, bytes) = dev (cluster_to_lba fs cl) (sectors_per_cluster fs) in
            if left < length bytes then Some (Inl BadAccess)
            else if bytes_read \<noteq> sectors_per_cluster fs * SECTOR_SIZE then Some (Inl DemandFault)
            else if length (fat fs) \<le> unat cl then Some (Inl BadAccess)
            else read_file_loop dev fs (fat fs ! unat cl) (left - length bytes) (data @ bytes))"

declare count_clusters_loop.simps [code] read_file_loop.simps [code]

definition fat32_read_file :: "dev \<Rightarrow> fat32_fs \<Rightarrow> dirent \<Rightarrow> pi_file res option" where
  "fat32_read_file dev fs d =
     (let start_id = cluster_id d in
      Option.bind (count_clusters fs start_id) (\<lambda>r.
      case r of Inl e \<Rightarrow> Some (Inl e)
      | Inr n_clusters \<Rightarrow>
          let n_sectors = n_clusters * sectors_per_cluster fs;
              alloc = n_sectors * SECTOR_SIZE
          in Option.bind (read_file_loop dev fs start_id (unat alloc) []) (\<lambda>r. Some (
             rbind r (\<lambda>data.
             let data = data @ replicate (unat alloc - length data) 0 in
             if length data < unat (nbytes d) then Inl BadAccess
             else Inr \<lparr>f_data = data, f_cksum = crc32 (take (unat (nbytes d)) data),
                       n_alloc = alloc, n_data = nbytes d\<rparr>)))))"

section \<open>Paths\<close>

fun dir_lookup :: "pi_dir \<Rightarrow> u8 list \<Rightarrow> dirent option" where
  "dir_lookup [] name = None"
| "dir_lookup (e # es) name = (if name = de_name e then Some e else dir_lookup es name)"

text \<open>
  The loop of \<open>path_lookup\<close>: \<open>last_dir\<close> has been read. Each round takes the path up to its first
  separator; the result is the entry, or \<open>None\<close> for a null pointer, and the last directory read.
\<close>

definition SLASH :: u8 where "SLASH = 0x2F"

lemma drop_sep_shorter: "SLASH \<in> set path \<Longrightarrow> length (tl (dropWhile (\<lambda>c. c \<noteq> SLASH) path)) < length path"
  by (induction path) auto

text \<open>The entry, or for a null pointer the message that was printed, and the last directory.\<close>

type_synonym lookup = "((u8 list + dirent) \<times> pi_dir) res"

definition missing :: "string \<Rightarrow> u8 list \<Rightarrow> pi_dir \<Rightarrow> lookup" where
  "missing fmt name last_dir = rbind (printk_nl fmt [Text name]) (\<lambda>msg. Inr (Inl msg, last_dir))"

function path_loop :: "dev \<Rightarrow> fat32_fs \<Rightarrow> pi_dir \<Rightarrow> u8 list \<Rightarrow> lookup option" where
  "path_loop dev fs last_dir path =
     (if SLASH \<in> set path then
        let name = takeWhile (\<lambda>c. c \<noteq> SLASH) path in
        if \<not> length name < 256 then Some (Inl DemandFault)
        else case dir_lookup last_dir name of
          None \<Rightarrow> Some (missing ''%s does not exist'' name last_dir)
        | Some search_dir \<Rightarrow>
            if \<not> is_dir_p search_dir then Some (missing ''%s is not a directory'' name last_dir)
            else Option.bind (fat32_read_dir dev fs (Some search_dir)) (\<lambda>r.
              case r of Inl e \<Rightarrow> Some (Inl e)
              | Inr next_dir \<Rightarrow> path_loop dev fs next_dir (tl (dropWhile (\<lambda>c. c \<noteq> SLASH) path)))
      else case dir_lookup last_dir path of
          None \<Rightarrow> Some (missing ''%s does not exist'' path last_dir)
        | Some entry \<Rightarrow> Some (Inr (Inr entry, last_dir)))"
  by pat_completeness auto
termination
  by (relation "measure (\<lambda>(dev, fs, last_dir, path). length path)") (auto simp: drop_sep_shorter simp del: length_tl)

definition path_lookup ::
  "dev \<Rightarrow> fat32_fs \<Rightarrow> dirent option \<Rightarrow> u8 list \<Rightarrow> lookup option" where
  "path_lookup dev fs search_dir path =
     Option.bind (fat32_read_dir dev fs search_dir) (\<lambda>r.
     case r of Inl e \<Rightarrow> Some (Inl e) | Inr last_dir \<Rightarrow> path_loop dev fs last_dir path)"

section \<open>Directories list the allocated entries\<close>

definition real_entry :: "u8 list \<Rightarrow> bool" where
  "real_entry e \<longleftrightarrow> \<not> fat32_dirent_free e \<and> d_attr (dir_of e) \<noteq> FAT32_LONG_FILE_NAME"

text \<open>What a directory says of a file besides its name.\<close>

definition dirent_key :: "dirent \<Rightarrow> u32 \<times> bool \<times> u32" where
  "dirent_key x = (cluster_id x, is_dir_p x, nbytes x)"

definition entry_key :: "u8 list \<Rightarrow> u32 \<times> bool \<times> u32" where
  "entry_key e = dirent_key (dirent_of [] (dir_of e))"

lemma dirent_key_of [simp]: "dirent_key (dirent_of name (dir_of e)) = entry_key e"
  by (simp add: dirent_key_def entry_key_def dirent_of_def)

lemma cnt_entries_eq: "fat32_dir_cnt_entries d = length (filter real_entry d)"
  unfolding fat32_dir_cnt_entries_def real_entry_def ..

lemma lfn_run_drop: "lfn_run es < length es \<Longrightarrow>
  filter real_entry es = filter real_entry (drop (lfn_run es) es) \<and>
  d_attr (dir_of (es ! lfn_run es)) \<noteq> FAT32_LONG_FILE_NAME"
  by (induction es) (auto simp: real_entry_def)

lemma filename_drop:
  assumes "fat32_dir_filename (e # es) = Inr (name, d)"
  shows "\<exists>x rest. d = x # rest \<and> d_attr (dir_of x) \<noteq> FAT32_LONG_FILE_NAME \<and>
    filter real_entry (e # es) = filter real_entry (x # rest) \<and> (d_attr (dir_of e) \<noteq> FAT32_LONG_FILE_NAME \<longrightarrow> x = e)"
proof (cases "d_attr (dir_of e) = FAT32_LONG_FILE_NAME")
  case True
  with assms have d: "d = drop (lfn_run es) es" and lt: "lfn_run es < length es"
    by (auto simp: fat32_dir_filename_def Let_def split: if_splits)
  then have "d = es ! lfn_run es # drop (Suc (lfn_run es)) es" by (simp add: Cons_nth_drop_Suc)
  then show ?thesis using lfn_run_drop [OF lt] True d by (auto simp: real_entry_def)
next
  case False
  then show ?thesis using assms by (auto simp: fat32_dir_filename_def Let_def split: if_splits)
qed

lemma to_dirent_loop_keys:
  "to_dirent_loop n used es = Inr ds \<Longrightarrow>
   length (filter real_entry es) \<le> length ds \<and> (ds \<noteq> [] \<longrightarrow> used + length ds \<le> n) \<and>
   (length ds = length (filter real_entry es) \<longrightarrow> map dirent_key ds = map entry_key (filter real_entry es))"
proof (induction n used es arbitrary: ds rule: to_dirent_loop.induct)
  case (1 n used)
  then show ?case by simp
next
  case (2 n used e es)
  show ?case
  proof (cases "fat32_dirent_free e")
    case True
    with 2 show ?thesis by (simp add: real_entry_def)
  next
    case False
    with "2.prems" obtain name d rest where f: "fat32_dir_filename (e # es) = Inr (name, d)"
      and l: "to_dirent_loop n (used + 1) (tl d) = Inr rest" and n: "used + 1 \<le> n"
      and ds: "ds = dirent_of name (dir_of (hd d)) # rest" by auto
    obtain x xs where d: "d = x # xs" and lfn: "d_attr (dir_of x) \<noteq> FAT32_LONG_FILE_NAME"
      and eq: "filter real_entry (e # es) = filter real_entry (x # xs)" using filename_drop [OF f] by blast
    have "length (filter real_entry xs) \<le> length rest \<and> (rest \<noteq> [] \<longrightarrow> used + 1 + length rest \<le> n) \<and>
      (length rest = length (filter real_entry xs) \<longrightarrow> map dirent_key rest = map entry_key (filter real_entry xs))"
      using "2.IH"(2) [OF False _ f refl l] n d by simp
    then show ?thesis unfolding eq ds using n d by (cases rest) auto
  qed
qed

text \<open>
  C27: when \<open>fat32_to_dirent\<close> returns, the directory it builds lists exactly the allocated entries
  that are not pieces of long names, each once and in order, with the cluster, kind and size that
  the entry records; no slot of the array is left unset.
\<close>

theorem to_dirent_lists_entries:
  assumes "fat32_to_dirent d = Inr p"
  shows "map dirent_key p = map entry_key (filter real_entry d)"
proof -
  obtain ds where ds: "to_dirent_loop (fat32_dir_cnt_entries d) 0 d = Inr ds"
    and p: "p = ds @ replicate (fat32_dir_cnt_entries d - length ds) zero_dirent"
    using assms by (auto simp: fat32_to_dirent_def Let_def)
  show ?thesis using to_dirent_loop_keys [OF ds] p by (cases ds) (auto simp: cnt_entries_eq)
qed

text \<open>A directory of four entries: a deleted one, a long name in one piece with its file, and a directory.\<close>

definition demo_dir :: "u8 list list" where
  "demo_dir =
    [0xE5 # replicate 10 0x41 @ 0x20 # replicate 20 0,
     [0x41, 0x61, 0, 0x62, 0, 0xE9, 0, 0x64, 0, 0x65, 0, 0x0F, 0, 0, 0x66, 0, 0, 0]
       @ replicate 8 0xFF @ [0, 0, 0xFF, 0xFF, 0xFF, 0xFF],
     replicate 11 0x42 @ 0x20 # replicate 8 0 @ [1, 0, 0, 0, 0, 0, 5, 0, 7, 2, 0, 0],
     replicate 11 0x43 @ 0x10 # replicate 8 0 @ [0, 0, 0, 0, 0, 0, 9, 0, 0, 0, 0, 0]]"

theorem to_dirent_lists_entries_witness:
  "\<exists>p. fat32_to_dirent demo_dir = Inr p \<and> map dirent_key p = [(0x10005, False, 0x207), (9, True, 0)]"
proof -
  have "\<not> isl (fat32_to_dirent demo_dir)" by code_simp
  then obtain p where p: "fat32_to_dirent demo_dir = Inr p" by (cases "fat32_to_dirent demo_dir") auto
  have "map entry_key (filter real_entry demo_dir) = [(0x10005, False, 0x207), (9, True, 0)]" by code_simp
  with to_dirent_lists_entries [OF p] p show ?thesis by simp
qed

section \<open>Chains of clusters\<close>

text \<open>\<open>fat_chain tab c cs\<close>: following the table from \<open>c\<close> visits the clusters \<open>cs\<close> and then its end mark.\<close>

fun fat_chain :: "u32 list \<Rightarrow> u32 \<Rightarrow> u32 list \<Rightarrow> bool" where
  "fat_chain tab c [] \<longleftrightarrow> fat32_fat_entry_type c = Inr LAST_CLUSTER"
| "fat_chain tab c (x # xs) \<longleftrightarrow>
     x = c \<and> fat32_fat_entry_type c = Inr USED_CLUSTER \<and> unat c < length tab \<and> fat_chain tab (tab ! unat c) xs"

lemma used_not_last [simp]: "USED_CLUSTER \<noteq> LAST_CLUSTER"
  by (simp add: USED_CLUSTER_def LAST_CLUSTER_def)

lemma count_loop_chain:
  "fat_chain tab c cs \<Longrightarrow> count_clusters_loop tab c n = Some (Inr (n + of_nat (length cs)))"
  by (induction cs arbitrary: c n) (simp_all add: count_clusters_loop.simps)

lemma count_chain: "fat_chain (fat fs) c cs \<Longrightarrow> count_clusters fs c = Some (Inr (of_nat (length cs)))"
  by (simp add: count_clusters_def count_loop_chain)

text \<open>
  The interface that the file system expects of the disk: in a ready state a read of one to 65535
  sectors delivers the sectors asked for, each of 512 bytes, and the number of bytes read.
\<close>

locale block_device =
  fixes dev :: "'s \<Rightarrow> dev" and ready :: "'s \<Rightarrow> bool" and block :: "'s \<Rightarrow> u32 \<Rightarrow> u8 list"
  assumes block_length: "ready s \<Longrightarrow> length (block s lba) = 512"
    and dev_reads: "ready s \<Longrightarrow> 0 < unat n \<Longrightarrow> unat n < 65536 \<Longrightarrow>
      dev s lba n = (n * 512, concat (map (\<lambda>i. block s (lba + of_nat i)) [0..<unat n]))"
begin

definition sectors :: "'s \<Rightarrow> u32 \<Rightarrow> nat \<Rightarrow> u8 list" where
  "sectors s lba n = concat (map (\<lambda>i. block s (lba + of_nat i)) [0..<n])"

definition cluster :: "'s \<Rightarrow> fat32_fs \<Rightarrow> u32 \<Rightarrow> u8 list" where
  "cluster s fs c = sectors s (cluster_to_lba fs c) (unat (sectors_per_cluster fs))"

lemma length_sectors: "ready s \<Longrightarrow> length (sectors s lba n) = 512 * n"
  by (induction n) (simp_all add: sectors_def block_length)

lemma sec_read_sectors:
  "ready s \<Longrightarrow> 0 < unat n \<Longrightarrow> unat n < 65536 \<Longrightarrow> sec_read (dev s) lba n = Inr (sectors s lba (unat n))"
proof -
  assume r: "ready s" and n: "0 < unat n" "unat n < 65536"
  have "unat (n * 512) = unat n * 512" using n(2) by (simp add: unat_word_ariths)
  then show ?thesis using dev_reads [OF r n] length_sectors [OF r, of lba "unat n"]
    by (simp add: sec_read_def SECTOR_SIZE_def sectors_def)
qed

lemma read_loop_chain:
  assumes "ready s" "0 < unat (sectors_per_cluster fs)" "unat (sectors_per_cluster fs) < 65536"
  shows "fat_chain (fat fs) c cs \<Longrightarrow> 512 * unat (sectors_per_cluster fs) * length cs \<le> left \<Longrightarrow>
    read_file_loop (dev s) fs c left data = Some (Inr (data @ concat (map (cluster s fs) cs)))"
proof (induction cs arbitrary: c left data)
  case Nil
  then show ?case by (simp add: read_file_loop.simps)
next
  case (Cons x xs)
  have "dev s (cluster_to_lba fs c) (sectors_per_cluster fs) = (sectors_per_cluster fs * 512, cluster s fs c)"
    using dev_reads [OF assms] by (simp add: cluster_def sectors_def)
  moreover have "length (cluster s fs c) = 512 * unat (sectors_per_cluster fs)"
    using length_sectors [OF assms(1)] by (simp add: cluster_def)
  ultimately show ?case using Cons by (simp add: read_file_loop.simps [of _ _ c] SECTOR_SIZE_def)
qed

lemma length_clusters:
  "ready s \<Longrightarrow> length (concat (map (cluster s fs) cs)) = 512 * unat (sectors_per_cluster fs) * length cs"
  by (induction cs) (simp_all add: cluster_def length_sectors)

lemma read_file_chain:
  assumes r: "ready s" and spc: "0 < unat (sectors_per_cluster fs)" "unat (sectors_per_cluster fs) < 65536"
    and ch: "fat_chain (fat fs) (cluster_id d) cs"
    and sz: "512 * unat (sectors_per_cluster fs) * length cs < 2 ^ 32" "unat (nbytes d) \<le> 512 * unat (sectors_per_cluster fs) * length cs"
  shows "fat32_read_file (dev s) fs d =
    Some (Inr \<lparr>f_data = concat (map (cluster s fs) cs),
      f_cksum = crc32 (take (unat (nbytes d)) (concat (map (cluster s fs) cs))),
      n_alloc = of_nat (512 * unat (sectors_per_cluster fs) * length cs), n_data = nbytes d\<rparr>)"
proof -
  let ?n = "512 * unat (sectors_per_cluster fs) * length cs"
  have alloc: "of_nat (length cs) * sectors_per_cluster fs * SECTOR_SIZE = of_nat ?n"
    by (simp add: SECTOR_SIZE_def mult_ac)
  have "unat (of_nat ?n :: u32) = ?n" using sz(1) by (intro unat_of_nat_u32) simp
  then show ?thesis
    unfolding fat32_read_file_def count_chain [OF ch] Let_def alloc bind.bind_lunit sum.case
    using read_loop_chain [OF r spc ch, of ?n "[]"] length_clusters [OF r, of fs cs] sz(2) by simp
qed

lemma sectors_append: "sectors s lba (m + n) = sectors s lba m @ sectors s (lba + of_nat m) n"
  by (induction n) (simp_all add: sectors_def add.assoc)

lemma contiguous_clusters:
  "concat (map (cluster s fs) (map (\<lambda>i. c + of_nat i) [0..<n])) =
   sectors s (cluster_to_lba fs c) (n * unat (sectors_per_cluster fs))"
proof (induction n)
  case 0
  show ?case by (simp add: sectors_def)
next
  case (Suc n)
  have "cluster_to_lba fs (c + of_nat n) = cluster_to_lba fs c + of_nat (n * unat (sectors_per_cluster fs))"
    by (simp add: cluster_to_lba_def algebra_simps)
  then show ?case
    using Suc sectors_append [of s "cluster_to_lba fs c" "n * unat (sectors_per_cluster fs)" "unat (sectors_per_cluster fs)"]
    by (simp add: cluster_def add.commute)
qed

text \<open>
  The directory reader asks for consecutive sectors, so it reads the clusters of the chain when
  they are consecutive on the disk.
\<close>

lemma read_dir_contiguous:
  assumes r: "ready s" and spc: "0 < unat (sectors_per_cluster fs)"
    and c: "c = (case d of Some d \<Rightarrow> cluster_id d | None \<Rightarrow> root_dir_first_cluster fs)"
    and ch: "fat_chain (fat fs) c (map (\<lambda>i. c + of_nat i) [0..<n])" and n: "0 < n"
    and sz: "n * unat (sectors_per_cluster fs) < 65536"
  shows "fat32_read_dir (dev s) fs d =
    Some (fat32_to_dirent (dir_entries (concat (map (cluster s fs) (map (\<lambda>i. c + of_nat i) [0..<n])))
      (16 * n * unat (sectors_per_cluster fs))))"
proof -
  let ?n = "n * unat (sectors_per_cluster fs)"
  let ?w = "of_nat n * sectors_per_cluster fs"
  have w: "?w = of_nat ?n" by simp
  have "unat (of_nat ?n :: u32) = ?n" using sz by (intro unat_of_nat_u32) simp
  then have u: "unat ?w = ?n" unfolding w .
  then have "unat (?w * SECTOR_SIZE div 32) = 16 * ?n"
    using sz by (simp add: SECTOR_SIZE_def unat_word_ariths)
  then show ?thesis
    unfolding fat32_read_dir_def Let_def c [symmetric] count_chain [OF ch] contiguous_clusters
    using sec_read_sectors [OF r, of ?w "cluster_to_lba fs c"] u n spc sz by (simp add: mult.assoc)
qed

end

section \<open>Paths\<close>

text \<open>
  What a path means: the directory lists an entry with the first name, which is itself a directory
  when more names follow, and the rest of the path is looked up there.
\<close>

fun names_entry :: "dev \<Rightarrow> fat32_fs \<Rightarrow> pi_dir \<Rightarrow> u8 list list \<Rightarrow> dirent \<Rightarrow> bool" where
  "names_entry dev fs dir [] e \<longleftrightarrow> False"
| "names_entry dev fs dir [c] e \<longleftrightarrow> find (\<lambda>x. de_name x = c) dir = Some e"
| "names_entry dev fs dir (c # c' # cs) e \<longleftrightarrow>
     (case find (\<lambda>x. de_name x = c) dir of None \<Rightarrow> False
      | Some sub \<Rightarrow> is_dir_p sub \<and>
          (case fat32_read_dir dev fs (Some sub) of
             Some (Inr next) \<Rightarrow> names_entry dev fs next (c' # cs) e | _ \<Rightarrow> False))"

fun join_path :: "u8 list list \<Rightarrow> u8 list" where
  "join_path [] = []"
| "join_path [c] = c"
| "join_path (c # c' # cs) = c @ SLASH # join_path (c' # cs)"

lemma dir_lookup_find: "dir_lookup dir c = find (\<lambda>x. de_name x = c) dir"
  by (induction dir) auto

lemma split_at_slash:
  "SLASH \<notin> set c \<Longrightarrow> takeWhile (\<lambda>x. x \<noteq> SLASH) (c @ SLASH # r) = c \<and> tl (dropWhile (\<lambda>x. x \<noteq> SLASH) (c @ SLASH # r)) = r"
  by (induction c) auto

lemma path_loop_step:
  assumes "SLASH \<notin> set c" "length c < 256"
  shows "path_loop dev fs dir (c @ SLASH # r) =
    (case find (\<lambda>x. de_name x = c) dir of
       None \<Rightarrow> Some (missing ''%s does not exist'' c dir)
     | Some sub \<Rightarrow>
         if \<not> is_dir_p sub then Some (missing ''%s is not a directory'' c dir)
         else Option.bind (fat32_read_dir dev fs (Some sub)) (\<lambda>x.
           case x of Inl e \<Rightarrow> Some (Inl e) | Inr next_dir \<Rightarrow> path_loop dev fs next_dir r))"
  unfolding path_loop.simps [of dev fs dir "c @ SLASH # r"] Let_def
    split_at_slash [OF assms(1), THEN conjunct1] split_at_slash [OF assms(1), THEN conjunct2]
  using assms(2) by (simp add: dir_lookup_find del: path_loop.simps)

lemma missing_no_entry [simp]: "missing fmt name dir \<noteq> Inr (Inr e, d)"
  by (simp add: missing_def)

lemma path_loop_names:
  assumes "\<forall>c \<in> set cs. SLASH \<notin> set c \<and> length c < 256" "cs \<noteq> []"
  shows "(\<exists>last. path_loop dev fs dir (join_path cs) = Some (Inr (Inr e, last))) \<longleftrightarrow> names_entry dev fs dir cs e"
  using assms
proof (induction dev fs dir cs e rule: names_entry.induct)
  case (2 dev fs dir c e)
  then show ?case by (subst join_path.simps, subst path_loop.simps) (simp add: dir_lookup_find split: option.splits)
next
  case (3 dev fs dir c c' cs e)
  have c: "SLASH \<notin> set c" "length c < 256" using "3.prems" by auto
  show ?case
  proof (cases "find (\<lambda>x. de_name x = c) dir")
    case None
    then show ?thesis by (simp add: path_loop_step [OF c] del: path_loop.simps)
  next
    case (Some sub)
    note s = this
    show ?thesis
    proof (cases "is_dir_p sub \<and> (\<exists>next. fat32_read_dir dev fs (Some sub) = Some (Inr next))")
      case True
      then obtain "next" where "is_dir_p sub" "fat32_read_dir dev fs (Some sub) = Some (Inr next)" by blast
      then show ?thesis using "3.IH" [OF s] "3.prems" s by (simp add: path_loop_step [OF c] del: path_loop.simps)
    next
      case False
      then show ?thesis
        by (auto simp: s path_loop_step [OF c] bind_eq_Some_conv split: option.splits sum.splits simp del: path_loop.simps)
    qed
  qed
qed simp

text \<open>
  C12: looking up the names \<open>cs\<close>, joined by slashes, from a directory finds an entry exactly when
  the first name is listed in that directory, each further one in the directory that the previous
  one denotes; the entry returned is the first with its name. Every other outcome is a null
  pointer, a fault or a directory read that does not end.
\<close>

theorem path_lookup_resolves:
  assumes "\<forall>c \<in> set cs. SLASH \<notin> set c \<and> length c < 256" "cs \<noteq> []"
  shows "(\<exists>last. path_lookup dev fs start (join_path cs) = Some (Inr (Inr e, last))) \<longleftrightarrow>
    (\<exists>dir. fat32_read_dir dev fs start = Some (Inr dir) \<and> names_entry dev fs dir cs e)"
proof (cases "\<exists>dir. fat32_read_dir dev fs start = Some (Inr dir)")
  case True
  then obtain dir where "fat32_read_dir dev fs start = Some (Inr dir)" by blast
  then show ?thesis using path_loop_names [OF assms, of dev fs dir e] by (simp add: path_lookup_def del: path_loop.simps)
next
  case False
  then show ?thesis
    by (auto simp: path_lookup_def bind_eq_Some_conv split: sum.splits simp del: path_loop.simps)
qed

text \<open>A file system whose directories all hold the same file and directory.\<close>

lemma short_entry:
  assumes "d_attr (dir_of e) \<in> {FAT32_DIR, FAT32_ARCHIVE}" "\<not> fat32_dirent_free e"
  shows "to_dirent_loop n used (e # es) = rbind (assert_that (used + 1 \<le> n)) (\<lambda>_.
    rbind (to_dirent_loop n (used + 1) es) (\<lambda>rest. Inr (dirent_of (short_name (dir_of e)) (dir_of e) # rest)))"
proof -
  have "fat32_dir_filename (e # es) = Inr (short_name (dir_of e), e # es)"
    using assms by (auto simp: fat32_dir_filename_def is_attr_def FAT32_DIR_def FAT32_ARCHIVE_def FAT32_LONG_FILE_NAME_def)
  then show ?thesis using assms(2) by simp
qed

lemma free_entries: "\<forall>e \<in> set es. fat32_dirent_free e \<Longrightarrow> to_dirent_loop n used es = Inr []"
  by (induction es) auto

definition file_ent :: "u8 list" where
  "file_ent = replicate 11 0x42 @ 0x20 # replicate 8 0 @ [1, 0, 0, 0, 0, 0, 5, 0, 7, 2, 0, 0]"

definition dir_ent :: "u8 list" where
  "dir_ent = replicate 11 0x43 @ 0x10 # replicate 8 0 @ [0, 0, 0, 0, 0, 0, 9, 0, 0, 0, 0, 0]"

definition demo_fs :: fat32_fs where
  "demo_fs = \<lparr>fat_begin_lba = 32, cluster_begin_lba = 40, sectors_per_cluster = 1, root_dir_first_cluster = 2,
     fat = (replicate 16 0) [2 := 0x0FFFFFFF, 9 := 0x0FFFFFFF], n_fat = 2\<rparr>"

definition demo_bytes :: "u8 list" where
  "demo_bytes = file_ent @ dir_ent @ replicate 448 0"

definition demo_dev :: dev where
  "demo_dev lba n = (512 * n, take (512 * unat n) demo_bytes)"

definition demo_names :: "u8 list list" where
  "demo_names = [str ''CCCCCCCC.CCC'', str ''BBBBBBBB.BBB'']"

definition demo_entries :: pi_dir where
  "demo_entries = [\<lparr>de_name = str ''BBBBBBBB.BBB'', cluster_id = 65541, is_dir_p = False, nbytes = 519\<rparr>,
     \<lparr>de_name = str ''CCCCCCCC.CCC'', cluster_id = 9, is_dir_p = True, nbytes = 0\<rparr>]"

lemma length_demo_bytes: "length demo_bytes = 512"
  by (simp add: demo_bytes_def file_ent_def dir_ent_def)

lemma replicate_fourteen: "replicate 14 x = [x, x, x, x, x, x, x, x, x, x, x, x, x, x]"
  by (simp add: numeral_eq_Suc)

lemma demo_entries: "fat32_to_dirent (dir_entries demo_bytes 16) = Inr demo_entries"
proof -
  let ?z = "replicate 14 (replicate 32 0)"
  have "dir_entries demo_bytes 16 = file_ent # dir_ent # ?z"
    by (simp add: dir_entries_def field_def demo_bytes_def file_ent_def dir_ent_def upt_rec replicate_fourteen)
  moreover have free: "fat32_dirent_free (replicate 32 0)" "\<not> fat32_dirent_free file_ent" "\<not> fat32_dirent_free dir_ent"
    and attr: "d_attr (dir_of file_ent) = FAT32_ARCHIVE" "d_attr (dir_of dir_ent) = FAT32_DIR"
    and ents: "dirent_of (short_name (dir_of file_ent)) (dir_of file_ent) = demo_entries ! 0"
      "dirent_of (short_name (dir_of dir_ent)) (dir_of dir_ent) = demo_entries ! 1"
    and more: "FAT32_ARCHIVE \<noteq> FAT32_LONG_FILE_NAME" "FAT32_DIR \<noteq> FAT32_LONG_FILE_NAME" "demo_entries = [demo_entries ! 0, demo_entries ! 1]"
    by code_simp+
  have n: "fat32_dir_cnt_entries (file_ent # dir_ent # ?z) = 2"
    using free attr more by (simp add: fat32_dir_cnt_entries_def)
  have loop: "to_dirent_loop 2 0 (file_ent # dir_ent # ?z) = Inr demo_entries"
    using free attr ents more(3) by (simp add: short_entry free_entries del: to_dirent_loop.simps)
  have "length demo_entries = 2" by (simp add: demo_entries_def)
  then have "fat32_to_dirent (file_ent # dir_ent # ?z) = Inr demo_entries"
    unfolding fat32_to_dirent_def Let_def n loop by simp
  ultimately show ?thesis by simp
qed

lemma demo_read:
  assumes "cid = (case d of Some d \<Rightarrow> cluster_id d | None \<Rightarrow> root_dir_first_cluster demo_fs)" "cid \<in> {2, 9}"
  shows "fat32_read_dir demo_dev demo_fs d = Some (Inr demo_entries)"
proof -
  have "fat_chain (fat demo_fs) 2 [2]" "fat_chain (fat demo_fs) 9 [9]" by code_simp+
  then have c: "count_clusters demo_fs cid = Some (Inr 1)" using count_chain [of demo_fs cid "[cid]"] assms(2) by auto
  have s: "sec_read demo_dev lba 1 = Inr demo_bytes" for lba
    by (simp add: sec_read_def demo_dev_def length_demo_bytes SECTOR_SIZE_def)
  have n: "sectors_per_cluster demo_fs = 1" "unat (1 * 1 * SECTOR_SIZE div 32) = 16"
    by (simp_all add: demo_fs_def SECTOR_SIZE_def)
  show ?thesis
    unfolding fat32_read_dir_def Let_def assms(1) [symmetric] c n Option.bind.simps rbind.simps
    unfolding mult_1 s rbind.simps using n(2) demo_entries by simp
qed

theorem path_lookup_resolves_witness:
  "\<exists>last. path_lookup demo_dev demo_fs None (join_path demo_names) = Some (Inr (Inr (hd demo_entries), last))"
proof -
  have "\<forall>c \<in> set demo_names. SLASH \<notin> set c \<and> length c < 256" "demo_names \<noteq> []" by code_simp+
  moreover have "fat32_read_dir demo_dev demo_fs None = Some (Inr demo_entries)"
    by (rule demo_read [of 2]) (simp_all add: demo_fs_def)
  moreover have "names_entry demo_dev demo_fs demo_entries demo_names (hd demo_entries)"
  proof -
    have "find (\<lambda>x. de_name x = str ''CCCCCCCC.CCC'') demo_entries = Some (demo_entries ! 1)" "is_dir_p (demo_entries ! 1)"
      "cluster_id (demo_entries ! 1) = 9"
      "find (\<lambda>x. de_name x = str ''BBBBBBBB.BBB'') demo_entries = Some (hd demo_entries)"
      by code_simp+
    then show ?thesis using demo_read [of 9 "Some (demo_entries ! 1)"] by (simp add: demo_names_def)
  qed
  ultimately show ?thesis using path_lookup_resolves [of demo_names demo_dev demo_fs None "hd demo_entries"] by blast
qed

section \<open>Names fit their buffer\<close>

lemma filename_fits: "fat32_dir_filename es = Inr (name, es') \<Longrightarrow> length name < 256"
proof -
  have "length (short_name (dir_of e)) \<le> 8 + (1 + 3)" for e
    unfolding short_name_def Let_def length_append length_map
    by (intro add_mono order_trans [OF length_filter_le]) (simp_all add: dir_of_def field_def)
  then have "length (short_name (dir_of e)) < 256" for e by (rule le_less_trans) simp
  then show "fat32_dir_filename es = Inr (name, es') \<Longrightarrow> length name < 256"
    by (cases es) (auto simp: fat32_dir_filename_def Let_def split: if_splits)
qed

lemma to_dirent_loop_names:
  "to_dirent_loop n used es = Inr ds \<Longrightarrow> \<forall>x \<in> set ds. length (de_name x) < 256 \<and> 0 \<notin> set (de_name x)"
proof (induction n used es arbitrary: ds rule: to_dirent_loop.induct)
  case (2 n used e es)
  have "length (de_name (dirent_of name d)) < 256 \<and> 0 \<notin> set (de_name (dirent_of name d))"
    if "fat32_dir_filename (e # es) = Inr (name, d')" for name d d'
    using filename_fits [OF that] le_less_trans [OF length_takeWhile_le] by (auto simp: dirent_of_def dest: set_takeWhileD)
  with 2 show ?case by (auto split: if_splits)
qed simp

lemma read_dir_names:
  "fat32_read_dir dev fs d = Some (Inr l) \<Longrightarrow> x \<in> set l \<Longrightarrow> length (de_name x) < 256 \<and> 0 \<notin> set (de_name x)"
  by (auto simp: fat32_read_dir_def fat32_to_dirent_def Let_def bind_eq_Some_conv zero_dirent_def dest!: to_dirent_loop_names)



section \<open>Files fit their buffer\<close>

lemma read_file_loop_fits:
  assumes "read_file_loop dev fs cl left data = Some (Inr bs)"
  shows "length bs \<le> left + length data"
proof -
  have "\<forall>bs. r = Inr bs \<longrightarrow> length bs \<le> left + length data" if "read_file_loop dev fs cl left data = Some r" for r
  proof (rule read_file_loop.raw_induct [OF _ that])
    fix rec dev fs cl left data r
    assume IH: "\<And>dev fs cl left data r. rec dev fs cl left data = Some r \<Longrightarrow>
        \<forall>bs. r = Inr bs \<longrightarrow> length bs \<le> left + length (data :: u8 list)"
      and b: "(case fat32_fat_entry_type cl of
        Inl e \<Rightarrow> Some (Inl e)
      | Inr t \<Rightarrow>
          if t = LAST_CLUSTER then Some (Inr data)
          else let (bytes_read, bytes) = dev (cluster_to_lba fs cl) (sectors_per_cluster fs) in
            if left < length bytes then Some (Inl BadAccess)
            else if bytes_read \<noteq> sectors_per_cluster fs * SECTOR_SIZE then Some (Inl DemandFault)
            else if length (fat fs) \<le> unat cl then Some (Inl BadAccess)
            else rec dev fs (fat fs ! unat cl) (left - length bytes) (data @ bytes)) = Some r"
    show "\<forall>bs. r = Inr bs \<longrightarrow> length bs \<le> left + length data"
      using b by (auto split: sum.splits prod.splits if_splits dest!: IH)
  qed
  then show ?thesis using assms by blast
qed



end
