(* ===== verification/Pi_Exec.thy ===== *)
theory Pi_Exec
  imports Pi_Elf Pi_Fs
begin

text \<open>
  Running a program from disk: pi-side/kernel/exec.c. The new process is an entry of the kernel's
  store of processes. Copies and fills go through the page table in force; a byte that does not
  translate raises a data abort, whose handler panics. \<open>memcpy\<close> and \<open>memset\<close> act byte by byte, which
  on blocks that do not overlap is what the routines of libpi do. The program itself is unknown
  code: jumping to it is the parameter \<open>prog\<close>. The model has no TLB, so its invalidation is left out.
\<close>

section \<open>Memory through the page table\<close>

definition vload8 :: "u32 \<Rightarrow> kernel \<Rightarrow> u8 res" where
  "vload8 va k = (case vread8 (kcpu k) (kvm k) va of None \<Rightarrow> Inl PanicFault | Some b \<Rightarrow> Inr b)"

definition vstore8 :: "u32 \<Rightarrow> u8 \<Rightarrow> kernel \<Rightarrow> kernel res" where
  "vstore8 va b k = rbind (vwrite8 (kvm k) va b (kcpu k)) (\<lambda>c. Inr (k\<lparr>kcpu := c\<rparr>))"

fun vstore_bytes :: "u32 \<Rightarrow> u8 list \<Rightarrow> kernel \<Rightarrow> kernel res" where
  "vstore_bytes va [] k = Inr k"
| "vstore_bytes va (b # bs) k = rbind (vstore8 va b k) (vstore_bytes (va + 1) bs)"

fun vmemcpy :: "u32 \<Rightarrow> u32 \<Rightarrow> nat \<Rightarrow> kernel \<Rightarrow> kernel res" where
  "vmemcpy dst src 0 k = Inr k"
| "vmemcpy dst src (Suc n) k =
     rbind (vload8 src k) (\<lambda>b. rbind (vstore8 dst b k) (vmemcpy (dst + 1) (src + 1) n))"

section \<open>Load instructions\<close>

definition PROC_LOAD_ADDR :: u32 where "PROC_LOAD_ADDR = 0x80000000"
definition KERNEL_LOAD_ADDR :: u32 where "KERNEL_LOAD_ADDR = 0x10000000"

definition set_proc :: "nat \<Rightarrow> process \<Rightarrow> kernel \<Rightarrow> kernel" where
  "set_proc p pr k = k\<lparr>procs := (procs k)(p := pr)\<rparr>"

definition exec_load_instr :: "(u32 \<Rightarrow> kernel \<Rightarrow> kernel res) \<Rightarrow> nat \<Rightarrow> load_instr \<Rightarrow> kernel \<Rightarrow> (bool \<times> kernel) res" where
  "exec_load_instr prog p instr k =
     (let src = src_addr instr + (PROC_LOAD_ADDR - KERNEL_LOAD_ADDR) in
      case instr of
        LOAD_COPY _ dst sz \<Rightarrow> rbind (vmemcpy dst src (unat sz) k) (\<lambda>k. Inr (True, k))
      | LOAD_ZERO _ dst sz \<Rightarrow> rbind (vmemset dst 0 sz k) (\<lambda>k. Inr (True, k))
      | LOAD_JUMP _ dst \<Rightarrow>
          if heap_start (procs k p) = 0 then Inr (False, k)
          else
            let k = set_proc p ((procs k p)\<lparr>heap_end := heap_start (procs k p)\<rparr>) k;
                original_proc = syscall_get_current_proc k;
                k = syscall_set_current_proc (Some p) k
            in rbind (prog dst k) (\<lambda>k. Inr (True, syscall_set_current_proc original_proc k)))"

fun exec_instrs :: "(u32 \<Rightarrow> kernel \<Rightarrow> kernel res) \<Rightarrow> nat \<Rightarrow> load_instr list \<Rightarrow> kernel \<Rightarrow> kernel res" where
  "exec_instrs prog p [] k = Inr k"
| "exec_instrs prog p (i # is) k =
     rbind (exec_load_instr prog p i k) (\<lambda>(ok, k). if ok then exec_instrs prog p is k else Inr k)"

section \<open>Executing a file\<close>

text \<open>The loop that maps the pages of the file, from \<open>page\<close> to \<open>end_page\<close>, into the child.\<close>

function share_pages :: "page_table \<Rightarrow> page_table \<Rightarrow> nat \<Rightarrow> nat \<Rightarrow> vm \<Rightarrow> vm res" where
  "share_pages kpt pt page end_page s =
     (if page \<le> end_page then
        let pte = tt s (vaddr_map kpt) ! page;
            child_va = push_bit 20 (of_nat page) - KERNEL_LOAD_ADDR + PROC_LOAD_ADDR
        in rbind (mmu_map_section pt child_va (push_bit 20 (ucast (sec_base_addr pte))) MAP_FLAG_SHARED s)
             (share_pages kpt pt (Suc page) end_page)
      else Inr s)"
  by pat_completeness auto
termination
  by (relation "measure (\<lambda>(kpt, pt, page, end_page, s). Suc end_page - page)") auto

declare share_pages.simps [simp del]

definition new_process :: process where
  "new_process = \<lparr>heap_start = 0, heap_end = 0, page_tab = \<lparr>pt_asid = 2, vaddr_map = 2\<rparr>\<rparr>"

definition new_space :: "page_table \<Rightarrow> vm \<Rightarrow> vm res" where
  "new_space pt s =
     (let s = s\<lparr>tt := (tt s)(vaddr_map pt := (tt s (vaddr_map pt))[0 := fld_zero, 1 := fld_zero])\<rparr>
      in rbind (mmu_init (vaddr_map pt) s) (mmu_map_kernel_sections pt))"

text \<open>From the file in the kernel's heap to the instructions: \<open>kp\<close> is the kernel's process, \<open>p\<close> the new one.\<close>

definition load_file :: "(nat \<Rightarrow> u32) \<Rightarrow> pi_file \<Rightarrow> nat \<Rightarrow> nat \<Rightarrow> kernel \<Rightarrow> (load_instr list option \<times> kernel) res" where
  "load_file junk file kp p k =
     (let kpt = page_tab (procs k kp); pt = page_tab (procs k p) in
      rbind (mmu_map_to_mem kpt KERNEL_LOAD_ADDR (n_alloc file) True (kvm k)) (\<lambda>s.
      rbind (vstore_bytes KERNEL_LOAD_ADDR (take (unat (n_data file)) (f_data file)) (k\<lparr>kvm := s\<rparr>)) (\<lambda>k.
      rbind (share_pages kpt pt (unat (drop_bit 20 KERNEL_LOAD_ADDR))
               (unat (drop_bit 20 (KERNEL_LOAD_ADDR + n_data file - 1))) (kvm k)) (\<lambda>s.
      let k = k\<lparr>kvm := s\<rparr> in
      rbind (collect (\<lambda>i. vload8 (KERNEL_LOAD_ADDR + of_nat i) k) [0..<unat (n_alloc file)]) (\<lambda>data.
      rbind (elf_load 256 junk KERNEL_LOAD_ADDR data (n_data file) (procs k p) (kvm k)) (\<lambda>(is, proc, s).
      Inr (is, (set_proc p proc k)\<lparr>kvm := s\<rparr>)))))))"

definition run_file :: "(u32 \<Rightarrow> kernel \<Rightarrow> kernel res) \<Rightarrow> nat \<Rightarrow> nat \<Rightarrow> load_instr list option \<Rightarrow> kernel \<Rightarrow> kernel res" where
  "run_file prog kp p instrs k =
     rbind (case instrs of None \<Rightarrow> Inr k
            | Some is \<Rightarrow> rbind (exec_instrs prog p is (switch_to (page_tab (procs k p)) k)) (\<lambda>k.
                Inr (switch_to (page_tab (procs k kp)) k))) (\<lambda>k.
     rbind (mmu_unmap (page_tab (procs k p)) (kvm k)) (\<lambda>s. Inr (k\<lparr>kvm := s\<rparr>)))"

definition exec_file :: "(u32 \<Rightarrow> kernel \<Rightarrow> kernel res) \<Rightarrow> (nat \<Rightarrow> u32) \<Rightarrow> dev \<Rightarrow> fat32_fs \<Rightarrow> dirent \<Rightarrow> nat \<Rightarrow> nat \<Rightarrow> kernel \<Rightarrow>
    kernel res option" where
  "exec_file prog junk dev fs entry kp p k =
     (case new_space (page_tab new_process) (kvm k) of
        Inl e \<Rightarrow> Some (Inl e)
      | Inr s \<Rightarrow>
          Option.bind (fat32_read_file dev fs entry) (\<lambda>r. Some (
          rbind r (\<lambda>file.
          rbind (load_file junk file kp p ((set_proc p new_process k)\<lparr>kvm := s\<rparr>)) (\<lambda>(is, k).
          run_file prog kp p is k)))))"

section \<open>The kernel gets its address space back\<close>

text \<open>What loading and running a program leave alone: the running process, the active table, the kernel's table.\<close>

definition frame :: "nat \<Rightarrow> kernel \<Rightarrow> kernel \<Rightarrow> bool" where
  "frame q k k' \<longleftrightarrow> current_proc k' = current_proc k \<and> ttbr0 (kcpu k') = ttbr0 (kcpu k) \<and>
     page_tab (procs k' q) = page_tab (procs k q)"

lemma frame_refl [simp]: "frame q k k"
  by (simp add: frame_def)

lemma frame_trans: "frame q k k' \<Longrightarrow> frame q k' k'' \<Longrightarrow> frame q k k''"
  by (simp add: frame_def)

lemma frame_kvm [simp]: "frame q k (k'\<lparr>kvm := s\<rparr>) = frame q k k'" "frame q (k\<lparr>kvm := s\<rparr>) k' = frame q k k'"
  by (simp_all add: frame_def)

lemma vwrite8_ttbr0: "vwrite8 s va b c = Inr c' \<Longrightarrow> ttbr0 c' = ttbr0 c"
  by (auto simp: vwrite8_def split: option.splits)

lemma vstore8_frame: "vstore8 va b k = Inr k' \<Longrightarrow> frame q k k'"
  by (auto simp: vstore8_def frame_def vwrite8_ttbr0)

lemma vstore_bytes_frame: "vstore_bytes va bs k = Inr k' \<Longrightarrow> frame q k k'"
  by (induction bs arbitrary: va k) (auto intro: frame_trans vstore8_frame)

lemma vmemcpy_frame: "vmemcpy dst src n k = Inr k' \<Longrightarrow> frame q k k'"
  by (induction n arbitrary: dst src k) (auto intro: frame_trans vstore8_frame)

lemma vmemset_loop_ttbr0: "vmemset_loop s p e b c = Inr c' \<Longrightarrow> ttbr0 c' = ttbr0 c"
proof (induction s p e b c rule: vmemset_loop.induct)
  case (1 s p e b c)
  show ?case
  proof (cases "p < e")
    case True
    with "1.prems" obtain c1 where "vwrite8 s p b c = Inr c1" "vmemset_loop s (p + 1) e b c1 = Inr c'"
      by (auto simp: vmemset_loop.simps [of s p])
    then show ?thesis using "1.IH" [OF True] vwrite8_ttbr0 by metis
  next
    case False
    then show ?thesis using "1.prems" by (simp add: vmemset_loop.simps [of s p])
  qed
qed

lemma vmemset_frame: "vmemset a b n k = Inr k' \<Longrightarrow> frame q k k'"
  by (auto simp: vmemset_def frame_def dest: vmemset_loop_ttbr0)

text \<open>A program may change memory and its own heap, but not which page tables the processes have.\<close>

definition keeps_tables :: "(u32 \<Rightarrow> kernel \<Rightarrow> kernel res) \<Rightarrow> bool" where
  "keeps_tables prog \<longleftrightarrow> (\<forall>a k k' q. prog a k = Inr k' \<longrightarrow> page_tab (procs k' q) = page_tab (procs k q))"

definition run_frame :: "nat \<Rightarrow> kernel \<Rightarrow> kernel \<Rightarrow> bool" where
  "run_frame q k k' \<longleftrightarrow> current_proc k' = current_proc k \<and> page_tab (procs k' q) = page_tab (procs k q)"

lemma frame_run_frame: "frame q k k' \<Longrightarrow> run_frame q k k'"
  by (simp add: frame_def run_frame_def)

lemma exec_load_instr_frame:
  assumes "keeps_tables prog" "exec_load_instr prog p i k = Inr (ok, k')"
  shows "run_frame q k k'"
proof (cases i)
  case (LOAD_COPY a b c)
  then show ?thesis using assms(2) by (auto simp: exec_load_instr_def Let_def intro: frame_run_frame vmemcpy_frame)
next
  case (LOAD_ZERO a b c)
  then show ?thesis using assms(2) by (auto simp: exec_load_instr_def Let_def intro: frame_run_frame vmemset_frame)
next
  case (LOAD_JUMP a b)
  then show ?thesis using assms
    by (auto simp: exec_load_instr_def Let_def run_frame_def keeps_tables_def set_proc_def syscall_set_current_proc_def
      syscall_get_current_proc_def split: if_splits)
qed

lemma exec_instrs_frame:
  "keeps_tables prog \<Longrightarrow> exec_instrs prog p is k = Inr k' \<Longrightarrow> run_frame q k k'"
proof (induction "is" arbitrary: k)
  case (Cons i "is")
  then obtain ok k1 where k1: "exec_load_instr prog p i k = Inr (ok, k1)" by auto
  show ?case
  proof (cases ok)
    case True
    then have "run_frame q k1 k'" using Cons k1 by auto
    then show ?thesis using exec_load_instr_frame [OF Cons.prems(1) k1] by (simp add: run_frame_def)
  next
    case False
    then show ?thesis using Cons.prems k1 exec_load_instr_frame [OF Cons.prems(1) k1] by auto
  qed
qed (simp add: run_frame_def)

lemma elf_load_page_tab:
  "elf_load cap junk base data n proc s = Inr (is, proc', s') \<Longrightarrow> page_tab proc' = page_tab proc"
  by (auto simp: elf_load_def finish_load_def Let_def split: if_splits option.splits)

lemma load_file_frame:
  assumes "load_file junk file kp p k = Inr (is, k')"
  shows "frame q k k'"
proof -
  obtain s1 k1 s2 d proc s3 where
    "vstore_bytes KERNEL_LOAD_ADDR (take (unat (n_data file)) (f_data file)) (k\<lparr>kvm := s1\<rparr>) = Inr k1"
    and e: "elf_load 256 junk KERNEL_LOAD_ADDR d (n_data file) (procs k1 p) s2 = Inr (is, proc, s3)"
    and k': "k' = (set_proc p proc (k1\<lparr>kvm := s2\<rparr>))\<lparr>kvm := s3\<rparr>"
    using assms by (auto simp: load_file_def Let_def)
  then have "frame q k k1" using vstore_bytes_frame by force
  then show ?thesis using elf_load_page_tab [OF e] k' by (auto simp: frame_def set_proc_def)
qed

lemma unmap_entries_zero:
  "unmap_entries fs m = Inr m' \<Longrightarrow> length m' = length m \<and> (\<forall>i. m ! i = 0 \<longrightarrow> i < length m \<longrightarrow> m' ! i = 0) \<and>
   (\<forall>f \<in> set fs. private_fld f \<longrightarrow> m' ! fld_base f = 0)"
  by (induction fs arbitrary: m) (auto simp: private_fld_def fld_base_def nth_list_update split: if_splits)

text \<open>A run leaves the kernel in its own address space and as the process it was.\<close>

lemma exec_file_home:
  assumes "exec_file prog junk dev fs entry kp p k = Some (Inr k')" "keeps_tables prog" "p \<noteq> kp"
    and "ttbr0 (kcpu k) = vaddr_map (page_tab (procs k kp))"
  shows "current_proc k' = current_proc k \<and> page_tab (procs k' kp) = page_tab (procs k kp) \<and>
    ttbr0 (kcpu k') = vaddr_map (page_tab (procs k' kp)) \<and>
    (\<forall>i \<in> private_pages (page_tab (procs k' p)) (kvm k'). asid_map (kvm k') ! i = 0)"
proof -
  obtain s f "is" k1 where l: "load_file junk f kp p ((set_proc p new_process k)\<lparr>kvm := s\<rparr>) = Inr (is, k1)"
    and r: "run_file prog kp p is k1 = Inr k'"
    using assms(1) by (auto simp: exec_file_def bind_eq_Some_conv split: sum.splits)
  have f1: "frame kp k k1" using load_file_frame [OF l] assms(3) by (auto simp: frame_def set_proc_def)
  obtain k2 m where k2: "(case is of None \<Rightarrow> Inr k1
       | Some is \<Rightarrow> rbind (exec_instrs prog p is (switch_to (page_tab (procs k1 p)) k1)) (\<lambda>k.
           Inr (switch_to (page_tab (procs k kp)) k))) = Inr k2"
    and m: "unmap_entries (tt (kvm k2) (vaddr_map (page_tab (procs k2 p)))) (asid_map (kvm k2)) = Inr m"
    and k': "k' = k2\<lparr>kvm := (kvm k2)\<lparr>asid_map := m\<rparr>\<rparr>"
    using r by (auto simp: run_file_def mmu_unmap_def)
  have "run_frame kp k1 k2 \<and> ttbr0 (kcpu k2) = vaddr_map (page_tab (procs k2 kp))"
  proof (cases "is")
    case None
    then show ?thesis using k2 f1 assms(4) by (auto simp: run_frame_def frame_def)
  next
    case (Some ls)
    then obtain k3 where k3: "exec_instrs prog p ls (switch_to (page_tab (procs k1 p)) k1) = Inr k3"
      "k2 = switch_to (page_tab (procs k3 kp)) k3" using k2 by auto
    then show ?thesis using exec_instrs_frame [OF assms(2) k3(1), of kp]
      by (auto simp: run_frame_def switch_to_def set_procid_ttbr0_def)
  qed
  then show ?thesis using f1 k' unmap_entries_zero [OF m]
    by (auto simp: run_frame_def frame_def private_pages_def)
qed

text \<open>
  C8: whenever \<open>exec_file\<close> returns, whether the file was loaded and run or rejected, the kernel runs
  again in its own address space and as the process it was before, its page table is the one it had,
  and every physical section that the child's table maps privately has been released.
\<close>

theorem exec_file_restores:
  assumes "exec_file prog junk dev fs entry kp p k = Some (Inr k')" "keeps_tables prog" "p \<noteq> kp"
    and "ttbr0 (kcpu k) = vaddr_map (page_tab (procs k kp))"
  shows "current_proc k' = current_proc k \<and> page_tab (procs k' kp) = page_tab (procs k kp) \<and>
    ttbr0 (kcpu k') = vaddr_map (page_tab (procs k' kp)) \<and>
    (\<forall>i \<in> private_pages (page_tab (procs k' p)) (kvm k'). asid_map (kvm k') ! i = 0)"
  by (rule exec_file_home [OF assms])

text \<open>Running an empty file: it is rejected, with the address space set up and taken down again.\<close>

definition empty_fs :: fat32_fs where
  "empty_fs = \<lparr>fat_begin_lba = 32, cluster_begin_lba = 40, sectors_per_cluster = 1, root_dir_first_cluster = 2,
     fat = [], n_fat = 2\<rparr>"

definition empty_entry :: dirent where
  "empty_entry = \<lparr>de_name = [0x61], cluster_id = 0x0FFFFFFF, is_dir_p = False, nbytes = 0\<rparr>"

definition no_dev :: dev where "no_dev lba n = (0, [])"

lemma read_empty: "fat32_read_file no_dev empty_fs empty_entry =
  Some (Inr \<lparr>f_data = [], f_cksum = crc32 [], n_alloc = 0, n_data = 0\<rparr>)"
proof -
  have "fat32_fat_entry_type 0x0FFFFFFF = Inr LAST_CLUSTER" by code_simp
  then show ?thesis
    by (simp add: fat32_read_file_def empty_fs_def empty_entry_def count_clusters_def count_clusters_loop.simps
      read_file_loop.simps SECTOR_SIZE_def Let_def)
qed

lemma unmap_none: "\<forall>f \<in> set fs. \<not> private_fld f \<Longrightarrow> unmap_entries fs m = Inr m"
  by (induction fs) (auto simp: private_fld_def)

lemma kernel_entries_shared:
  "f \<in> set (kernel_entries (replicate n fld_zero)) \<Longrightarrow> \<not> private_fld f"
  unfolding kernel_entries_def
  by (auto dest!: set_update_subset_insert [THEN subsetD] simp: private_fld_def section_fld_def fld_zero_def)

lemma exec_empty: "\<exists>k'. exec_file (\<lambda>_. Inr) (\<lambda>_. 0) no_dev empty_fs empty_entry 0 1 demo_kernel = Some (Inr k')"
proof -
  have al: "is_aligned (TRANS_TABLE_ADDR + of_nat 2 * 16384) 14" by (simp add: is_aligned_def TRANS_TABLE_ADDR_def)
  obtain s where s: "new_space (page_tab new_process) (kvm demo_kernel) = Inr s"
    "tt s 2 = kernel_entries (replicate N_VIRT_PAGES fld_zero)"
    using al by (simp add: new_space_def new_process_def mmu_init_def mmu_map_kernel_sections_eq)
  let ?k = "(set_proc 1 new_process demo_kernel)\<lparr>kvm := s\<rparr>"
  have "load_file (\<lambda>_. 0) \<lparr>f_data = [], f_cksum = crc32 [], n_alloc = 0, n_data = 0\<rparr> 0 1 ?k = Inr (None, ?k)"
    by (simp add: load_file_def Let_def mmu_map_to_mem_def KERNEL_LOAD_ADDR_def map_pages.simps share_pages.simps
      elf_load_def set_proc_def)
  moreover have "run_file (\<lambda>_. Inr) 0 1 None ?k = Inr ?k"
    using s(2) unmap_none [of "tt s 2"] kernel_entries_shared
    by (auto simp: run_file_def mmu_unmap_def set_proc_def new_process_def)
  ultimately show ?thesis by (simp add: exec_file_def s read_empty)
qed

theorem exec_file_restores_witness:
  "\<exists>k'. exec_file (\<lambda>_. Inr) (\<lambda>_. 0) no_dev empty_fs empty_entry 0 1 demo_kernel = Some (Inr k') \<and>
     current_proc k' = Some 0 \<and> ttbr0 (kcpu k') = vaddr_map (page_tab (procs k' 0))"
proof -
  obtain k' where k': "exec_file (\<lambda>_. Inr) (\<lambda>_. 0) no_dev empty_fs empty_entry 0 1 demo_kernel = Some (Inr k')"
    using exec_empty by blast
  have "keeps_tables (\<lambda>_. Inr)" by (simp add: keeps_tables_def)
  then have "current_proc k' = current_proc demo_kernel \<and> ttbr0 (kcpu k') = vaddr_map (page_tab (procs k' 0))"
    using exec_file_restores [OF k'] by (simp add: demo_kernel_def pt_of_def)
  then show ?thesis using k' by (simp add: demo_kernel_def)
qed

end
