(* ===== verification/Pi_Shell.thy ===== *)
theory Pi_Shell
  imports Pi_Exec Pi_Io
begin

text \<open>
  The kernel's shell, pi-side/kernel/shell.c: commands arrive as lines on the serial port, and what is
  printed goes out on it. Text is a list of bytes without its terminating NUL. In \<open>do_read\<close> the file
  structure is passed for a \<open>%s\<close>: the variadic argument in its place is the first word of the structure,
  the pointer to the data, so what is printed is the string at the start of the data, and without a
  NUL in data shorter than \<open>printk\<close>'s buffer it reads past them. The debugging output of the
  SD card driver is not part of the model.
\<close>

section \<open>Reading a line\<close>

text \<open>With room for \<open>n\<close> more bytes; \<open>None\<close> is the panic when the buffer is full.\<close>

fun readline :: "nat \<Rightarrow> u8 list \<Rightarrow> u8 list option io" where
  "readline 0 buf = Ret None"
| "readline (Suc n) buf = GetByte (\<lambda>c. if c = 0x0A then Ret (Some buf) else readline n (buf @ [c]))"

section \<open>Commands\<close>

definition absolute :: "u8 list \<Rightarrow> bool" where
  "absolute path \<longleftrightarrow> (case path of [] \<Rightarrow> False | c # _ \<Rightarrow> c = SLASH)"

fun print_names :: "pi_dir \<Rightarrow> u8 list res" where
  "print_names [] = Inr []"
| "print_names (d # ds) = rbind (printk_nl ''%s'' [Text (de_name d)]) (\<lambda>s. rbind (print_names ds) (\<lambda>out. Inr (s @ out)))"

definition list_dir :: "dev \<Rightarrow> fat32_fs \<Rightarrow> dirent option \<Rightarrow> u8 list res option" where
  "list_dir dev fs d = Option.bind (fat32_read_dir dev fs d) (\<lambda>r. Some (rbind r print_names))"

text \<open>Output already printed, in front of what comes.\<close>

definition after :: "u8 list \<Rightarrow> u8 list res \<Rightarrow> u8 list res" where
  "after head r = rbind r (\<lambda>out. Inr (head @ out))"

definition do_ls :: "dev \<Rightarrow> fat32_fs \<Rightarrow> u8 list \<Rightarrow> u8 list res option" where
  "do_ls dev fs path =
     (if \<not> absolute path then Some (printk_nl ''Expected absolute path'' [])
      else case printk_nl ''%s:'' [Text path] of Inl e \<Rightarrow> Some (Inl e)
      | Inr head \<Rightarrow>
        if tl path \<noteq> [] then
          Option.bind (path_lookup dev fs None (tl path)) (\<lambda>r.
          case r of Inl e \<Rightarrow> Some (Inl e)
          | Inr (Inl msg, dir) \<Rightarrow> Some (Inr (head @ msg))
          | Inr (Inr entry, dir) \<Rightarrow>
              if \<not> is_dir_p entry then Some (after head (printk_nl ''%s is not a directory'' [Text path]))
              else map_option (after head) (list_dir dev fs (Some entry)))
        else map_option (after head) (list_dir dev fs None))"

text \<open>What \<open>do_read\<close> and \<open>do_run\<close> do before they use the entry: the output, and the entry if there is one.\<close>

definition find_file :: "dev \<Rightarrow> fat32_fs \<Rightarrow> u8 list \<Rightarrow> (u8 list \<times> dirent option) res option" where
  "find_file dev fs path =
     (if \<not> absolute path then Some (rbind (printk_nl ''Expected absolute path'' []) (\<lambda>out. Inr (out, None)))
      else case printk_nl ''%s:'' [Text path] of Inl e \<Rightarrow> Some (Inl e)
      | Inr head \<Rightarrow>
        if tl path = [] then Some (Inr (head, None))
        else Option.bind (path_lookup dev fs None (tl path)) (\<lambda>r.
          let is_dir = (\<lambda>out. rbind (after out (printk_nl ''%s is a directory'' [Text path])) (\<lambda>out. Inr (out, None))) in
          case r of Inl e \<Rightarrow> Some (Inl e)
          | Inr (Inl msg, dir) \<Rightarrow> Some (is_dir (head @ msg))
          | Inr (Inr entry, dir) \<Rightarrow> if is_dir_p entry then Some (is_dir head) else Some (Inr (head, Some entry))))"

definition do_read :: "dev \<Rightarrow> fat32_fs \<Rightarrow> u8 list \<Rightarrow> u8 list res option" where
  "do_read dev fs path =
     Option.bind (find_file dev fs path) (\<lambda>r.
     case r of Inl e \<Rightarrow> Some (Inl e)
     | Inr (head, None) \<Rightarrow> Some (Inr head)
     | Inr (head, Some entry) \<Rightarrow>
         Option.bind (fat32_read_file dev fs entry) (\<lambda>r. Some (
         rbind r (\<lambda>file.
         if 0 \<in> set (f_data file) \<or> 1023 \<le> length (f_data file)
         then after head (printk_nl ''%s'' [Text (takeWhile (\<lambda>c. c \<noteq> 0) (f_data file))])
         else Inl BadAccess))))"

definition do_run :: "(u32 \<Rightarrow> kernel \<Rightarrow> kernel res) \<Rightarrow> (nat \<Rightarrow> u32) \<Rightarrow> dev \<Rightarrow> fat32_fs \<Rightarrow> u8 list \<Rightarrow> nat \<Rightarrow> nat \<Rightarrow> kernel \<Rightarrow>
    (u8 list \<times> kernel) res option" where
  "do_run prog junk dev fs path kp p k =
     Option.bind (find_file dev fs path) (\<lambda>r.
     case r of Inl e \<Rightarrow> Some (Inl e)
     | Inr (head, None) \<Rightarrow> Some (Inr (head, k))
     | Inr (head, Some entry) \<Rightarrow>
         Option.bind (exec_file prog junk dev fs entry kp p k) (\<lambda>r. Some (
         rbind r (\<lambda>k. Inr (head, k)))))"

section \<open>The command loop\<close>

definition pi_done :: "u8 list" where "pi_done = str ''PI REBOOT!!!''"
definition cmd_done :: "u8 list" where "cmd_done = str ''CMD-DONE''"
definition shell_ready :: "u8 list" where "shell_ready = str ''READY''"

text \<open>
  One round of the loop on the line \<open>buf\<close>: the texts printed and the kernel, then on to the next line;
  or a reboot, for an empty line by \<open>clean_reboot\<close>; or control passes to \<open>load_code\<close> (Pi_Boot). \<open>strncmp(buf, lit, n) == 0\<close> compares the
  buffer, whose line ends in a NUL, with a literal.
\<close>

datatype action = Next "u8 list" kernel | Reboot "u8 list" | Load

definition starts :: "u8 list \<Rightarrow> u8 list \<Rightarrow> nat \<Rightarrow> bool" where
  "starts buf lit n \<longleftrightarrow> take n (buf @ [0]) = take n (lit @ [0])"

definition done_after :: "kernel \<Rightarrow> u8 list res \<Rightarrow> action res" where
  "done_after k r = rbind r (\<lambda>out. rbind (after out (printk_nl ''%s'' [Text cmd_done])) (\<lambda>out. Inr (Next out k)))"

definition shell_command :: "(u32 \<Rightarrow> kernel \<Rightarrow> kernel res) \<Rightarrow> (nat \<Rightarrow> u32) \<Rightarrow> dev \<Rightarrow> fat32_fs \<Rightarrow> nat \<Rightarrow> nat \<Rightarrow> u8 list \<Rightarrow> kernel \<Rightarrow>
    action res option" where
  "shell_command prog junk dev fs kp p buf k =
     (if buf = [] then Some (Inr (Reboot (putk (str ''DONE!!!'' @ [0x0A]))))
      else if starts buf (str ''echo '') 5 then Some (rbind (printk_nl ''%s'' [Text (drop 5 buf)]) (\<lambda>out. Inr (Next out k)))
      else if starts buf (str ''reboot'') 7 then Some (rbind (printk_nl ''%s'' [Text pi_done]) (\<lambda>out. Inr (Reboot out)))
      else if starts buf (str ''ls '') 3 then map_option (done_after k) (do_ls dev fs (drop 3 buf))
      else if starts buf (str ''cat '') 4 then map_option (done_after k) (do_read dev fs (drop 4 buf))
      else if starts buf (str ''run '') 4 then
        map_option (\<lambda>r. rbind r (\<lambda>(out, k). done_after k (Inr out))) (do_run prog junk dev fs (drop 4 buf) kp p k)
      else if starts buf (str ''load'') 4 then Some (Inr Load)
      else Some (Inr (Next [] k)))"

section \<open>Lines\<close>

text \<open>
  \<open>readline\<close> returns exactly the bytes before the first newline, consumes the newline and nothing
  after it, and panics exactly when the line with its terminator does not fit the buffer.
\<close>

lemma readline_run:
  "0x0A \<notin> set line \<Longrightarrow>
   run_io (readline n buf) (line @ 0x0A # rest) =
     (if length line < n then Some (Some (buf @ line), [], rest) else Some (None, [], drop n line @ 0x0A # rest))"
proof (induction line arbitrary: n buf)
  case Nil
  then show ?case by (cases n) auto
next
  case (Cons c line)
  then show ?case by (cases n) auto
qed

lemma readline_consumes: "run_io (readline n buf) inp = Some (Some line, out, rest) \<Longrightarrow> length rest < length inp"
proof (induction inp arbitrary: n buf)
  case Nil
  then show ?case by (cases n) auto
next
  case (Cons c inp)
  then show ?case by (cases n) (force split: if_splits)+
qed

text \<open>
  The loop on the bytes that arrive: what it sends until the line is quiet, the Pi reboots, or a
  program is loaded by \<open>load_code\<close>, which talks to the other side itself.
\<close>

datatype ending = Waiting kernel | Rebooted | Loading "u8 list" kernel

function shell_loop :: "(u32 \<Rightarrow> kernel \<Rightarrow> kernel res) \<Rightarrow> (nat \<Rightarrow> u32) \<Rightarrow> dev \<Rightarrow> fat32_fs \<Rightarrow> nat \<Rightarrow> nat \<Rightarrow> u8 list \<Rightarrow> kernel \<Rightarrow>
    (u8 list \<times> ending) res option" where
  "shell_loop prog junk dev fs kp p inp k =
     (case run_io (readline 1024 []) inp of
        None \<Rightarrow> Some (Inr ([], Waiting k))
      | Some (None, _, _) \<Rightarrow> Some (Inl PanicFault)
      | Some (Some line, _, rest) \<Rightarrow>
          Option.bind (shell_command prog junk dev fs kp p line k) (\<lambda>r.
          case r of Inl e \<Rightarrow> Some (Inl e)
          | Inr (Next out k) \<Rightarrow> map_option (\<lambda>r. rbind r (\<lambda>(out', fin). Inr (out @ out', fin)))
              (shell_loop prog junk dev fs kp p rest k)
          | Inr (Reboot out) \<Rightarrow> Some (Inr (out, Rebooted))
          | Inr Load \<Rightarrow> Some (Inr ([], Loading rest k))))"
  by pat_completeness auto
termination
  by (relation "measure (\<lambda>(prog, junk, dev, fs, kp, p, inp, k). length inp)") (auto dest: readline_consumes)

declare shell_loop.simps [simp del]

section \<open>Output comes in lines\<close>

definition ends_nl :: "u8 list \<Rightarrow> bool" where
  "ends_nl out \<longleftrightarrow> out \<noteq> [] \<and> last out = 0x0A"

lemma ends_nl_append [simp]: "ends_nl b \<Longrightarrow> ends_nl (a @ b)"
  by (simp add: ends_nl_def)

lemmas fixed_texts =
  printk_nl_s [of "''''", simplified str_def, simplified] printk_nl_s [of "'':''", simplified str_def, simplified]
  printk_nl_s [of "'' does not exist''", simplified str_def, simplified] printk_nl_s [of "'' is not a directory''", simplified str_def, simplified]
  printk_nl_s [of "'' is a directory''", simplified str_def, simplified] printk_nl_plain [of "''Expected absolute path''", simplified str_def, simplified]

lemma line_ends_nl: "length s + length t \<le> 1022 \<Longrightarrow> ends_nl (take 1023 (takeWhile P s @ t @ [0x0A]))"
proof -
  assume "length s + length t \<le> 1022"
  then have "length (takeWhile P s @ t @ [0x0A]) \<le> 1023" using length_takeWhile_le [of P s] by simp
  then show ?thesis by (simp only: take_all ends_nl_def) simp
qed

lemma print_nl_s:
  assumes "printk_nl (''%s'' @ f) [Text s] = Inr out" "0x25 \<notin> set (str f)" "0 \<notin> set (str f)" "length s + length f \<le> 1022"
  shows "ends_nl out"
  using assms printk_nl_s [OF assms(2,3), of s] line_ends_nl [of s "str f"] by (simp add: str_def)

lemmas printed_line =
  print_nl_s [of "''''", simplified str_def, simplified] print_nl_s [of "'':''", simplified str_def, simplified]
  print_nl_s [of "'' does not exist''", simplified str_def, simplified] print_nl_s [of "'' is not a directory''", simplified str_def, simplified]
  print_nl_s [of "'' is a directory''", simplified str_def, simplified]

lemma print_names_ends:
  "print_names l = Inr out \<Longrightarrow> \<forall>x \<in> set l. length (de_name x) < 256 \<Longrightarrow> out = [] \<or> ends_nl out"
proof (induction l arbitrary: out)
  case (Cons d l)
  then obtain s o2 where s: "printk_nl ''%s'' [Text (de_name d)] = Inr s" and o: "print_names l = Inr o2" "out = s @ o2" by auto
  have "ends_nl s" by (rule printed_line(1) [OF s]) (use Cons.prems(2) in simp)
  then show ?case using Cons.IH [OF o(1)] Cons.prems(2) o(2) by auto
qed simp

lemma list_dir_ends: "list_dir dev fs d = Some (Inr out) \<Longrightarrow> out = [] \<or> ends_nl out"
  by (auto simp: list_dir_def bind_eq_Some_conv dest: read_dir_names dest!: print_names_ends)

lemma path_loop_ends:
  "path_loop dev fs dir path = Some (Inr (Inl msg, d)) \<Longrightarrow> length path \<le> 1000 \<Longrightarrow> ends_nl msg"
proof (induction dev fs dir path rule: path_loop.induct)
  case (1 dev fs dir path)
  have m: "ends_nl msg" if "missing f name dir = Inr (Inl msg, d)" "length name \<le> 1000"
    "f = ''%s does not exist'' \<or> f = ''%s is not a directory''" for f name
  proof -
    have "printk_nl f [Text name] = Inr msg" using that(1) by (simp add: missing_def)
    then show ?thesis using that(2,3) printed_line(3,4) [of name msg] by auto
  qed
  show ?case
  proof (cases "SLASH \<in> set path")
    case False
    then show ?thesis using "1.prems" m [of "''%s does not exist''" path]
      by (auto simp: path_loop.simps [of dev fs dir path] split: option.splits)
  next
    case True
    have l: "length (takeWhile (\<lambda>c. c \<noteq> SLASH) path) \<le> 1000" "length (tl (dropWhile (\<lambda>c. c \<noteq> SLASH) path)) \<le> 1000"
      using "1.prems"(2) length_takeWhile_le [of "\<lambda>c. c \<noteq> SLASH" path] length_dropWhile_le [of "\<lambda>c. c \<noteq> SLASH" path] by auto
    note unf = path_loop.simps [of dev fs dir path]
    show ?thesis
    proof (cases "length (takeWhile (\<lambda>c. c \<noteq> SLASH) path) < 256")
      case short: True
      show ?thesis
      proof (cases "dir_lookup dir (takeWhile (\<lambda>c. c \<noteq> SLASH) path)")
        case None
        then show ?thesis using "1.prems"(1) True short l(1) m unf by (auto simp: Let_def)
      next
        case (Some sub)
        show ?thesis
        proof (cases "is_dir_p sub")
          case False
          then show ?thesis using "1.prems"(1) True short l(1) m Some unf by (auto simp: Let_def)
        next
          case isdir: True
          obtain next_dir where r: "fat32_read_dir dev fs (Some sub) = Some (Inr next_dir)"
            using "1.prems"(1) True short Some isdir unf
            by (cases "fat32_read_dir dev fs (Some sub)"; cases "the (fat32_read_dir dev fs (Some sub))") (auto simp: Let_def)
          then have p: "path_loop dev fs next_dir (tl (dropWhile (\<lambda>c. c \<noteq> SLASH) path)) = Some (Inr (Inl msg, d))"
            using "1.prems"(1) True short Some isdir unf by (simp add: Let_def del: path_loop.simps)
          show ?thesis using "1.IH" [OF True refl _ Some _ r refl p l(2)] short isdir by blast
        qed
      qed
    qed (use "1.prems"(1) True unf in \<open>simp add: Let_def\<close>)
  qed
qed

lemma path_lookup_ends:
  "path_lookup dev fs start path = Some (Inr (Inl msg, d)) \<Longrightarrow> length path \<le> 1000 \<Longrightarrow> ends_nl msg"
  using path_loop_ends [of dev fs _ path msg d]
  by (cases "fat32_read_dir dev fs start"; cases "the (fat32_read_dir dev fs start)")
    (auto simp: path_lookup_def simp del: path_loop.simps)

lemma do_ls_ends:
  assumes "do_ls dev fs path = Some (Inr out)" "length path \<le> 1000"
  shows "ends_nl out"
proof -
  have t: "length (tl path) \<le> 1000" using assms(2) by simp
  show ?thesis
  proof (cases "absolute path")
    case False
    then show ?thesis using assms(1) by (auto simp: do_ls_def fixed_texts(6) str_def ends_nl_def)
  next
    case True
    with assms(1) obtain head where h: "printk_nl ''%s:'' [Text path] = Inr head" by (auto simp: do_ls_def split: sum.splits)
    have "ends_nl head" by (rule printed_line(2) [OF h]) (use assms(2) in simp)
    then have nl: "r = [] \<or> ends_nl r \<Longrightarrow> ends_nl (head @ r)" for r by (auto simp: ends_nl_def)
    have "\<exists>r. out = head @ r \<and> (r = [] \<or> ends_nl r)"
    proof (cases "tl path = []")
      case root: True
      then show ?thesis using assms(1) True h by (auto simp: do_ls_def after_def dest: list_dir_ends)
    next
      case sub: False
      show ?thesis
      proof (cases "path_lookup dev fs None (tl path)")
        case None
        then show ?thesis using assms(1) True h sub by (simp add: do_ls_def)
      next
        case (Some r)
        note found = this
        show ?thesis
        proof (cases r)
          case (Inl e)
          then show ?thesis using assms(1) True h sub found by (simp add: do_ls_def)
        next
          case (Inr x)
          then obtain y d where r: "r = Inr (y, d)" by (cases x) auto
          show ?thesis
          proof (cases y)
            case (Inl msg)
            then show ?thesis using assms(1) True h sub found r path_lookup_ends [OF _ t] by (auto simp: do_ls_def)
          next
            case (Inr entry)
            then show ?thesis using assms True h sub found r printed_line(4) [of path]
              by (cases "is_dir_p entry") (auto simp: do_ls_def after_def dest: list_dir_ends)
          qed
        qed
      qed
    qed
    then show ?thesis using nl by blast
  qed
qed

end
