(* ===== verification/Pi_Sd.thy ===== *)
theory Pi_Sd
  imports Pi_Prelude "HOL-Library.State_Monad"
begin

text \<open>
  The SD card driver, pi-side/kernel/disk/sd.c. The EMMC controller is hardware: the definitions
  take its register interface as an argument, three functions on an opaque device state that read
  a register, write a register and let time pass. The driver's static variables and the device form
  the state of a state monad, in which the functions of the driver are written as the source has
  them; a register that the source reads once more is read once more here. Messages printed on the
  console are left out. \<open>int\<close> and \<open>unsigned long\<close> are 32 bits wide, so an error code is a word and
  \<open>SD_TIMEOUT\<close> is all ones.
\<close>

section \<open>Registers and constants\<close>

definition SD_OK :: u32 where "SD_OK = 0"
definition SD_TIMEOUT :: u32 where "SD_TIMEOUT = - 1"
definition SD_ERROR :: u32 where "SD_ERROR = - 2"

definition EMMC_BLKSIZECNT :: u32 where "EMMC_BLKSIZECNT = 0x20300004"
definition EMMC_ARG1 :: u32 where "EMMC_ARG1 = 0x20300008"
definition EMMC_CMDTM :: u32 where "EMMC_CMDTM = 0x2030000C"
definition EMMC_RESP0 :: u32 where "EMMC_RESP0 = 0x20300010"
definition EMMC_RESP1 :: u32 where "EMMC_RESP1 = 0x20300014"
definition EMMC_RESP2 :: u32 where "EMMC_RESP2 = 0x20300018"
definition EMMC_RESP3 :: u32 where "EMMC_RESP3 = 0x2030001C"
definition EMMC_DATA :: u32 where "EMMC_DATA = 0x20300020"
definition EMMC_STATUS :: u32 where "EMMC_STATUS = 0x20300024"
definition EMMC_CONTROL0 :: u32 where "EMMC_CONTROL0 = 0x20300028"
definition EMMC_CONTROL1 :: u32 where "EMMC_CONTROL1 = 0x2030002C"
definition EMMC_INTERRUPT :: u32 where "EMMC_INTERRUPT = 0x20300030"
definition EMMC_INT_MASK :: u32 where "EMMC_INT_MASK = 0x20300034"
definition EMMC_INT_EN :: u32 where "EMMC_INT_EN = 0x20300038"
definition EMMC_SLOTISR_VER :: u32 where "EMMC_SLOTISR_VER = 0x203000FC"

definition CMD_NEED_APP :: u32 where "CMD_NEED_APP = 0x80000000"
definition CMD_RSPNS_48 :: u32 where "CMD_RSPNS_48 = 0x00020000"
definition CMD_ERRORS_MASK :: u32 where "CMD_ERRORS_MASK = 0xfff9c004"
definition CMD_RCA_MASK :: u32 where "CMD_RCA_MASK = 0xffff0000"

definition CMD_GO_IDLE :: u32 where "CMD_GO_IDLE = 0x00000000"
definition CMD_ALL_SEND_CID :: u32 where "CMD_ALL_SEND_CID = 0x02010000"
definition CMD_SEND_REL_ADDR :: u32 where "CMD_SEND_REL_ADDR = 0x03020000"
definition CMD_CARD_SELECT :: u32 where "CMD_CARD_SELECT = 0x07030000"
definition CMD_SEND_IF_COND :: u32 where "CMD_SEND_IF_COND = 0x08020000"
definition CMD_STOP_TRANS :: u32 where "CMD_STOP_TRANS = 0x0C030000"
definition CMD_READ_SINGLE :: u32 where "CMD_READ_SINGLE = 0x11220010"
definition CMD_READ_MULTI :: u32 where "CMD_READ_MULTI = 0x12220032"
definition CMD_SET_BLOCKCNT :: u32 where "CMD_SET_BLOCKCNT = 0x17020000"
definition CMD_WRITE_SINGLE :: u32 where "CMD_WRITE_SINGLE = 0x18220010"
definition CMD_WRITE_MULTI :: u32 where "CMD_WRITE_MULTI = 0x19220032"
definition CMD_APP_CMD :: u32 where "CMD_APP_CMD = 0x37000000"
definition CMD_SET_BUS_WIDTH :: u32 where "CMD_SET_BUS_WIDTH = 0x06020000 OR CMD_NEED_APP"
definition CMD_SEND_OP_COND :: u32 where "CMD_SEND_OP_COND = 0x29020000 OR CMD_NEED_APP"
definition CMD_SEND_SCR :: u32 where "CMD_SEND_SCR = 0x33220010 OR CMD_NEED_APP"

definition SR_READ_AVAILABLE :: u32 where "SR_READ_AVAILABLE = 0x00000800"
definition SR_WRITE_AVAILABLE :: u32 where "SR_WRITE_AVAILABLE = 0x00000400"
definition SR_DAT_INHIBIT :: u32 where "SR_DAT_INHIBIT = 0x00000002"
definition SR_CMD_INHIBIT :: u32 where "SR_CMD_INHIBIT = 0x00000001"
definition SR_APP_CMD :: u32 where "SR_APP_CMD = 0x00000020"

definition INT_DATA_TIMEOUT :: u32 where "INT_DATA_TIMEOUT = 0x00100000"
definition INT_CMD_TIMEOUT :: u32 where "INT_CMD_TIMEOUT = 0x00010000"
definition INT_READ_RDY :: u32 where "INT_READ_RDY = 0x00000020"
definition INT_WRITE_RDY :: u32 where "INT_WRITE_RDY = 0x00000010"
definition INT_CMD_DONE :: u32 where "INT_CMD_DONE = 0x00000001"
definition INT_ERROR_MASK :: u32 where "INT_ERROR_MASK = 0x017E8000"

definition C0_HCTL_DWITDH :: u32 where "C0_HCTL_DWITDH = 0x00000002"
definition C1_SRST_HC :: u32 where "C1_SRST_HC = 0x01000000"
definition C1_TOUNIT_MAX :: u32 where "C1_TOUNIT_MAX = 0x000e0000"
definition C1_CLK_EN :: u32 where "C1_CLK_EN = 0x00000004"
definition C1_CLK_STABLE :: u32 where "C1_CLK_STABLE = 0x00000002"
definition C1_CLK_INTLEN :: u32 where "C1_CLK_INTLEN = 0x00000001"

definition HOST_SPEC_NUM :: u32 where "HOST_SPEC_NUM = 0x00ff0000"
definition HOST_SPEC_V2 :: u32 where "HOST_SPEC_V2 = 1"

definition SCR_SD_BUS_WIDTH_4 :: u32 where "SCR_SD_BUS_WIDTH_4 = 0x00000400"
definition SCR_SUPP_SET_BLKCNT :: u32 where "SCR_SUPP_SET_BLKCNT = 0x02000000"
definition SCR_SUPP_CCS :: u32 where "SCR_SUPP_CCS = 0x00000001"

definition ACMD41_VOLTAGE :: u32 where "ACMD41_VOLTAGE = 0x00ff8000"
definition ACMD41_CMD_COMPLETE :: u32 where "ACMD41_CMD_COMPLETE = 0x80000000"
definition ACMD41_CMD_CCS :: u32 where "ACMD41_CMD_CCS = 0x40000000"
definition ACMD41_ARG_HC :: u32 where "ACMD41_ARG_HC = 0x51ff8000"

section \<open>State\<close>

record 'd emmc =
  emmc_get :: "'d \<Rightarrow> u32 \<Rightarrow> u32 \<times> 'd"
  emmc_put :: "'d \<Rightarrow> u32 \<Rightarrow> u32 \<Rightarrow> 'd"
  emmc_wait :: "'d \<Rightarrow> u32 \<Rightarrow> 'd"

record 'd sd =
  sd_scr0 :: u32
  sd_scr1 :: u32
  sd_rca :: u32
  sd_err :: u32
  sd_hv :: u32
  sd_emmc :: 'd

definition reg_get :: "'d emmc \<Rightarrow> u32 \<Rightarrow> ('d sd, u32) state" where
  "reg_get E a = State (\<lambda>s. let (v, d) = emmc_get E (sd_emmc s) a in (v, s\<lparr>sd_emmc := d\<rparr>))"

definition reg_put :: "'d emmc \<Rightarrow> u32 \<Rightarrow> u32 \<Rightarrow> ('d sd, unit) state" where
  "reg_put E a v = State (\<lambda>s. ((), s\<lparr>sd_emmc := emmc_put E (sd_emmc s) a v\<rparr>))"

definition wait_msec :: "'d emmc \<Rightarrow> u32 \<Rightarrow> ('d sd, unit) state" where
  "wait_msec E us = State (\<lambda>s. ((), s\<lparr>sd_emmc := emmc_wait E (sd_emmc s) us\<rparr>))"

definition var :: "('d sd \<Rightarrow> u32) \<Rightarrow> ('d sd, u32) state" where
  "var f = State (\<lambda>s. (f s, s))"

definition set_err :: "u32 \<Rightarrow> ('d sd, unit) state" where
  "set_err e = State (\<lambda>s. ((), s\<lparr>sd_err := e\<rparr>))"

section \<open>Waiting and commands\<close>

text \<open>
  The loops count down an \<open>int\<close>; the result is its value after the loop, \<open>- 1\<close> when the loop ended
  because the counter was zero.
\<close>

fun status_loop :: "'d emmc \<Rightarrow> u32 \<Rightarrow> nat \<Rightarrow> ('d sd, int) state" where
  "status_loop E msk cnt = do {
     st \<leftarrow> reg_get E EMMC_STATUS;
     if st AND msk = 0 then State_Monad.return (int cnt)
     else do {
       i \<leftarrow> reg_get E EMMC_INTERRUPT;
       if i AND INT_ERROR_MASK \<noteq> 0 then State_Monad.return (int cnt)
       else if cnt = 0 then State_Monad.return (- 1)
       else do { wait_msec E 1; status_loop E msk (cnt - 1) }
     }
   }"

declare status_loop.simps [simp del]

definition sd_status :: "'d emmc \<Rightarrow> u32 \<Rightarrow> ('d sd, u32) state" where
  "sd_status E msk = do {
     cnt \<leftarrow> status_loop E msk 500000;
     if cnt \<le> 0 then State_Monad.return SD_ERROR
     else do {
       i \<leftarrow> reg_get E EMMC_INTERRUPT;
       State_Monad.return (if i AND INT_ERROR_MASK \<noteq> 0 then SD_ERROR else SD_OK)
     }
   }"

text \<open>\<open>while (P( *reg) && cnt--) wait_msec(us);\<close>\<close>

fun poll_loop :: "'d emmc \<Rightarrow> u32 \<Rightarrow> (u32 \<Rightarrow> bool) \<Rightarrow> u32 \<Rightarrow> nat \<Rightarrow> ('d sd, int) state" where
  "poll_loop E a P us cnt = do {
     v \<leftarrow> reg_get E a;
     if \<not> P v then State_Monad.return (int cnt)
     else if cnt = 0 then State_Monad.return (- 1)
     else do { wait_msec E us; poll_loop E a P us (cnt - 1) }
   }"

declare poll_loop.simps [simp del]

definition sd_int :: "'d emmc \<Rightarrow> u32 \<Rightarrow> ('d sd, u32) state" where
  "sd_int E msk = do {
     cnt \<leftarrow> poll_loop E EMMC_INTERRUPT (\<lambda>i. i AND (msk OR INT_ERROR_MASK) = 0) 1 1000000;
     r \<leftarrow> reg_get E EMMC_INTERRUPT;
     if cnt \<le> 0 \<or> r AND INT_CMD_TIMEOUT \<noteq> 0 \<or> r AND INT_DATA_TIMEOUT \<noteq> 0 then do {
       reg_put E EMMC_INTERRUPT r; State_Monad.return SD_TIMEOUT }
     else if r AND INT_ERROR_MASK \<noteq> 0 then do {
       reg_put E EMMC_INTERRUPT r; State_Monad.return SD_ERROR }
     else do { reg_put E EMMC_INTERRUPT msk; State_Monad.return 0 }
   }"

text \<open>The part of \<open>sd_cmd\<close> after the prefix command, and the function, whose recursion is one deep.\<close>

definition sd_cmd_body :: "'d emmc \<Rightarrow> u32 \<Rightarrow> u32 \<Rightarrow> ('d sd, u32) state" where
  "sd_cmd_body E code arg = do {
     busy \<leftarrow> sd_status E SR_CMD_INHIBIT;
     if busy \<noteq> 0 then do { set_err SD_TIMEOUT; State_Monad.return 0 }
     else do {
       i \<leftarrow> reg_get E EMMC_INTERRUPT;
       reg_put E EMMC_INTERRUPT i;
       reg_put E EMMC_ARG1 arg;
       reg_put E EMMC_CMDTM code;
       (if code = CMD_SEND_OP_COND then wait_msec E 1000
       else if code = CMD_SEND_IF_COND \<or> code = CMD_APP_CMD then wait_msec E 100
       else State_Monad.return ());
       r \<leftarrow> sd_int E INT_CMD_DONE;
       if r \<noteq> 0 then do { set_err r; State_Monad.return 0 }
       else do {
         r \<leftarrow> reg_get E EMMC_RESP0;
         if code = CMD_GO_IDLE \<or> code = CMD_APP_CMD then State_Monad.return 0
         else if code = CMD_APP_CMD OR CMD_RSPNS_48 then State_Monad.return (r AND SR_APP_CMD)
         else if code = CMD_SEND_OP_COND then State_Monad.return r
         else if code = CMD_SEND_IF_COND then State_Monad.return (if r = arg then SD_OK else SD_ERROR)
         else if code = CMD_ALL_SEND_CID then do {
           r3 \<leftarrow> reg_get E EMMC_RESP3; r2 \<leftarrow> reg_get E EMMC_RESP2; r1 \<leftarrow> reg_get E EMMC_RESP1;
           State_Monad.return (r OR r3 OR r2 OR r1) }
         else if code = CMD_SEND_REL_ADDR then do {
           set_err ((r AND 0x1fff OR push_bit 6 (r AND 0x2000) OR push_bit 8 (r AND 0x4000) OR
                     push_bit 8 (r AND 0x8000)) AND CMD_ERRORS_MASK);
           State_Monad.return (r AND CMD_RCA_MASK) }
         else State_Monad.return (r AND CMD_ERRORS_MASK)
       }
     }
   }"

definition sd_cmd :: "'d emmc \<Rightarrow> u32 \<Rightarrow> u32 \<Rightarrow> ('d sd, u32) state" where
  "sd_cmd E code arg = do {
     set_err SD_OK;
     if code AND CMD_NEED_APP \<noteq> 0 then do {
       rca \<leftarrow> var sd_rca;
       set_err SD_OK;
       r \<leftarrow> sd_cmd_body E (CMD_APP_CMD OR (if rca \<noteq> 0 then CMD_RSPNS_48 else 0)) rca;
       rca \<leftarrow> var sd_rca;
       if rca \<noteq> 0 \<and> r = 0 then do { set_err SD_ERROR; State_Monad.return 0 }
       else sd_cmd_body E (code AND NOT CMD_NEED_APP) arg
     }
     else sd_cmd_body E code arg
   }"

section \<open>Blocks\<close>

fun get_words :: "'d emmc \<Rightarrow> nat \<Rightarrow> ('d sd, u32 list) state" where
  "get_words E 0 = State_Monad.return []"
| "get_words E (Suc n) = do { w \<leftarrow> reg_get E EMMC_DATA; ws \<leftarrow> get_words E n; State_Monad.return (w # ws) }"

text \<open>
  The loop over the blocks of \<open>sd_readblock\<close>, with \<open>n\<close> blocks to go and \<open>c\<close> done: whether all were
  read, and the words stored in the buffer.
\<close>

fun read_blocks :: "'d emmc \<Rightarrow> u32 \<Rightarrow> nat \<Rightarrow> u32 \<Rightarrow> ('d sd, bool \<times> u32 list) state" where
  "read_blocks E lba 0 c = State_Monad.return (True, [])"
| "read_blocks E lba (Suc n) c = do {
     scr \<leftarrow> var sd_scr0;
     (if scr AND SCR_SUPP_CCS = 0 then do { sd_cmd E CMD_READ_SINGLE ((lba + c) * 512); State_Monad.return () }
     else State_Monad.return ());
     err \<leftarrow> var sd_err;
     if scr AND SCR_SUPP_CCS = 0 \<and> err \<noteq> 0 then State_Monad.return (False, [])
     else do {
       r \<leftarrow> sd_int E INT_READ_RDY;
       if r \<noteq> 0 then do { set_err r; State_Monad.return (False, []) }
       else do {
         ws \<leftarrow> get_words E 128;
         (ok, rest) \<leftarrow> read_blocks E lba n (c + 1);
         State_Monad.return (ok, ws @ rest)
       }
     }
   }"

text \<open>What \<open>sd_readblock\<close> and \<open>sd_writeblock\<close> do before their loop: \<open>False\<close> is an early return of 0.\<close>

definition sd_begin :: "'d emmc \<Rightarrow> u32 \<Rightarrow> u32 \<Rightarrow> u32 \<Rightarrow> u32 \<Rightarrow> u32 \<Rightarrow> ('d sd, bool) state" where
  "sd_begin E msk cmd_single cmd_multi lba num = do {
     busy \<leftarrow> sd_status E msk;
     if busy \<noteq> 0 then do { set_err SD_TIMEOUT; State_Monad.return False }
     else do {
       scr \<leftarrow> var sd_scr0;
       if scr AND SCR_SUPP_CCS \<noteq> 0 then do {
         (if 1 < num \<and> scr AND SCR_SUPP_SET_BLKCNT \<noteq> 0 then sd_cmd E CMD_SET_BLOCKCNT num
         else State_Monad.return 0);
         err \<leftarrow> var sd_err;
         if 1 < num \<and> scr AND SCR_SUPP_SET_BLKCNT \<noteq> 0 \<and> err \<noteq> 0 then State_Monad.return False
         else do {
           reg_put E EMMC_BLKSIZECNT (push_bit 16 num OR 512);
           sd_cmd E (if num = 1 then cmd_single else cmd_multi) lba;
           err \<leftarrow> var sd_err;
           State_Monad.return (err = 0)
         }
       }
       else do { reg_put E EMMC_BLKSIZECNT (push_bit 16 1 OR 512); State_Monad.return True }
     }
   }"

definition sd_finish :: "'d emmc \<Rightarrow> u32 \<Rightarrow> ('d sd, u32) state" where
  "sd_finish E num = do {
     scr \<leftarrow> var sd_scr0;
     (if 1 < num \<and> scr AND SCR_SUPP_SET_BLKCNT = 0 \<and> scr AND SCR_SUPP_CCS \<noteq> 0 then sd_cmd E CMD_STOP_TRANS 0
     else State_Monad.return 0);
     err \<leftarrow> var sd_err;
     State_Monad.return (if err \<noteq> SD_OK then 0 else num * 512)
   }"

definition sd_readblock :: "'d emmc \<Rightarrow> u32 \<Rightarrow> u32 \<Rightarrow> ('d sd, u32 \<times> u32 list) state" where
  "sd_readblock E lba num = (let num = (if num < 1 then 1 else num) in do {
     ok \<leftarrow> sd_begin E SR_DAT_INHIBIT CMD_READ_SINGLE CMD_READ_MULTI lba num;
     if \<not> ok then State_Monad.return (0, [])
     else do {
       (ok, ws) \<leftarrow> read_blocks E lba (unat num) 0;
       if \<not> ok then State_Monad.return (0, ws)
       else do { r \<leftarrow> sd_finish E num; State_Monad.return (r, ws) }
     }
   })"

fun put_words :: "'d emmc \<Rightarrow> u32 list \<Rightarrow> ('d sd, unit) state" where
  "put_words E [] = State_Monad.return ()"
| "put_words E (w # ws) = do { reg_put E EMMC_DATA w; put_words E ws }"

fun write_blocks :: "'d emmc \<Rightarrow> u32 \<Rightarrow> nat \<Rightarrow> u32 \<Rightarrow> u32 list \<Rightarrow> ('d sd, bool) state" where
  "write_blocks E lba 0 c buf = State_Monad.return True"
| "write_blocks E lba (Suc n) c buf = do {
     scr \<leftarrow> var sd_scr0;
     (if scr AND SCR_SUPP_CCS = 0 then do { sd_cmd E CMD_WRITE_SINGLE ((lba + c) * 512); State_Monad.return () }
     else State_Monad.return ());
     err \<leftarrow> var sd_err;
     if scr AND SCR_SUPP_CCS = 0 \<and> err \<noteq> 0 then State_Monad.return False
     else do {
       r \<leftarrow> sd_int E INT_WRITE_RDY;
       if r \<noteq> 0 then do { set_err r; State_Monad.return False }
       else do { put_words E (take 128 buf); write_blocks E lba n (c + 1) (drop 128 buf) }
     }
   }"

definition sd_writeblock :: "'d emmc \<Rightarrow> u32 list \<Rightarrow> u32 \<Rightarrow> u32 \<Rightarrow> ('d sd, u32) state" where
  "sd_writeblock E buf lba num = (let num = (if num < 1 then 1 else num) in do {
     ok \<leftarrow> sd_begin E (SR_DAT_INHIBIT OR SR_WRITE_AVAILABLE) CMD_WRITE_SINGLE CMD_WRITE_MULTI lba num;
     if \<not> ok then State_Monad.return 0
     else do {
       ok \<leftarrow> write_blocks E lba (unat num) 0 buf;
       if \<not> ok then State_Monad.return 0 else sd_finish E num
     }
   })"

section \<open>Clock and initialisation\<close>

definition clk_narrow :: "u32 \<Rightarrow> nat \<Rightarrow> u32 \<times> u32 \<Rightarrow> u32 \<times> u32" where
  "clk_narrow m k p = (let (x, s) = p in if x AND m = 0 then (push_bit k x, s - of_nat k) else (x, s))"

definition clk_shift :: "u32 \<Rightarrow> u32" where
  "clk_shift c =
     (let x = c - 1 in
      if x = 0 then 0
      else
        let (x, s) = clk_narrow 0x80000000 1 (clk_narrow 0xc0000000 2 (clk_narrow 0xf0000000 4
                       (clk_narrow 0xff000000 8 (clk_narrow 0xffff0000 16 (x, 32)))));
            s = (if s > 0 then s - 1 else s)
        in if s > 7 then 7 else s)"

definition clk_div :: "u32 \<Rightarrow> u32 \<Rightarrow> u32" where
  "clk_div hv c =
     (let d = (if hv > HOST_SPEC_V2 then c else push_bit (unat (clk_shift c)) 1);
          d = (if d \<le> 2 then 2 else d);
          h = (if hv > HOST_SPEC_V2 then drop_bit 2 (d AND 0x300) else 0)
      in push_bit 8 (d AND 0x0ff) OR h)"

definition sd_clk :: "'d emmc \<Rightarrow> u32 \<Rightarrow> ('d sd, u32) state" where
  "sd_clk E c = do {
     cnt \<leftarrow> poll_loop E EMMC_STATUS (\<lambda>v. v AND (SR_CMD_INHIBIT OR SR_DAT_INHIBIT) \<noteq> 0) 1 100000;
     if cnt \<le> 0 then State_Monad.return SD_ERROR
     else do {
       v \<leftarrow> reg_get E EMMC_CONTROL1; reg_put E EMMC_CONTROL1 (v AND NOT C1_CLK_EN);
       wait_msec E 10;
       hv \<leftarrow> var sd_hv;
       v \<leftarrow> reg_get E EMMC_CONTROL1; reg_put E EMMC_CONTROL1 (v AND 0xffff003f OR clk_div hv c);
       wait_msec E 10;
       v \<leftarrow> reg_get E EMMC_CONTROL1; reg_put E EMMC_CONTROL1 (v OR C1_CLK_EN);
       wait_msec E 10;
       cnt \<leftarrow> poll_loop E EMMC_CONTROL1 (\<lambda>v. v AND C1_CLK_STABLE = 0) 10 10000;
       State_Monad.return (if cnt \<le> 0 then SD_ERROR else SD_OK)
     }
   }"

definition sd_reset :: "'d emmc \<Rightarrow> ('d sd, u32) state" where
  "sd_reset E = do {
     v \<leftarrow> reg_get E EMMC_SLOTISR_VER;
     s \<leftarrow> State_Monad.get;
     State_Monad.set (s\<lparr>sd_hv := drop_bit 16 (v AND HOST_SPEC_NUM)\<rparr>);
     reg_put E EMMC_CONTROL0 0;
     v \<leftarrow> reg_get E EMMC_CONTROL1; reg_put E EMMC_CONTROL1 (v OR C1_SRST_HC);
     wait_msec E 10;
     cnt \<leftarrow> poll_loop E EMMC_CONTROL1 (\<lambda>v. v AND C1_SRST_HC \<noteq> 0) 10 10000;
     if cnt \<le> 0 then State_Monad.return SD_ERROR
     else do {
       v \<leftarrow> reg_get E EMMC_CONTROL1; reg_put E EMMC_CONTROL1 (v OR (C1_CLK_INTLEN OR C1_TOUNIT_MAX));
       wait_msec E 10;
       sd_clk E (41666666 div 400000)
     }
   }"

text \<open>
  The loop that asks for the operating conditions: the last response and the counter, or an error
  code that ends the initialisation.
\<close>

fun op_cond_loop :: "'d emmc \<Rightarrow> nat \<Rightarrow> u32 \<Rightarrow> ('d sd, u32 + u32 \<times> int) state" where
  "op_cond_loop E cnt r =
     (if r AND ACMD41_CMD_COMPLETE \<noteq> 0 then State_Monad.return (Inr (r, int cnt))
      else if cnt = 0 then State_Monad.return (Inr (r, - 1))
      else do {
        wait_msec E 400;
        r \<leftarrow> sd_cmd E CMD_SEND_OP_COND ACMD41_ARG_HC;
        err \<leftarrow> var sd_err;
        if err \<noteq> SD_TIMEOUT \<and> err \<noteq> SD_OK then State_Monad.return (Inl err)
        else op_cond_loop E (cnt - 1) r
      })"

declare op_cond_loop.simps [simp del]

text \<open>Commands up to the reading of the SCR: an error code, or the flag for block addressing.\<close>

definition sd_identify :: "'d emmc \<Rightarrow> ('d sd, u32 + u32) state" where
  "sd_identify E = do {
     reg_put E EMMC_INT_EN 0xffffffff;
     reg_put E EMMC_INT_MASK 0xffffffff;
     s \<leftarrow> State_Monad.get;
     State_Monad.set (s\<lparr>sd_scr0 := 0, sd_scr1 := 0, sd_rca := 0, sd_err := 0\<rparr>);
     sd_cmd E CMD_GO_IDLE 0;
     err \<leftarrow> var sd_err;
     if err \<noteq> 0 then State_Monad.return (Inl err)
     else do {
     sd_cmd E CMD_SEND_IF_COND 0x000001AA;
     err \<leftarrow> var sd_err;
     if err \<noteq> 0 then State_Monad.return (Inl err)
     else do {
     res \<leftarrow> op_cond_loop E 6 0;
     case res of Inl err \<Rightarrow> State_Monad.return (Inl err)
     | Inr (r, cnt) \<Rightarrow>
     if r AND ACMD41_CMD_COMPLETE = 0 \<or> cnt = 0 then State_Monad.return (Inl SD_TIMEOUT)
     else if r AND ACMD41_VOLTAGE = 0 then State_Monad.return (Inl SD_ERROR)
     else do {
     let ccs = (if r AND ACMD41_CMD_CCS \<noteq> 0 then SCR_SUPP_CCS else 0);
     sd_cmd E CMD_ALL_SEND_CID 0;
     rca \<leftarrow> sd_cmd E CMD_SEND_REL_ADDR 0;
     s \<leftarrow> State_Monad.get;
     State_Monad.set (s\<lparr>sd_rca := rca\<rparr>);
     err \<leftarrow> var sd_err;
     if err \<noteq> 0 then State_Monad.return (Inl err)
     else do {
     r \<leftarrow> sd_clk E (41666666 div 425000000);
     if r \<noteq> 0 then State_Monad.return (Inl r)
     else do {
     sd_cmd E CMD_CARD_SELECT rca;
     err \<leftarrow> var sd_err;
     if err \<noteq> 0 then State_Monad.return (Inl err)
     else do {
     busy \<leftarrow> sd_status E SR_DAT_INHIBIT;
     if busy \<noteq> 0 then State_Monad.return (Inl SD_TIMEOUT)
     else do {
     reg_put E EMMC_BLKSIZECNT (push_bit 16 1 OR 8);
     sd_cmd E CMD_SEND_SCR 0;
     err \<leftarrow> var sd_err;
     if err \<noteq> 0 then State_Monad.return (Inl err)
     else do {
     r \<leftarrow> sd_int E INT_READ_RDY;
     State_Monad.return (if r \<noteq> 0 then Inl SD_TIMEOUT else Inr ccs)
     }}}}}}}}
   }"

text \<open>
  Reading the two words of the SCR. The counter of the source is never decremented, so the loop
  ends only when both words have arrived.
\<close>

partial_function (option) scr_loop :: "'d emmc \<Rightarrow> nat \<Rightarrow> 'd sd \<Rightarrow> 'd sd option" where
  "scr_loop E r s =
     (if 2 \<le> r then Some s
      else
        let (v, s) = run_state (reg_get E EMMC_STATUS) s in
        if v AND SR_READ_AVAILABLE \<noteq> 0 then
          let (w, s) = run_state (reg_get E EMMC_DATA) s in
          scr_loop E (r + 1) (if r = 0 then s\<lparr>sd_scr0 := w\<rparr> else s\<lparr>sd_scr1 := w\<rparr>)
        else scr_loop E r (snd (run_state (wait_msec E 1) s)))"

declare scr_loop.simps [code]

definition sd_bus_width :: "'d emmc \<Rightarrow> u32 \<Rightarrow> ('d sd, u32) state" where
  "sd_bus_width E ccs = do {
     scr \<leftarrow> var sd_scr0;
     rca \<leftarrow> var sd_rca;
     (if scr AND SCR_SD_BUS_WIDTH_4 \<noteq> 0 then do {
        sd_cmd E CMD_SET_BUS_WIDTH (rca OR 2); State_Monad.return () } else State_Monad.return ());
     err \<leftarrow> var sd_err;
     if scr AND SCR_SD_BUS_WIDTH_4 \<noteq> 0 \<and> err \<noteq> 0 then State_Monad.return err
     else do {
       (if scr AND SCR_SD_BUS_WIDTH_4 \<noteq> 0 then do {
          v \<leftarrow> reg_get E EMMC_CONTROL0; reg_put E EMMC_CONTROL0 (v OR C0_HCTL_DWITDH) }
        else State_Monad.return ());
       s \<leftarrow> State_Monad.get;
       State_Monad.set (s\<lparr>sd_scr0 := sd_scr0 s AND NOT SCR_SUPP_CCS OR ccs\<rparr>);
       State_Monad.return SD_OK
     }
   }"

definition sd_init :: "'d emmc \<Rightarrow> 'd sd \<Rightarrow> (u32 \<times> 'd sd) option" where
  "sd_init E s =
     (let (r, s) = run_state (sd_reset E) s in
      if r \<noteq> 0 then Some (r, s)
      else case run_state (sd_identify E) s of
        (Inl err, s) \<Rightarrow> Some (err, s)
      | (Inr ccs, s) \<Rightarrow> Option.bind (scr_loop E 0 s) (\<lambda>s. Some (run_state (sd_bus_width E ccs) s)))"

end
