(* ===== verification/Pi_Sd_Read.thy ===== *)
theory Pi_Sd_Read
  imports Pi_Sd
begin

text \<open>
  Correctness of the SD card driver of Pi_Sd: what the controller's manual promises, as a relation
  between a device and a description of the card; a small calculus for driver programs on such a
  device; reading blocks; the clock divisor; and the initialisation loop that does not count.
\<close>

section \<open>What the hardware promises\<close>

text \<open>
  The part of the controller and card that reading needs, as the manuals describe it: flags of the
  interrupt register, cleared by writing ones; flags that are pending and appear after the register
  has been polled \<open>c_delay\<close> more times; the argument and block count registers; the response; the
  words waiting in the data register; and the blocks of the card, addressed by number as high
  capacity cards do.
\<close>

record card =
  c_int :: u32
  c_pend :: u32
  c_delay :: nat
  c_lat :: nat
  c_arg :: u32
  c_cnt :: u32
  c_resp :: u32
  c_reply :: "u32 \<Rightarrow> u32 \<Rightarrow> u32"
  c_data :: "u32 list"
  c_block :: "u32 \<Rightarrow> u32 list"

definition card_int :: "card \<Rightarrow> u32 \<times> card" where
  "card_int c =
     (if c_delay c = 0 then (c_int c OR c_pend c, c\<lparr>c_int := c_int c OR c_pend c, c_pend := 0\<rparr>)
      else (c_int c, c\<lparr>c_delay := c_delay c - 1\<rparr>))"

definition card_data :: "card \<Rightarrow> card" where
  "card_data c =
     (let ws = tl (c_data c) in
      if ws \<noteq> [] \<and> length ws mod 128 = 0
      then c\<lparr>c_data := ws, c_pend := c_pend c OR INT_READ_RDY, c_delay := c_lat c\<rparr>
      else c\<lparr>c_data := ws\<rparr>)"

definition card_cmd :: "card \<Rightarrow> u32 \<Rightarrow> card" where
  "card_cmd c code =
     (let c' = c\<lparr>c_pend := c_pend c OR INT_CMD_DONE, c_delay := c_lat c,
                c_resp := c_reply c code (c_arg c)\<rparr>;
          n = (if code = CMD_READ_SINGLE then 1
               else if code = CMD_READ_MULTI then unat (drop_bit 16 (c_cnt c)) else 0)
      in if n = 0 then c'
         else c'\<lparr>c_data := concat (map (\<lambda>i. c_block c (c_arg c + of_nat i)) [0..<n]),
                c_pend := c_pend c' OR INT_READ_RDY\<rparr>)"

text \<open>A device conforms when each register access does to the card it stands for what is described.\<close>

definition conforms :: "'d emmc \<Rightarrow> ('d \<Rightarrow> card) \<Rightarrow> bool" where
  "conforms E \<alpha> \<longleftrightarrow>
     (\<forall>d t. \<alpha> (emmc_wait E d t) = \<alpha> d) \<and>
     (\<forall>d. c_data (\<alpha> d) = [] \<longrightarrow> fst (emmc_get E d EMMC_STATUS) AND (SR_CMD_INHIBIT OR SR_DAT_INHIBIT) = 0) \<and>
     (\<forall>d. \<alpha> (snd (emmc_get E d EMMC_STATUS)) = \<alpha> d \<and> \<alpha> (snd (emmc_get E d EMMC_RESP0)) = \<alpha> d \<and>
          fst (emmc_get E d EMMC_RESP0) = c_resp (\<alpha> d)) \<and>
     (\<forall>d. fst (emmc_get E d EMMC_INTERRUPT) = fst (card_int (\<alpha> d)) \<and>
          \<alpha> (snd (emmc_get E d EMMC_INTERRUPT)) = snd (card_int (\<alpha> d))) \<and>
     (\<forall>d. c_data (\<alpha> d) \<noteq> [] \<longrightarrow> fst (emmc_get E d EMMC_DATA) = hd (c_data (\<alpha> d)) \<and>
          \<alpha> (snd (emmc_get E d EMMC_DATA)) = card_data (\<alpha> d)) \<and>
     (\<forall>d v. \<alpha> (emmc_put E d EMMC_INTERRUPT v) = (\<alpha> d)\<lparr>c_int := c_int (\<alpha> d) AND NOT v\<rparr> \<and>
            \<alpha> (emmc_put E d EMMC_ARG1 v) = (\<alpha> d)\<lparr>c_arg := v\<rparr> \<and>
            \<alpha> (emmc_put E d EMMC_BLKSIZECNT v) = (\<alpha> d)\<lparr>c_cnt := v\<rparr> \<and>
            \<alpha> (emmc_put E d EMMC_CMDTM v) = card_cmd (\<alpha> d) v)"

definition card_ok :: "card \<Rightarrow> bool" where
  "card_ok c \<longleftrightarrow> c_lat c < 500000 \<and> (\<forall>lba. length (c_block c lba) = 128)"



text \<open>
  \<open>does \<alpha> s m e c v e' c'\<close>: with the variables of \<open>s\<close>, started with \<open>e\<close> in \<open>sd_err\<close> and a device
  that stands for the card \<open>c\<close>, the driver returns \<open>v\<close> and leaves \<open>e'\<close> and \<open>c'\<close>.
\<close>

definition does :: "('d \<Rightarrow> card) \<Rightarrow> 'd sd \<Rightarrow> ('d sd, 'a) state \<Rightarrow> u32 \<Rightarrow> card \<Rightarrow> 'a \<Rightarrow> u32 \<Rightarrow> card \<Rightarrow> bool" where
  "does \<alpha> s m e c v e' c' \<longleftrightarrow>
     (\<forall>d. \<alpha> d = c \<longrightarrow> (\<exists>d'. run_state m (s\<lparr>sd_err := e, sd_emmc := d\<rparr>) = (v, s\<lparr>sd_err := e', sd_emmc := d'\<rparr>) \<and> \<alpha> d' = c'))"

lemma does_bind:
  "does \<alpha> s m e c v e1 c1 \<Longrightarrow> does \<alpha> s (f v) e1 c1 w e2 c2 \<Longrightarrow> does \<alpha> s (State_Monad.bind m f) e c w e2 c2"
  unfolding does_def by fastforce

lemma does_return: "does \<alpha> s (State_Monad.return v) e c v e c"
  by (auto simp: does_def)

lemma sd_commute: "(s :: 'd sd)\<lparr>sd_emmc := d, sd_err := x\<rparr> = s\<lparr>sd_err := x, sd_emmc := d\<rparr>"
  by simp

lemma does_if: "b \<Longrightarrow> does \<alpha> s m e c v e' c' \<Longrightarrow> does \<alpha> s (if b then m else m') e c v e' c'"
  "\<not> b \<Longrightarrow> does \<alpha> s m' e c v e' c' \<Longrightarrow> does \<alpha> s (if b then m else m') e c v e' c'"
  by simp_all

lemma does_set_err: "does \<alpha> s (set_err x) e c () x c"
  by (auto simp: does_def set_err_def sd_commute)

lemma does_var: "does \<alpha> s (var sd_err) e c e e c" "does \<alpha> s (var sd_scr0) e c (sd_scr0 s) e c"
  by (auto simp: does_def var_def)

lemma does_wait: "conforms E \<alpha> \<Longrightarrow> does \<alpha> s (wait_msec E t) e c () e c"
  by (auto simp: does_def wait_msec_def conforms_def)

lemma does_get:
  assumes "\<And>d. \<alpha> d = c \<Longrightarrow> fst (emmc_get E d a) = v \<and> \<alpha> (snd (emmc_get E d a)) = c'"
  shows "does \<alpha> s (reg_get E a) e c v e c'"
  using assms by (auto simp: does_def reg_get_def split_beta)

lemma does_int: "conforms E \<alpha> \<Longrightarrow> does \<alpha> s (reg_get E EMMC_INTERRUPT) e c (fst (card_int c)) e (snd (card_int c))"
  by (rule does_get) (auto simp: conforms_def)

lemma does_data:
  "conforms E \<alpha> \<Longrightarrow> c_data c \<noteq> [] \<Longrightarrow> does \<alpha> s (reg_get E EMMC_DATA) e c (hd (c_data c)) e (card_data c)"
  by (rule does_get) (auto simp: conforms_def)

lemma does_resp: "conforms E \<alpha> \<Longrightarrow> does \<alpha> s (reg_get E EMMC_RESP0) e c (c_resp c) e c"
  by (rule does_get) (auto simp: conforms_def)

lemma does_put:
  assumes "conforms E \<alpha>"
  shows "does \<alpha> s (reg_put E EMMC_INTERRUPT v) e c () e (c\<lparr>c_int := c_int c AND NOT v\<rparr>)"
    "does \<alpha> s (reg_put E EMMC_ARG1 v) e c () e (c\<lparr>c_arg := v\<rparr>)"
    "does \<alpha> s (reg_put E EMMC_BLKSIZECNT v) e c () e (c\<lparr>c_cnt := v\<rparr>)"
    "does \<alpha> s (reg_put E EMMC_CMDTM v) e c () e (card_cmd c v)"
  using assms by (auto simp: does_def reg_put_def conforms_def)

section \<open>Waiting\<close>

definition idle :: "card \<Rightarrow> bool" where
  "idle c \<longleftrightarrow> c_data c = [] \<and> c_pend c = 0 \<and> c_delay c = 0 \<and> c_int c AND INT_ERROR_MASK = 0"

lemma card_int_idle [simp]: "idle c \<Longrightarrow> card_int c = (c_int c, c)"
  by (simp add: card_int_def idle_def)

lemma status_loop_idle:
  assumes E: "conforms E \<alpha>" and c: "idle c" and m: "msk = SR_CMD_INHIBIT \<or> msk = SR_DAT_INHIBIT"
  shows "does \<alpha> s (status_loop E msk n) e c (int n) e c"
proof -
  have st: "fst (emmc_get E d EMMC_STATUS) AND msk = 0" "\<alpha> (snd (emmc_get E d EMMC_STATUS)) = c" if d: "\<alpha> d = c" for d
  proof -
    have "fst (emmc_get E d EMMC_STATUS) AND (SR_CMD_INHIBIT OR SR_DAT_INHIBIT) = 0"
      using E c d by (auto simp: conforms_def idle_def)
    then show "fst (emmc_get E d EMMC_STATUS) AND msk = 0" using m by (auto simp: bit_eq_iff bit_simps)
    show "\<alpha> (snd (emmc_get E d EMMC_STATUS)) = c" using E d by (auto simp: conforms_def)
  qed
  then show ?thesis by (subst status_loop.simps) (auto simp: does_def reg_get_def split_beta)
qed

lemma sd_status_idle:
  assumes E: "conforms E \<alpha>" and c: "idle c" and m: "msk = SR_CMD_INHIBIT \<or> msk = SR_DAT_INHIBIT"
  shows "does \<alpha> s (sd_status E msk) e c SD_OK e c"
proof -
  have "does \<alpha> s (reg_get E EMMC_INTERRUPT \<bind> (\<lambda>i. State_Monad.return (if i AND INT_ERROR_MASK \<noteq> 0 then SD_ERROR else SD_OK))) e c SD_OK e c"
    using c by (intro does_bind [OF does_int [OF E]]) (simp add: does_return idle_def)
  then show ?thesis unfolding sd_status_def by (intro does_bind [OF status_loop_idle [OF E c m]]) simp
qed

text \<open>The card after its pending flags have been raised.\<close>

definition raised :: "card \<Rightarrow> card" where
  "raised c = c\<lparr>c_int := c_int c OR c_pend c, c_pend := 0, c_delay := 0\<rparr>"

lemma card_int_raise: "c_delay c = 0 \<Longrightarrow> card_int c = (c_int c OR c_pend c, raised c)"
  by (cases c) (simp add: card_int_def raised_def)

lemma and_sub_zero: "i AND a = 0 \<Longrightarrow> a AND b = b \<Longrightarrow> i AND b = 0" for i :: u32
  by (metis and.assoc and_zero_eq(1) zero_and_eq)

lemma poll_int:
  assumes E: "conforms E \<alpha>" and m: "(c_int c OR c_pend c) AND m \<noteq> 0"
  shows "c_delay c = k \<Longrightarrow> k \<le> n \<Longrightarrow> (k > 0 \<longrightarrow> c_int c AND m = 0) \<Longrightarrow>
    does \<alpha> s (poll_loop E EMMC_INTERRUPT (\<lambda>i. i AND m = 0) 1 n) e c (int (n - k)) e (raised c)"
  using m
proof (induction k arbitrary: c n)
  case 0
  then show ?case
    by (subst poll_loop.simps) (rule does_bind [OF does_int [OF E]],
      use 0 in \<open>simp add: card_int_raise does_return\<close>)
next
  case (Suc k)
  let ?c = "c\<lparr>c_delay := k\<rparr>"
  have "does \<alpha> s (poll_loop E EMMC_INTERRUPT (\<lambda>i. i AND m = 0) 1 (n - 1)) e ?c (int (n - 1 - k)) e (raised ?c)"
    using Suc.prems by (intro Suc.IH) auto
  then have "does \<alpha> s (wait_msec E 1 \<bind> (\<lambda>_. poll_loop E EMMC_INTERRUPT (\<lambda>i. i AND m = 0) 1 (n - 1))) e ?c (int (n - Suc k)) e (raised c)"
    by (intro does_bind [OF does_wait [OF E]]) (simp add: raised_def)
  then show ?case
    using Suc.prems by (subst poll_loop.simps, intro does_bind [OF does_int [OF E]]) (simp add: card_int_def)
qed

lemma sd_int_ok:
  assumes E: "conforms E \<alpha>" and d: "c_delay c < 1000000" and z: "c_delay c > 0 \<longrightarrow> c_int c = 0"
    and m: "(c_int c OR c_pend c) AND msk \<noteq> 0" and err: "(c_int c OR c_pend c) AND (INT_ERROR_MASK OR INT_CMD_TIMEOUT) = 0"
  shows "does \<alpha> s (sd_int E msk) e c 0 e ((raised c)\<lparr>c_int := (c_int c OR c_pend c) AND NOT msk\<rparr>)"
proof -
  let ?i = "c_int c OR c_pend c"
  have "?i AND (msk OR INT_ERROR_MASK) \<noteq> 0" using m by (auto simp: bit_eq_iff bit_simps)
  then have p: "does \<alpha> s (poll_loop E EMMC_INTERRUPT (\<lambda>i. i AND (msk OR INT_ERROR_MASK) = 0) 1 1000000) e c
      (int (1000000 - c_delay c)) e (raised c)"
    using d z by (intro poll_int [OF E]) auto
  have e: "?i AND INT_ERROR_MASK = 0" "?i AND INT_CMD_TIMEOUT = 0" "?i AND INT_DATA_TIMEOUT = 0"
    by (rule and_sub_zero [OF err], simp add: INT_ERROR_MASK_def INT_CMD_TIMEOUT_def INT_DATA_TIMEOUT_def)+
  have i: "card_int (raised c) = (?i, raised c)" by (simp add: card_int_def raised_def)
  have "does \<alpha> s (reg_put E EMMC_INTERRUPT msk \<bind> (\<lambda>_. State_Monad.return 0)) e (raised c) (0 :: u32) e
      ((raised c)\<lparr>c_int := ?i AND NOT msk\<rparr>)"
    using does_bind [OF does_put(1) [OF E, of s msk e "raised c"] does_return, of "\<lambda>_. 0"]
    by (simp add: raised_def)
  then show ?thesis
    unfolding sd_int_def using d by (intro does_bind [OF p] does_bind [OF does_int [OF E]]) (simp add: i e)
qed

section \<open>Commands\<close>

text \<open>The card after a command and the interrupt that ends it.\<close>

definition commanded :: "card \<Rightarrow> u32 \<Rightarrow> u32 \<Rightarrow> card" where
  "commanded c code arg =
     (let c' = card_cmd (c\<lparr>c_int := 0, c_arg := arg\<rparr>) code
      in (raised c')\<lparr>c_int := c_pend c' AND NOT INT_CMD_DONE\<rparr>)"

definition plain_cmd :: "u32 \<Rightarrow> bool" where
  "plain_cmd code \<longleftrightarrow> code \<in> {CMD_READ_SINGLE, CMD_READ_MULTI, CMD_SET_BLOCKCNT, CMD_STOP_TRANS}"

lemmas cmd_defs = CMD_READ_SINGLE_def CMD_READ_MULTI_def CMD_SET_BLOCKCNT_def CMD_STOP_TRANS_def CMD_APP_CMD_def
  CMD_RSPNS_48_def CMD_NEED_APP_def CMD_GO_IDLE_def CMD_SEND_OP_COND_def CMD_SEND_IF_COND_def CMD_ALL_SEND_CID_def
  CMD_SEND_REL_ADDR_def

lemma plain_cmd_simps:
  assumes "plain_cmd code"
  shows "code \<noteq> CMD_SEND_OP_COND" "code \<noteq> CMD_SEND_IF_COND" "code \<noteq> CMD_APP_CMD" "code \<noteq> CMD_GO_IDLE"
    "code \<noteq> CMD_APP_CMD OR CMD_RSPNS_48" "code \<noteq> CMD_ALL_SEND_CID" "code \<noteq> CMD_SEND_REL_ADDR" "code AND CMD_NEED_APP = 0"
  using assms by (auto simp: plain_cmd_def cmd_defs)

lemma card_cmd_flags:
  "c_pend c = 0 \<Longrightarrow> c_pend (card_cmd c code) = INT_CMD_DONE \<or> c_pend (card_cmd c code) = INT_CMD_DONE OR INT_READ_RDY"
  by (auto simp: card_cmd_def Let_def)

lemma sd_cmd_body_plain:
  "plain_cmd code \<Longrightarrow> sd_cmd_body E code arg =
     sd_status E SR_CMD_INHIBIT \<bind> (\<lambda>busy. if busy \<noteq> 0 then set_err SD_TIMEOUT \<bind> (\<lambda>_. State_Monad.return 0)
     else reg_get E EMMC_INTERRUPT \<bind> (\<lambda>i. reg_put E EMMC_INTERRUPT i \<bind> (\<lambda>_. reg_put E EMMC_ARG1 arg \<bind> (\<lambda>_.
       reg_put E EMMC_CMDTM code \<bind> (\<lambda>_. sd_int E INT_CMD_DONE \<bind> (\<lambda>r.
       if r \<noteq> 0 then set_err r \<bind> (\<lambda>_. State_Monad.return 0)
       else reg_get E EMMC_RESP0 \<bind> (\<lambda>r. State_Monad.return (r AND CMD_ERRORS_MASK))))))))"
  by (simp add: sd_cmd_body_def plain_cmd_simps cong: if_cong)

lemma sd_cmd_body_ok:
  assumes E: "conforms E \<alpha>" and c: "idle c" "c_lat c < 500000" and code: "plain_cmd code"
  shows "\<exists>r. does \<alpha> s (sd_cmd_body E code arg) e c r e (commanded c code arg)"
proof -
  let ?c = "card_cmd (c\<lparr>c_int := 0, c_arg := arg\<rparr>) code"
  have i0: "c_int ?c = 0" "c_delay ?c = c_lat c" by (simp_all add: card_cmd_def Let_def)
  have fl: "c_pend ?c = INT_CMD_DONE \<or> c_pend ?c = INT_CMD_DONE OR INT_READ_RDY"
    using c(1) by (intro card_cmd_flags) (simp add: idle_def)
  then have "does \<alpha> s (sd_int E INT_CMD_DONE) e ?c 0 e ((raised ?c)\<lparr>c_int := (c_int ?c OR c_pend ?c) AND NOT INT_CMD_DONE\<rparr>)"
    using c(2) i0
    by (intro sd_int_ok [OF E]) (auto simp: INT_CMD_DONE_def INT_READ_RDY_def INT_ERROR_MASK_def INT_CMD_TIMEOUT_def)
  then have int: "does \<alpha> s (sd_int E INT_CMD_DONE) e ?c 0 e (commanded c code arg)"
    by (simp add: commanded_def Let_def i0)
  have "does \<alpha> s (reg_get E EMMC_RESP0 \<bind> (\<lambda>r. State_Monad.return (r AND CMD_ERRORS_MASK))) e (commanded c code arg)
      (c_resp (commanded c code arg) AND CMD_ERRORS_MASK) e (commanded c code arg)" (is "does _ _ ?R _ _ ?r _ _")
    by (rule does_bind [OF does_resp [OF E]]) (rule does_return)
  then have "does \<alpha> s (sd_int E INT_CMD_DONE \<bind> (\<lambda>r. if r \<noteq> 0 then set_err r \<bind> (\<lambda>_. State_Monad.return 0) else ?R))
      e ?c ?r e (commanded c code arg)" (is "does _ _ ?I _ _ _ _ _")
    by (intro does_bind [OF int]) simp
  then have "does \<alpha> s (reg_put E EMMC_CMDTM code \<bind> (\<lambda>_. ?I)) e (c\<lparr>c_int := 0, c_arg := arg\<rparr>) ?r e (commanded c code arg)"
    (is "does _ _ ?C _ _ _ _ _") by (rule does_bind [OF does_put(4) [OF E]])
  moreover have "c_int c AND NOT (c_int c) = 0" by simp
  ultimately have "does \<alpha> s (reg_put E EMMC_INTERRUPT (c_int c) \<bind> (\<lambda>_. reg_put E EMMC_ARG1 arg \<bind> (\<lambda>_. ?C))) e c ?r e (commanded c code arg)"
    by (intro does_bind [OF does_put(1) [OF E]] does_bind [OF does_put(2) [OF E]]) simp
  then have "does \<alpha> s (sd_cmd_body E code arg) e c ?r e (commanded c code arg)"
    unfolding sd_cmd_body_plain [OF code]
    by (intro does_bind [OF sd_status_idle [OF E c(1)]])
      (use does_bind [OF does_int [OF E, of s e c]] in \<open>simp_all add: SD_OK_def card_int_idle [OF c(1)]\<close>)
  then show ?thesis by blast
qed

lemma sd_cmd_ok:
  assumes "conforms E \<alpha>" "idle c" "c_lat c < 500000" "plain_cmd code"
  shows "\<exists>r. does \<alpha> s (sd_cmd E code arg) e c r SD_OK (commanded c code arg)"
proof -
  obtain r where "does \<alpha> s (sd_cmd_body E code arg) SD_OK c r SD_OK (commanded c code arg)"
    using sd_cmd_body_ok [OF assms] by blast
  then have "does \<alpha> s (sd_cmd E code arg) e c r SD_OK (commanded c code arg)"
    unfolding sd_cmd_def by (intro does_bind [OF does_set_err]) (simp add: plain_cmd_simps [OF assms(4)])
  then show ?thesis by blast
qed

text \<open>The data that a read command leaves in the controller.\<close>

lemma commanded_read:
  assumes "idle c" "code = CMD_READ_SINGLE \<and> n = 1 \<or> code = CMD_READ_MULTI \<and> n = unat (drop_bit 16 (c_cnt c))" "0 < n"
  shows "commanded c code arg = c\<lparr>c_int := INT_READ_RDY, c_arg := arg, c_resp := c_reply c code arg,
     c_data := concat (map (\<lambda>i. c_block c (arg + of_nat i)) [0..<n])\<rparr>"
  using assms by (cases c) (auto simp: commanded_def card_cmd_def raised_def idle_def Let_def cmd_defs INT_CMD_DONE_def INT_READ_RDY_def)

lemma commanded_other:
  assumes "idle c" "code = CMD_SET_BLOCKCNT \<or> code = CMD_STOP_TRANS"
  shows "commanded c code arg = c\<lparr>c_int := 0, c_arg := arg, c_resp := c_reply c code arg\<rparr>"
  using assms by (cases c) (auto simp: commanded_def card_cmd_def raised_def idle_def Let_def cmd_defs)

section \<open>Blocks\<close>

lemma get_words_ok:
  assumes E: "conforms E \<alpha>"
  shows "length (c_data c) = 128 * m + n \<Longrightarrow> n \<le> 128 \<Longrightarrow> 0 < n \<Longrightarrow>
    does \<alpha> s (get_words E n) e c (take n (c_data c)) e
      (if m = 0 then c\<lparr>c_data := []\<rparr>
       else c\<lparr>c_data := drop n (c_data c), c_pend := c_pend c OR INT_READ_RDY, c_delay := c_lat c\<rparr>)"
proof (induction n arbitrary: c)
  case (Suc n)
  then obtain w ws where ws: "c_data c = w # ws" by (cases "c_data c") auto
  have d: "does \<alpha> s (reg_get E EMMC_DATA) e c w e (card_data c)"
    using does_data [OF E, of c] ws by simp
  show ?case
  proof (cases n)
    case 0
    then have "card_data c = (if m = 0 then c\<lparr>c_data := []\<rparr>
       else c\<lparr>c_data := ws, c_pend := c_pend c OR INT_READ_RDY, c_delay := c_lat c\<rparr>)"
      using Suc.prems ws by (auto simp: card_data_def Let_def)
    then show ?thesis
      using 0 ws by (simp del: if_split) (auto intro!: does_bind [OF d] simp: does_return)
  next
    case n: (Suc n')
    then have c': "card_data c = c\<lparr>c_data := ws\<rparr>"
      using Suc.prems ws by (auto simp: card_data_def Let_def)
    have "does \<alpha> s (get_words E n) e (card_data c) (take n ws) e (if m = 0 then c\<lparr>c_data := []\<rparr>
       else c\<lparr>c_data := drop n ws, c_pend := c_pend c OR INT_READ_RDY, c_delay := c_lat c\<rparr>)"
      using Suc.IH [of "card_data c"] Suc.prems ws n by (cases "m = 0") (simp_all add: c' del: get_words.simps)
    then show ?thesis
      using ws by (auto intro!: does_bind [OF d] does_bind [where m = "get_words E n"] does_return simp: does_return)
  qed
qed simp

text \<open>A read in progress: the blocks still to come, the next one announced now or after the delay.\<close>

definition reading :: "card \<Rightarrow> u32 list list \<Rightarrow> bool" where
  "reading c bs \<longleftrightarrow> c_data c = concat bs \<and> (\<forall>b \<in> set bs. length b = 128) \<and> c_lat c < 500000 \<and> c_delay c \<le> c_lat c \<and>
     (c_delay c > 0 \<longrightarrow> c_int c = 0) \<and> c_int c OR c_pend c = (if bs = [] then 0 else INT_READ_RDY) \<and>
     (bs = [] \<longrightarrow> c_delay c = 0)"

lemma length_concat_const: "\<forall>b \<in> set bs. length b = n \<Longrightarrow> length (concat bs) = n * length bs"
  by (induction bs) auto

lemma read_blocks_ok:
  assumes E: "conforms E \<alpha>" and ccs: "sd_scr0 s AND SCR_SUPP_CCS \<noteq> 0"
  shows "reading c bs \<Longrightarrow>
    \<exists>c'. does \<alpha> s (read_blocks E lba (length bs) k) e c (True, concat bs) e c' \<and> reading c' [] \<and>
      c_block c' = c_block c \<and> c_lat c' = c_lat c"
proof (induction bs arbitrary: c k)
  case Nil
  then show ?case by (auto intro!: exI [of _ c] does_return)
next
  case (Cons b bs)
  let ?c = "(raised c)\<lparr>c_int := (c_int c OR c_pend c) AND NOT INT_READ_RDY\<rparr>"
  have int: "does \<alpha> s (sd_int E INT_READ_RDY) e c 0 e ?c"
    using Cons.prems by (intro sd_int_ok [OF E])
      (auto simp: reading_def INT_READ_RDY_def INT_ERROR_MASK_def INT_CMD_TIMEOUT_def)
  have zero: "c_int ?c = 0" using Cons.prems by (simp add: reading_def)
  have dat: "c_data ?c = b @ concat bs" "length b = 128" "\<forall>b \<in> set bs. length b = 128"
    using Cons.prems by (simp_all add: reading_def raised_def)
  have len: "length (c_data ?c) = 128 * length bs + 128"
    using dat length_concat_const [of bs 128] by simp
  let ?c' = "if length bs = 0 then ?c\<lparr>c_data := []\<rparr>
       else ?c\<lparr>c_data := drop 128 (c_data ?c), c_pend := c_pend ?c OR INT_READ_RDY, c_delay := c_lat ?c\<rparr>"
  have get: "does \<alpha> s (get_words E 128) e ?c (take 128 (c_data ?c)) e ?c'"
    using get_words_ok [OF E len] by simp
  have "reading ?c' bs" using Cons.prems zero dat by (auto simp: reading_def raised_def)
  from Cons.IH [OF this] obtain c'' where c'': "does \<alpha> s (read_blocks E lba (length bs) (k + 1)) e ?c' (True, concat bs) e c''"
    "reading c'' []" "c_block c'' = c_block ?c'" "c_lat c'' = c_lat ?c'" by blast
  have frame: "c_block ?c' = c_block c" "c_lat ?c' = c_lat c" by (simp_all add: raised_def)
  have tk: "take 128 (c_data ?c) = b" using dat by simp
  have "does \<alpha> s (read_blocks E lba (length bs) (k + 1) \<bind> (\<lambda>(ok, rest). State_Monad.return (ok, b @ rest)))
      e ?c' (True, concat (b # bs)) e c''"
    by (rule does_bind [OF c''(1)]) (simp add: does_return)
  then have "does \<alpha> s (get_words E 128 \<bind> (\<lambda>ws. read_blocks E lba (length bs) (k + 1) \<bind>
      (\<lambda>(ok, rest). State_Monad.return (ok, ws @ rest)))) e ?c (True, concat (b # bs)) e c''"
    by (rule does_bind [OF get [unfolded tk]])
  then have "does \<alpha> s (sd_int E INT_READ_RDY \<bind> (\<lambda>r. if r \<noteq> 0 then set_err r \<bind> (\<lambda>_. State_Monad.return (False, []))
      else get_words E 128 \<bind> (\<lambda>ws. read_blocks E lba (length bs) (k + 1) \<bind>
      (\<lambda>(ok, rest). State_Monad.return (ok, ws @ rest))))) e c (True, concat (b # bs)) e c''"
    by (intro does_bind [OF int]) simp
  then have "does \<alpha> s (read_blocks E lba (length (b # bs)) k) e c (True, concat (b # bs)) e c''"
    unfolding list.size read_blocks.simps add_Suc_right add_0_right
    by (intro does_bind [OF does_var(2)]) (use ccs does_bind [OF does_var(1)] in simp)
  then show ?case using c'' frame by metis
qed

lemma reading_idle: "reading c [] \<Longrightarrow> idle c"
  by (auto simp: reading_def idle_def bit_eq_iff bit_simps)

lemma sd_finish_ok:
  assumes E: "conforms E \<alpha>" and c: "idle c" "c_lat c < 500000"
  shows "\<exists>c'. does \<alpha> s (sd_finish E num) SD_OK c (num * 512) SD_OK c' \<and> idle c' \<and> c_block c' = c_block c \<and> c_lat c' = c_lat c"
proof (cases "1 < num \<and> sd_scr0 s AND SCR_SUPP_SET_BLKCNT = 0 \<and> sd_scr0 s AND SCR_SUPP_CCS \<noteq> 0")
  case True
  obtain r where r: "does \<alpha> s (sd_cmd E CMD_STOP_TRANS 0) SD_OK c r SD_OK (commanded c CMD_STOP_TRANS 0)"
    using sd_cmd_ok [OF E c, of CMD_STOP_TRANS s 0 SD_OK] unfolding plain_cmd_def by blast
  note c' = commanded_other [OF c(1), of CMD_STOP_TRANS 0, simplified]
  have "does \<alpha> s (sd_finish E num) SD_OK c (num * 512) SD_OK (commanded c CMD_STOP_TRANS 0)"
    unfolding sd_finish_def using True r
    by (intro does_bind [OF does_var(2)]) (auto intro!: does_bind [OF r] does_bind [OF does_var(1)] simp: does_return)
  moreover have "idle (commanded c CMD_STOP_TRANS 0)" using c(1) by (simp add: c' idle_def)
  ultimately show ?thesis by (auto simp: c')
next
  case False
  have "does \<alpha> s (sd_finish E num) SD_OK c (num * 512) SD_OK c"
    unfolding sd_finish_def using False
    by (intro does_bind [OF does_var(2)]) (auto intro!: does_bind [OF does_return] does_bind [OF does_var(1)] simp: does_return)
  then show ?thesis using c(1) by blast
qed

lemma blksize_count: "unat num < 65536 \<Longrightarrow> unat (drop_bit 16 (push_bit 16 num OR 512)) = unat num" for num :: u32
proof -
  assume "unat num < 65536"
  then have "unat (take_bit 16 num) = unat num" by (simp add: unsigned_take_bit_eq take_bit_nat_eq_self)
  moreover have "drop_bit 16 (push_bit 16 num OR 512) = take_bit 16 num"
    by (rule bit_word_eqI) (auto simp: bit_simps bit_numeral_rec)
  ultimately show ?thesis by simp
qed

definition blocks_from :: "card \<Rightarrow> u32 \<Rightarrow> nat \<Rightarrow> u32 list list" where
  "blocks_from c lba n = map (\<lambda>i. c_block c (lba + of_nat i)) [0..<n]"

lemma sd_begin_ok:
  assumes E: "conforms E \<alpha>" and c: "idle c" "card_ok c" and ccs: "sd_scr0 s AND SCR_SUPP_CCS \<noteq> 0"
    and num: "0 < unat num" "unat num < 65536"
  shows "\<exists>c'. does \<alpha> s (sd_begin E SR_DAT_INHIBIT CMD_READ_SINGLE CMD_READ_MULTI lba num) e c True SD_OK c' \<and>
    reading c' (blocks_from c lba (unat num)) \<and> c_block c' = c_block c \<and> c_lat c' = c_lat c"
proof -
  let ?cmd = "if num = 1 then CMD_READ_SINGLE else CMD_READ_MULTI" and ?cnt = "push_bit 16 num OR 512 :: u32"
  have lat: "c_lat c < 500000" using c(2) by (simp add: card_ok_def)
  define c1 where "c1 = (if 1 < num \<and> sd_scr0 s AND SCR_SUPP_SET_BLKCNT \<noteq> 0 then commanded c CMD_SET_BLOCKCNT num else c)"
  define e1 where "e1 = (if 1 < num \<and> sd_scr0 s AND SCR_SUPP_SET_BLKCNT \<noteq> 0 then SD_OK else e)"
  have c1: "idle c1" "c_block c1 = c_block c" "c_lat c1 = c_lat c"
    using c(1) commanded_other [OF c(1), of CMD_SET_BLOCKCNT num] by (auto simp: c1_def idle_def)
  obtain r1 where r1: "does \<alpha> s (if 1 < num \<and> sd_scr0 s AND SCR_SUPP_SET_BLKCNT \<noteq> 0 then sd_cmd E CMD_SET_BLOCKCNT num
      else State_Monad.return 0) e c r1 e1 c1"
  proof (cases "1 < num \<and> sd_scr0 s AND SCR_SUPP_SET_BLKCNT \<noteq> 0")
    case True
    then show ?thesis using sd_cmd_ok [OF E c(1) lat, of CMD_SET_BLOCKCNT s num e] that
      unfolding plain_cmd_def c1_def e1_def by (simp only: if_True simp_thms if_P) blast
  next
    case False
    then show ?thesis using that does_return [of \<alpha> s 0 e c] unfolding c1_def e1_def by (simp only: if_False if_not_P)
  qed
  let ?c2 = "c1\<lparr>c_cnt := ?cnt\<rparr>"
  have c2: "idle ?c2" "c_lat ?c2 < 500000" using c1 lat by (simp_all add: idle_def)
  obtain r2 where r2: "does \<alpha> s (sd_cmd E ?cmd lba) e1 ?c2 r2 SD_OK (commanded ?c2 ?cmd lba)"
  proof -
    have "plain_cmd ?cmd" by (simp add: plain_cmd_def)
    then show ?thesis using sd_cmd_ok [OF E c2, of ?cmd s lba e1] that by blast
  qed
  have "commanded ?c2 ?cmd lba = ?c2\<lparr>c_int := INT_READ_RDY, c_arg := lba, c_resp := c_reply ?c2 ?cmd lba,
     c_data := concat (map (\<lambda>i. c_block ?c2 (lba + of_nat i)) [0..<unat num])\<rparr>"
    by (rule commanded_read [OF c2(1)]) (use blksize_count [OF num(2)] num(1) in simp_all)
  then have rd: "reading (commanded ?c2 ?cmd lba) (blocks_from c lba (unat num))"
    "c_block (commanded ?c2 ?cmd lba) = c_block c" "c_lat (commanded ?c2 ?cmd lba) = c_lat c"
    using c1 c(2) num(1) by (auto simp: reading_def blocks_from_def card_ok_def idle_def)
  have "does \<alpha> s (sd_begin E SR_DAT_INHIBIT CMD_READ_SINGLE CMD_READ_MULTI lba num) e c True SD_OK (commanded ?c2 ?cmd lba)"
    unfolding sd_begin_def
  proof (rule does_bind [OF sd_status_idle [OF E c(1)]], simp, rule does_if(2), simp add: SD_OK_def, rule does_bind [OF does_var(2)],
      rule does_if(1) [OF ccs], rule does_bind [OF r1], rule does_bind [OF does_var(1)], rule does_if(2))
    show "\<not> (1 < num \<and> sd_scr0 s AND SCR_SUPP_SET_BLKCNT \<noteq> 0 \<and> e1 \<noteq> 0)" by (simp add: e1_def SD_OK_def)
    have "does \<alpha> s (var sd_err \<bind> (\<lambda>err. State_Monad.return (err = 0))) SD_OK c' True SD_OK c'" for c'
      by (rule does_bind [OF does_var(1)]) (simp add: SD_OK_def does_return)
    then show "does \<alpha> s (reg_put E EMMC_BLKSIZECNT ?cnt \<bind> (\<lambda>_. sd_cmd E ?cmd lba \<bind> (\<lambda>_. var sd_err \<bind>
        (\<lambda>err. State_Monad.return (err = 0))))) e1 c1 True SD_OK (commanded ?c2 ?cmd lba)"
      by (intro does_bind [OF does_put(3) [OF E]] does_bind [OF r2])
  qed
  then show ?thesis using rd by blast
qed

lemma sd_readblock_ok:
  assumes E: "conforms E \<alpha>" and c: "idle c" "card_ok c" and ccs: "sd_scr0 s AND SCR_SUPP_CCS \<noteq> 0"
    and num: "0 < unat num" "unat num < 65536"
  shows "\<exists>c'. does \<alpha> s (sd_readblock E lba num) e c (num * 512, concat (blocks_from c lba (unat num))) SD_OK c' \<and>
    idle c' \<and> c_block c' = c_block c \<and> c_lat c' = c_lat c"
proof -
  obtain c1 where c1: "does \<alpha> s (sd_begin E SR_DAT_INHIBIT CMD_READ_SINGLE CMD_READ_MULTI lba num) e c True SD_OK c1"
    "reading c1 (blocks_from c lba (unat num))" "c_block c1 = c_block c" "c_lat c1 = c_lat c"
    using sd_begin_ok [OF assms] by blast
  have "length (blocks_from c lba (unat num)) = unat num" by (simp add: blocks_from_def)
  then obtain c2 where c2: "does \<alpha> s (read_blocks E lba (unat num) 0) SD_OK c1 (True, concat (blocks_from c lba (unat num))) SD_OK c2"
    "reading c2 []" "c_block c2 = c_block c" "c_lat c2 = c_lat c"
    using read_blocks_ok [OF E ccs c1(2), of lba 0 SD_OK] c1(3,4) by auto
  have "c_lat c2 < 500000" using c2(4) c(2) by (simp add: card_ok_def)
  then obtain c3 where c3: "does \<alpha> s (sd_finish E num) SD_OK c2 (num * 512) SD_OK c3"
    "idle c3" "c_block c3 = c_block c" "c_lat c3 = c_lat c"
    using sd_finish_ok [OF E reading_idle [OF c2(2)]] c2(3,4) by metis
  have "does \<alpha> s (sd_readblock E lba num) e c (num * 512, concat (blocks_from c lba (unat num))) SD_OK c3"
    using num unfolding sd_readblock_def Let_def
    by (auto simp: word_less_nat_alt intro!: does_bind [OF c1(1)] does_bind [OF c2(1)] does_bind [OF c3(1)] does_return)
  then show ?thesis using c3 by blast
qed

text \<open>
  C13: on a controller that conforms to its manual, with a high capacity card that answers within
  half a million polls, \<open>sd_readblock\<close> of 1 to 65535 blocks returns the number of bytes read, fills
  the buffer with exactly the blocks asked for, in order, and leaves the controller idle and the
  card unchanged; no polling loop times out, whether or not the card supports a block count.
\<close>

theorem sd_readblock_delivers:
  assumes "conforms E \<alpha>" "idle (\<alpha> (sd_emmc s))" "card_ok (\<alpha> (sd_emmc s))"
    and "sd_scr0 s AND SCR_SUPP_CCS \<noteq> 0" "0 < unat num" "unat num < 65536"
  shows "\<exists>s'. run_state (sd_readblock E lba num) s = ((num * 512, concat (blocks_from (\<alpha> (sd_emmc s)) lba (unat num))), s') \<and>
    sd_err s' = SD_OK \<and> idle (\<alpha> (sd_emmc s')) \<and> c_block (\<alpha> (sd_emmc s')) = c_block (\<alpha> (sd_emmc s))"
proof -
  obtain c' where c': "does \<alpha> s (sd_readblock E lba num) (sd_err s) (\<alpha> (sd_emmc s))
      (num * 512, concat (blocks_from (\<alpha> (sd_emmc s)) lba (unat num))) SD_OK c'"
    "idle c'" "c_block c' = c_block (\<alpha> (sd_emmc s))" using sd_readblock_ok [OF assms] by blast
  obtain d where "run_state (sd_readblock E lba num) (s\<lparr>sd_err := sd_err s, sd_emmc := sd_emmc s\<rparr>) =
      ((num * 512, concat (blocks_from (\<alpha> (sd_emmc s)) lba (unat num))), s\<lparr>sd_err := SD_OK, sd_emmc := d\<rparr>)" "\<alpha> d = c'"
    using c'(1) unfolding does_def by blast
  then show ?thesis using c'(2,3) by simp
qed

text \<open>The description itself is a conforming device.\<close>

definition emmc_ref :: "card emmc" where
  "emmc_ref =
     \<lparr>emmc_get = \<lambda>c a.
        if a = EMMC_INTERRUPT then card_int c
        else if a = EMMC_DATA then (hd (c_data c), card_data c)
        else if a = EMMC_RESP0 then (c_resp c, c) else (0, c),
      emmc_put = \<lambda>c a v.
        if a = EMMC_INTERRUPT then c\<lparr>c_int := c_int c AND NOT v\<rparr>
        else if a = EMMC_ARG1 then c\<lparr>c_arg := v\<rparr>
        else if a = EMMC_BLKSIZECNT then c\<lparr>c_cnt := v\<rparr>
        else if a = EMMC_CMDTM then card_cmd c v else c,
      emmc_wait = \<lambda>c t. c\<rparr>"

lemma emmc_ref_conforms: "conforms emmc_ref id"
  by (simp add: conforms_def emmc_ref_def EMMC_INTERRUPT_def EMMC_DATA_def EMMC_RESP0_def EMMC_STATUS_def
    EMMC_ARG1_def EMMC_BLKSIZECNT_def EMMC_CMDTM_def)

definition demo_card :: "(u32 \<Rightarrow> u32 list) \<Rightarrow> card sd" where
  "demo_card blocks =
     \<lparr>sd_scr0 = SCR_SUPP_CCS, sd_scr1 = 0, sd_rca = 1, sd_err = SD_TIMEOUT, sd_hv = 2,
      sd_emmc = \<lparr>c_int = 2, c_pend = 0, c_delay = 0, c_lat = 1000, c_arg = 0, c_cnt = 0, c_resp = 0,
        c_reply = \<lambda>_ _. 0, c_data = [], c_block = blocks\<rparr>\<rparr>"

lemma demo_card_idle: "idle (id (sd_emmc (demo_card b)))" "sd_scr0 (demo_card b) AND SCR_SUPP_CCS \<noteq> 0"
  by (simp_all add: idle_def demo_card_def INT_ERROR_MASK_def SCR_SUPP_CCS_def)

lemma demo_card_ok: "(\<And>lba. length (b lba) = 128) \<Longrightarrow> card_ok (id (sd_emmc (demo_card b)))"
  by (simp add: card_ok_def demo_card_def)

theorem sd_readblock_delivers_witness:
  "\<exists>s'. run_state (sd_readblock emmc_ref 7 2) (demo_card (replicate 128)) = ((1024, replicate 128 7 @ replicate 128 8), s') \<and>
    sd_err s' = SD_OK"
  using sd_readblock_delivers [OF emmc_ref_conforms demo_card_idle(1) demo_card_ok demo_card_idle(2), of "replicate 128" 2 7]
  by (auto simp: blocks_from_def demo_card_def upt_rec)

section \<open>The clock divisor\<close>

text \<open>Each step halves the range of the position of the leading one: \<open>x\<close> is \<open>x\<^sub>0\<close> shifted left by \<open>32 - s\<close>.\<close>

lemma top_bits_zero:
  fixes x :: u32
  assumes "k \<le> 32"
  shows "x AND push_bit (32 - k) (mask k) = 0 \<longleftrightarrow> unat x < 2 ^ (32 - k)"
proof -
  let ?j = "32 - k"
  have "x AND push_bit ?j (mask k) = 0 \<longleftrightarrow> (\<forall>n. ?j \<le> n \<longrightarrow> \<not> bit x n)"
  proof (intro iffI allI impI)
    fix n assume z: "x AND push_bit ?j (mask k) = 0" and n: "?j \<le> n"
    show "\<not> bit x n"
    proof
      assume x: "bit x n"
      then have "n < 32" using bit_imp_le_length [OF x] by simp
      then have "bit (x AND push_bit ?j (mask k)) n" using x n assms by (simp add: bit_simps) linarith
      then show False by (simp add: z)
    qed
  next
    assume "\<forall>n. ?j \<le> n \<longrightarrow> \<not> bit x n"
    then show "x AND push_bit ?j (mask k) = 0" by (intro bit_word_eqI) (auto simp: bit_simps)
  qed
  also have "\<dots> \<longleftrightarrow> drop_bit ?j x = 0"
  proof
    assume "\<forall>n. ?j \<le> n \<longrightarrow> \<not> bit x n"
    then show "drop_bit ?j x = 0" by (intro bit_word_eqI) (auto simp: bit_drop_bit_eq)
  next
    assume z: "drop_bit ?j x = 0"
    have "bit (drop_bit ?j x) m = bit x (?j + m)" for m by (simp add: bit_drop_bit_eq)
    then have "\<not> bit x (?j + m)" for m unfolding z by simp
    then show "\<forall>n. ?j \<le> n \<longrightarrow> \<not> bit x n" by (auto simp: le_iff_add)
  qed
  also have "\<dots> \<longleftrightarrow> unat x < 2 ^ ?j"
    using unat_drop_bit [of ?j x] by (simp add: div_eq_0_iff unat_eq_zero flip: unat_eq_zero)
  finally show ?thesis .
qed

definition clk_inv :: "u32 \<Rightarrow> u32 \<times> u32 \<Rightarrow> nat \<Rightarrow> bool" where
  "clk_inv x0 p k \<longleftrightarrow> unat (snd p) \<le> 32 \<and> unat (fst p) = unat x0 * 2 ^ (32 - unat (snd p)) \<and> 2 ^ (32 - k) \<le> unat (fst p)"

lemma clk_narrow_inv:
  assumes inv: "clk_inv x0 p (2 * k)" and k: "0 < k" "k \<le> 16" and m: "m = push_bit (32 - k) (mask k)"
  shows "clk_inv x0 (clk_narrow m k p) k"
proof -
  obtain x s where p: "p = (x, s)" by fastforce
  have s: "unat s \<le> 32" and x: "unat x = unat x0 * 2 ^ (32 - unat s)" and lo: "2 ^ (32 - 2 * k) \<le> unat x"
    using inv by (simp_all add: clk_inv_def p)
  show ?thesis
  proof (cases "unat x < 2 ^ (32 - k)")
    case True
    then have "unat x * 2 ^ k < 2 ^ (32 - k) * 2 ^ k" by simp
    also have "\<dots> = 2 ^ 32" using k by (simp flip: power_add)
    finally have lt: "unat x * 2 ^ k < 2 ^ 32" .
    have "(2 :: nat) ^ k \<le> 2 ^ 16" using k by (intro power_increasing) simp_all
    then have "unat ((2 :: u32) ^ k) = 2 ^ k" using unat_of_nat_u32 [of "2 ^ k"] by simp
    then have "unat (push_bit k x) = unat x * 2 ^ k" using lt by (simp add: push_bit_eq_mult unat_word_ariths)
    moreover have "unat x0 \<noteq> 0" using lo x by (metis less_exp less_le_trans mult_0 not_less0 power_0 zero_less_numeral zero_less_power)
    then have "2 ^ (32 - unat s) \<le> unat x" using x by (cases "unat x0") auto
    then have "(2 :: nat) ^ (32 - unat s) < 2 ^ (32 - k)" using True by linarith
    then have "32 - unat s < 32 - k" by (rule power_less_imp_less_exp [rotated]) simp
    then have ks: "k \<le> unat s" using s by linarith
    then have "unat (s - of_nat k) = unat s - k"
      using k s by (simp add: unat_sub word_le_nat_alt unat_of_nat_u32)
    moreover have "(2 :: nat) ^ (32 - (unat s - k)) = 2 ^ (32 - unat s) * 2 ^ k" using ks s by (simp flip: power_add)
    moreover have "2 ^ (32 - k) \<le> unat x * 2 ^ k"
    proof -
      have "(2 :: nat) ^ (32 - k) = 2 ^ (32 - 2 * k) * 2 ^ k" using k by (simp flip: power_add)
      also have "\<dots> \<le> unat x * 2 ^ k" using lo by simp
      finally show ?thesis .
    qed
    moreover have "unat s - k \<le> 32" using s by linarith
    ultimately show ?thesis
      using True s k by (simp add: clk_inv_def p clk_narrow_def m top_bits_zero x power_add)
  next
    case False
    then show ?thesis using s x k by (simp add: clk_inv_def p clk_narrow_def m top_bits_zero)
  qed
qed

lemma clk_masks:
  "(0xffff0000 :: u32) = push_bit (32 - 16) (mask 16)" "(0xff000000 :: u32) = push_bit (32 - 8) (mask 8)"
  "(0xf0000000 :: u32) = push_bit (32 - 4) (mask 4)" "(0xc0000000 :: u32) = push_bit (32 - 2) (mask 2)"
  "(0x80000000 :: u32) = push_bit (32 - 1) (mask 1)"
  by (simp_all add: mask_eq_exp_minus_1)

text \<open>
  The shift that \<open>sd_clk\<close> computes by narrowing down the leading one is the integer logarithm of
  \<open>c - 1\<close>, but never more than 7, so that the divisor \<open>1 << s\<close> fits the eight bits of its field.
\<close>

theorem clk_shift_log2:
  assumes "c \<noteq> 1"
  shows "unat (clk_shift c) \<le> 7 \<and> 2 ^ unat (clk_shift c) \<le> unat (c - 1) \<and>
    (clk_shift c < 7 \<longrightarrow> unat (c - 1) < 2 ^ Suc (unat (clk_shift c)))"
proof -
  define p where "p = clk_narrow 0x80000000 1 (clk_narrow 0xc0000000 2 (clk_narrow 0xf0000000 4
    (clk_narrow 0xff000000 8 (clk_narrow 0xffff0000 16 (c - 1, 32)))))"
  have "unat (c - 1) \<noteq> 0" using assms by (simp add: unat_eq_zero)
  then have "clk_inv (c - 1) (c - 1, 32) (2 * 16)" by (simp add: clk_inv_def)
  then have "clk_inv (c - 1) (clk_narrow 0xffff0000 16 (c - 1, 32)) (2 * 8)"
    using clk_narrow_inv [OF _ _ _ clk_masks(1)] by simp
  then have "clk_inv (c - 1) (clk_narrow 0xff000000 8 (clk_narrow 0xffff0000 16 (c - 1, 32))) (2 * 4)"
    using clk_narrow_inv [OF _ _ _ clk_masks(2)] by simp
  then have "clk_inv (c - 1) (clk_narrow 0xf0000000 4 (clk_narrow 0xff000000 8 (clk_narrow 0xffff0000 16 (c - 1, 32)))) (2 * 2)"
    using clk_narrow_inv [OF _ _ _ clk_masks(3)] by simp
  then have "clk_inv (c - 1) (clk_narrow 0xc0000000 2 (clk_narrow 0xf0000000 4 (clk_narrow 0xff000000 8 (clk_narrow 0xffff0000 16 (c - 1, 32))))) (2 * 1)"
    using clk_narrow_inv [OF _ _ _ clk_masks(4)] by simp
  then have inv: "clk_inv (c - 1) p 1" unfolding p_def using clk_narrow_inv [OF _ _ _ clk_masks(5)] by simp
  obtain x s where p: "p = (x, s)" by fastforce
  have s: "unat s \<le> 32" and x: "unat x = unat (c - 1) * 2 ^ (32 - unat s)" and lo: "2 ^ 31 \<le> unat x"
    using inv by (simp_all add: clk_inv_def p)
  have "unat (c - 1) * 2 ^ (32 - unat s) < 2 ^ unat s * 2 ^ (32 - unat s)"
    using unat_u32_lt [of x] s by (simp add: x flip: power_add)
  then have up: "unat (c - 1) < 2 ^ unat s" by simp
  then have s0: "unat s \<noteq> 0" using \<open>unat (c - 1) \<noteq> 0\<close> by (intro notI) simp
  then have "2 ^ (unat s - 1) * 2 ^ (32 - unat s) \<le> unat (c - 1) * 2 ^ (32 - unat s)"
    using lo s by (simp add: x flip: power_add)
  then have low: "2 ^ (unat s - 1) \<le> unat (c - 1)" by simp
  have s1: "unat (s - 1) = unat s - 1" using s0 by (simp add: unat_sub word_le_nat_alt)
  have "0 < s" using s0 by (simp add: word_less_nat_alt)
  then have cs: "clk_shift c = (if s - 1 > 7 then 7 else s - 1)"
    using assms p unfolding clk_shift_def Let_def p_def [symmetric] by simp
  show ?thesis
  proof (cases "s - 1 > 7")
    case True
    then have "7 \<le> unat s - 1" using s1 by (simp add: word_less_nat_alt)
    then have "(2 :: nat) ^ 7 \<le> 2 ^ (unat s - 1)" by (intro power_increasing) simp_all
    then show ?thesis using True low cs by simp
  next
    case False
    then show ?thesis using s1 low up cs s0 by (simp add: word_less_nat_alt)
  qed
qed

theorem clk_shift_log2_witness: "2 ^ unat (clk_shift 104) \<le> (103 :: nat) \<and> clk_shift 104 = 6"
proof -
  have "clk_shift 104 = 6" by code_simp
  then show ?thesis using clk_shift_log2 [of 104] by simp
qed

section \<open>The loop that reads the SCR\<close>

text \<open>If the card never makes the words available, the loop does not end: nothing counts down.\<close>

lemma scr_loop_stuck:
  assumes "scr_loop E r s = Some s'"
  shows "(\<forall>d. fst (emmc_get E d EMMC_STATUS) AND SR_READ_AVAILABLE = 0) \<longrightarrow> 2 \<le> r"
proof (rule scr_loop.raw_induct [OF _ assms])
  fix f :: "'a emmc \<Rightarrow> nat \<Rightarrow> 'a sd \<Rightarrow> 'a sd option" and E r s s'
  assume IH: "\<And>E r s s'. f E r s = Some s' \<Longrightarrow> (\<forall>d. fst (emmc_get E d EMMC_STATUS) AND SR_READ_AVAILABLE = 0) \<longrightarrow> 2 \<le> r"
    and eq: "(if 2 \<le> r then Some s
      else let (v, s) = run_state (reg_get E EMMC_STATUS) s
        in if v AND SR_READ_AVAILABLE \<noteq> 0 then let (w, s) = run_state (reg_get E EMMC_DATA) s
             in f E (r + 1) (if r = 0 then s\<lparr>sd_scr0 := w\<rparr> else s\<lparr>sd_scr1 := w\<rparr>)
           else f E r (snd (run_state (wait_msec E 1) s))) = Some s'"
  show "(\<forall>d. fst (emmc_get E d EMMC_STATUS) AND SR_READ_AVAILABLE = 0) \<longrightarrow> 2 \<le> r"
    using eq IH by (auto simp: reg_get_def split_beta split: if_splits) blast
qed

end
