(* ===== verification/Pi_Disk.thy ===== *)
theory Pi_Disk
  imports Pi_Fs Pi_Sd_Read
begin

text \<open>
  The file system on the SD card: the driver provides the block device that the file system of
  pi-side/kernel/disk expects, and files and directories are read from the card.
\<close>

section \<open>The driver as a block device\<close>

text \<open>
  A disk is a controller, what its states stand for, and the state of the driver. It is ready when
  the controller conforms, is idle and holds a high capacity card; after each read it is ready
  again and the card unchanged, so every read of a run sees the same blocks.
\<close>

type_synonym 'd disk = "'d emmc \<times> ('d \<Rightarrow> card) \<times> 'd sd"

definition words_bytes :: "u32 list \<Rightarrow> u8 list" where
  "words_bytes ws = concat (map word_bytes ws)"

definition disk_dev :: "'d disk \<Rightarrow> dev" where
  "disk_dev D lba n = (let (E, \<alpha>, s) = D; (r, ws) = fst (run_state (sd_readblock E lba n) s) in (r, words_bytes ws))"

definition disk_ready :: "'d disk \<Rightarrow> bool" where
  "disk_ready D = (let (E, \<alpha>, s) = D in conforms E \<alpha> \<and> idle (\<alpha> (sd_emmc s)) \<and> card_ok (\<alpha> (sd_emmc s)) \<and>
     sd_scr0 s AND SCR_SUPP_CCS \<noteq> 0)"

definition disk_block :: "'d disk \<Rightarrow> u32 \<Rightarrow> u8 list" where
  "disk_block D lba = (let (E, \<alpha>, s) = D in words_bytes (c_block (\<alpha> (sd_emmc s)) lba))"

lemma length_words_bytes: "length (words_bytes ws) = 4 * length ws"
  by (induction ws) (simp_all add: words_bytes_def word_bytes_def)

lemma words_bytes_blocks:
  "words_bytes (concat (blocks_from c lba n)) = concat (map (\<lambda>i. words_bytes (c_block c (lba + of_nat i))) [0..<n])"
  by (induction n) (simp_all add: blocks_from_def words_bytes_def)

interpretation sd: block_device disk_dev disk_ready disk_block
proof
  fix D :: "'d disk" and lba n :: u32
  obtain E \<alpha> s where D: "D = (E, \<alpha>, s)" by (cases D) auto
  assume "disk_ready D"
  then have r: "conforms E \<alpha>" "idle (\<alpha> (sd_emmc s))" "card_ok (\<alpha> (sd_emmc s))" "sd_scr0 s AND SCR_SUPP_CCS \<noteq> 0"
    by (simp_all add: disk_ready_def D)
  show "length (disk_block D lba) = 512" using r(3) by (simp add: disk_block_def D length_words_bytes card_ok_def)
  assume "0 < unat n" "unat n < 65536"
  then obtain c' where "does \<alpha> s (sd_readblock E lba n) (sd_err s) (\<alpha> (sd_emmc s))
      (n * 512, concat (blocks_from (\<alpha> (sd_emmc s)) lba (unat n))) SD_OK c'"
    using sd_readblock_ok [OF r] by blast
  then have "fst (run_state (sd_readblock E lba n) (s\<lparr>sd_err := sd_err s, sd_emmc := sd_emmc s\<rparr>)) =
      (n * 512, concat (blocks_from (\<alpha> (sd_emmc s)) lba (unat n)))" unfolding does_def by fastforce
  then show "disk_dev D lba n = (n * 512, concat (map (\<lambda>i. disk_block D (lba + of_nat i)) [0..<unat n]))"
    by (simp add: disk_dev_def disk_block_def D words_bytes_blocks)
qed

section \<open>Files and directories on the card\<close>

definition disk_cluster :: "'d disk \<Rightarrow> fat32_fs \<Rightarrow> u32 \<Rightarrow> u8 list" where
  "disk_cluster D fs c = concat (map (\<lambda>i. disk_block D (cluster_to_lba fs c + of_nat i)) [0..<unat (sectors_per_cluster fs)])"

lemma sd_cluster: "sd.cluster D fs c = disk_cluster D fs c"
  by (simp add: sd.cluster_def sd.sectors_def disk_cluster_def)

text \<open>
  C6: \<open>fat32_read_file\<close> on the SD card follows the chain of the file to its end mark and returns the
  contents of its clusters in the order of the chain, whatever their order on the disk, together
  with the length from the directory entry and the checksum of that many bytes.
\<close>

theorem read_file_on_card:
  assumes "disk_ready D" "0 < unat (sectors_per_cluster fs)" "unat (sectors_per_cluster fs) < 65536"
    and "fat_chain (fat fs) (cluster_id d) cs"
    and "512 * unat (sectors_per_cluster fs) * length cs < 2 ^ 32"
    and "unat (nbytes d) \<le> 512 * unat (sectors_per_cluster fs) * length cs"
  shows "fat32_read_file (disk_dev D) fs d =
    Some (Inr \<lparr>f_data = concat (map (disk_cluster D fs) cs),
      f_cksum = crc32 (take (unat (nbytes d)) (concat (map (disk_cluster D fs) cs))),
      n_alloc = of_nat (512 * unat (sectors_per_cluster fs) * length cs), n_data = nbytes d\<rparr>)"
  using sd.read_file_chain [OF assms] unfolding sd_cluster .

definition card_disk :: "card disk" where
  "card_disk = (emmc_ref, id, demo_card (replicate 128))"

lemma card_disk_ready: "disk_ready card_disk"
  using demo_card_idle [of "replicate 128"] demo_card_ok [of "replicate 128"] emmc_ref_conforms
  by (simp add: disk_ready_def card_disk_def)

definition file_fs :: fat32_fs where
  "file_fs = \<lparr>fat_begin_lba = 32, cluster_begin_lba = 40, sectors_per_cluster = 1, root_dir_first_cluster = 2,
     fat = (replicate 16 0) [7 := 5, 5 := 0x0FFFFFFF], n_fat = 2\<rparr>"

definition file_entry :: dirent where
  "file_entry = \<lparr>de_name = [0x61], cluster_id = 7, is_dir_p = False, nbytes = 600\<rparr>"

theorem read_file_on_card_witness:
  "\<exists>f. fat32_read_file (disk_dev card_disk) file_fs file_entry = Some (Inr f) \<and>
     f_data f = words_bytes (replicate 128 45 @ replicate 128 43) \<and> n_data f = 600"
proof -
  have ch: "fat_chain (fat file_fs) (cluster_id file_entry) [7, 5]" by code_simp
  have "sectors_per_cluster file_fs = 1" "nbytes file_entry = 600" by (simp_all add: file_fs_def file_entry_def)
  then have "fat32_read_file (disk_dev card_disk) file_fs file_entry =
    Some (Inr \<lparr>f_data = concat (map (disk_cluster card_disk file_fs) [7, 5]),
      f_cksum = crc32 (take 600 (concat (map (disk_cluster card_disk file_fs) [7, 5]))),
      n_alloc = of_nat 1024, n_data = 600\<rparr>)"
    using read_file_on_card [OF card_disk_ready _ _ ch] by simp
  then show ?thesis
    by (simp add: disk_cluster_def disk_block_def card_disk_def demo_card_def file_fs_def cluster_to_lba_def words_bytes_def)
qed

text \<open>
  C34: \<open>fat32_read_dir\<close> on the SD card lists a directory correctly when the clusters of its chain lie
  next to each other on the disk: it converts the entries of exactly those clusters.
\<close>

theorem read_dir_on_card:
  assumes "disk_ready D" "0 < unat (sectors_per_cluster fs)"
    and "c = (case d of Some d \<Rightarrow> cluster_id d | None \<Rightarrow> root_dir_first_cluster fs)"
    and "fat_chain (fat fs) c (map (\<lambda>i. c + of_nat i) [0..<n])" "0 < n"
    and "n * unat (sectors_per_cluster fs) < 65536"
  shows "fat32_read_dir (disk_dev D) fs d =
    Some (fat32_to_dirent (dir_entries (concat (map (disk_cluster D fs) (map (\<lambda>i. c + of_nat i) [0..<n])))
      (16 * n * unat (sectors_per_cluster fs))))"
  using sd.read_dir_contiguous [OF assms] unfolding sd_cluster .

theorem read_dir_on_card_witness:
  "fat32_read_dir (disk_dev card_disk) (file_fs\<lparr>fat := (replicate 16 0) [2 := 3, 3 := 0x0FFFFFFF]\<rparr>) None =
    Some (fat32_to_dirent (dir_entries (words_bytes (replicate 128 40 @ replicate 128 41)) 32))"
proof -
  let ?fs = "file_fs\<lparr>fat := (replicate 16 0) [2 := 3, 3 := 0x0FFFFFFF]\<rparr>"
  have two: "map (\<lambda>i. 2 + of_nat i) [0..<2] = [2, 3 :: u32]" by (simp add: upt_rec)
  have "fat_chain (fat ?fs) 2 [2, 3]" by code_simp
  then have ch: "fat_chain (fat ?fs) 2 (map (\<lambda>i. 2 + of_nat i) [0..<2])" unfolding two .
  have "sectors_per_cluster ?fs = 1" "root_dir_first_cluster ?fs = 2" by (simp_all add: file_fs_def)
  then have "fat32_read_dir (disk_dev card_disk) ?fs None =
      Some (fat32_to_dirent (dir_entries (concat (map (disk_cluster card_disk ?fs) [2, 3])) 32))"
    using read_dir_on_card [OF card_disk_ready _ _ ch, where d = None] unfolding two by simp
  moreover have "concat (map (disk_cluster card_disk ?fs) [2, 3]) = words_bytes (replicate 128 40 @ replicate 128 41)"
    by (simp add: disk_cluster_def disk_block_def card_disk_def demo_card_def file_fs_def cluster_to_lba_def words_bytes_def)
  ultimately show ?thesis by simp
qed

end
