(* ===== verification/Pi_Gpio.thy ===== *)
theory Pi_Gpio
  imports Pi_Io Pi_Printf
begin

text \<open>
  The pins and the serial port of the Pi: pi-side/libpi/gpio.c, uart.c and reboot.c. The device behind the
  memory-mapped registers is a parameter: what a read of a register returns and what reads, writes
  and waiting, for cycles or microseconds, do to the device. Memory barriers have no counterpart in the model, in which accesses
  happen in program order. Polling loops are partial functions: \<open>None\<close> is polling forever.
\<close>

section \<open>Registers\<close>

record 'd bus =
  bus_get :: "'d \<Rightarrow> u32 \<Rightarrow> u32 \<times> 'd"
  bus_put :: "'d \<Rightarrow> u32 \<Rightarrow> u32 \<Rightarrow> 'd"
  bus_wait :: "'d \<Rightarrow> u32 \<Rightarrow> 'd"
  bus_wait_us :: "'d \<Rightarrow> u32 \<Rightarrow> 'd"

definition GPIO_BASE :: u32 where "GPIO_BASE = 0x20200000"

definition gpio_fsel :: "u32 list" where
  "gpio_fsel = [GPIO_BASE + 0x00, GPIO_BASE + 0x04, GPIO_BASE + 0x08, GPIO_BASE + 0x0C, GPIO_BASE + 0x10, GPIO_BASE + 0x14]"

definition gpio_set :: "u32 list" where "gpio_set = [GPIO_BASE + 0x1C, GPIO_BASE + 0x20]"
definition gpio_clr :: "u32 list" where "gpio_clr = [GPIO_BASE + 0x28, GPIO_BASE + 0x2C]"
definition gpio_lvl :: "u32 list" where "gpio_lvl = [GPIO_BASE + 0x34, GPIO_BASE + 0x38]"
definition gpio_pud :: u32 where "gpio_pud = GPIO_BASE + 0x94"
definition gpio_pudclk :: "u32 list" where "gpio_pudclk = [GPIO_BASE + 0x98, GPIO_BASE + 0x9C]"

definition GPIO_PIN_LAST :: u32 where "GPIO_PIN_LAST = 53"
definition GPIO_FUNC_INPUT :: u32 where "GPIO_FUNC_INPUT = 0"
definition GPIO_FUNC_OUTPUT :: u32 where "GPIO_FUNC_OUTPUT = 1"
definition GPIO_FUNC_ALT5 :: u32 where "GPIO_FUNC_ALT5 = 2"
definition GPIO_INVALID_REQUEST :: u32 where "GPIO_INVALID_REQUEST = - 1"
definition GPIO_PUD_DISABLE :: u32 where "GPIO_PUD_DISABLE = 0"
definition GPIO_PUD_PULLDOWN :: u32 where "GPIO_PUD_PULLDOWN = 1"
definition GPIO_PUD_PULLUP :: u32 where "GPIO_PUD_PULLUP = 2"

definition GPIO_FUNC_BITS :: nat where "GPIO_FUNC_BITS = 3"
definition GPIO_FUNC_MASK :: u32 where "GPIO_FUNC_MASK = push_bit GPIO_FUNC_BITS 1 - 1"

section \<open>Pins\<close>

definition gpio_set_function :: "'d bus \<Rightarrow> u32 \<Rightarrow> u32 \<Rightarrow> 'd \<Rightarrow> u32 \<times> 'd" where
  "gpio_set_function B pin fn d =
     (if pin > GPIO_PIN_LAST \<or> fn > GPIO_FUNC_MASK then (0, d)
      else
        let gpio = gpio_fsel ! unat (pin div 10);
            (value, d) = bus_get B d gpio;
            off = GPIO_FUNC_BITS * unat (pin mod 10);
            value = value AND NOT (push_bit off GPIO_FUNC_MASK);
            value = value OR push_bit off fn
        in (1, bus_put B d gpio value))"

definition gpio_get_function :: "'d bus \<Rightarrow> u32 \<Rightarrow> 'd \<Rightarrow> u32 \<times> 'd" where
  "gpio_get_function B pin d =
     (if pin > GPIO_PIN_LAST then (GPIO_INVALID_REQUEST, d)
      else
        let gpio = gpio_fsel ! unat (pin div 10);
            (value, d) = bus_get B d gpio
        in (drop_bit (GPIO_FUNC_BITS * unat (pin mod 10)) value AND GPIO_FUNC_MASK, d))"

definition gpio_set_input :: "'d bus \<Rightarrow> u32 \<Rightarrow> 'd \<Rightarrow> u32 \<times> 'd" where
  "gpio_set_input B pin d = (1, snd (gpio_set_function B pin GPIO_FUNC_INPUT d))"

definition gpio_set_output :: "'d bus \<Rightarrow> u32 \<Rightarrow> 'd \<Rightarrow> u32 \<times> 'd" where
  "gpio_set_output B pin d = (1, snd (gpio_set_function B pin GPIO_FUNC_OUTPUT d))"

definition gpio_write :: "'d bus \<Rightarrow> u32 \<Rightarrow> u32 \<Rightarrow> 'd \<Rightarrow> u32 \<times> 'd" where
  "gpio_write B pin val d =
     (if pin > GPIO_PIN_LAST then (GPIO_INVALID_REQUEST, d)
      else (1, bus_put B d ((if val \<noteq> 0 then gpio_set else gpio_clr) ! unat (pin div 32)) (push_bit (unat (pin mod 32)) 1)))"

definition gpio_read :: "'d bus \<Rightarrow> u32 \<Rightarrow> 'd \<Rightarrow> u32 \<times> 'd" where
  "gpio_read B pin d =
     (if pin > GPIO_PIN_LAST then (GPIO_INVALID_REQUEST, d)
      else let (value, d) = bus_get B d (gpio_lvl ! unat (pin div 32)) in (drop_bit (unat (pin mod 32)) value AND 1, d))"

definition gpio_set_pud :: "'d bus \<Rightarrow> u32 \<Rightarrow> u32 \<Rightarrow> 'd \<Rightarrow> u32 \<times> 'd" where
  "gpio_set_pud B pin pud d =
     (if pin > GPIO_PIN_LAST then (GPIO_INVALID_REQUEST, d)
      else
        let clk = gpio_pudclk ! unat (pin div 32);
            d = bus_put B d gpio_pud pud;
            d = bus_wait B d 150;
            d = bus_put B d clk (push_bit (unat (pin mod 32)) 1);
            d = bus_wait B d 150;
            d = bus_put B d gpio_pud GPIO_PUD_DISABLE
        in (1, bus_put B d clk 0))"

definition gpio_set_pullup :: "'d bus \<Rightarrow> u32 \<Rightarrow> 'd \<Rightarrow> u32 \<times> 'd" where
  "gpio_set_pullup B pin = gpio_set_pud B pin GPIO_PUD_PULLUP"

definition gpio_set_pulldown :: "'d bus \<Rightarrow> u32 \<Rightarrow> 'd \<Rightarrow> u32 \<times> 'd" where
  "gpio_set_pulldown B pin = gpio_set_pud B pin GPIO_PUD_PULLDOWN"

definition gpio_set_on :: "'d bus \<Rightarrow> u32 \<Rightarrow> 'd \<Rightarrow> u32 \<times> 'd" where
  "gpio_set_on B pin = gpio_write B pin 1"

definition gpio_set_off :: "'d bus \<Rightarrow> u32 \<Rightarrow> 'd \<Rightarrow> u32 \<times> 'd" where
  "gpio_set_off B pin = gpio_write B pin 0"

section \<open>The serial port\<close>

definition BAUD_RATE :: u32 where "BAUD_RATE = 270"
definition AUX_BASE :: u32 where "AUX_BASE = 0x20215000"
definition AUX_ENB :: u32 where "AUX_ENB = AUX_BASE + 0x04"
definition AUX_MU_IO :: u32 where "AUX_MU_IO = AUX_BASE + 0x40"
definition AUX_MU_IER :: u32 where "AUX_MU_IER = AUX_BASE + 0x44"
definition AUX_MU_IIR :: u32 where "AUX_MU_IIR = AUX_BASE + 0x48"
definition AUX_MU_LCR :: u32 where "AUX_MU_LCR = AUX_BASE + 0x4c"
definition AUX_MU_CNTL :: u32 where "AUX_MU_CNTL = AUX_BASE + 0x60"
definition AUX_MU_STAT :: u32 where "AUX_MU_STAT = AUX_BASE + 0x64"
definition AUX_MU_BAUD :: u32 where "AUX_MU_BAUD = AUX_BASE + 0x68"

definition uart_init :: "'d bus \<Rightarrow> 'd \<Rightarrow> 'd" where
  "uart_init B d =
     (let d = snd (gpio_set_function B 14 GPIO_FUNC_ALT5 d);
          d = snd (gpio_set_function B 15 GPIO_FUNC_ALT5 d);
          (enable, d) = bus_get B d AUX_ENB;
          d = bus_put B d AUX_ENB (enable OR 1);
          d = bus_put B d AUX_MU_CNTL 0;
          d = bus_put B d AUX_MU_IER 0;
          d = bus_put B d AUX_MU_IIR 6;
          d = bus_put B d AUX_MU_LCR 3;
          d = bus_put B d AUX_MU_BAUD BAUD_RATE
      in bus_put B d AUX_MU_CNTL 3)"

text \<open>Reading the status until bit \<open>i\<close> is set.\<close>

partial_function (option) poll_stat :: "'d bus \<Rightarrow> nat \<Rightarrow> 'd \<Rightarrow> 'd option" where
  "poll_stat B i d =
     (let (status, d) = bus_get B d AUX_MU_STAT in
      if status AND push_bit i 1 = 0 then poll_stat B i d else Some d)"

definition uart_getc :: "'d bus \<Rightarrow> 'd \<Rightarrow> (u32 \<times> 'd) option" where
  "uart_getc B d =
     Option.bind (poll_stat B 0 d) (\<lambda>d. let (data, d) = bus_get B d AUX_MU_IO in Some (data AND 0xFF, d))"

definition uart_putc :: "'d bus \<Rightarrow> u32 \<Rightarrow> 'd \<Rightarrow> 'd option" where
  "uart_putc B c d = Option.bind (poll_stat B 1 d) (\<lambda>d. Some (bus_put B d AUX_MU_IO (c AND 0xFF)))"

text \<open>A byte program as it runs on the Pi: its reads and writes are \<open>uart_getc\<close> and \<open>uart_putc\<close>.\<close>

primrec exec_io :: "'d bus \<Rightarrow> 'a io \<Rightarrow> 'd \<Rightarrow> ('a \<times> 'd) option" where
  "exec_io B (Ret a) d = Some (a, d)"
| "exec_io B (GetByte f) d = Option.bind (uart_getc B d) (\<lambda>(c, d). exec_io B (f (ucast c)) d)"
| "exec_io B (PutByte b p) d = Option.bind (uart_putc B (ucast b) d) (exec_io B p)"

section \<open>Rebooting\<close>

definition user_level :: u32 where "user_level = 0x10"
definition PM_RSTC :: u32 where "PM_RSTC = 0x2010001c"
definition PM_WDOG :: u32 where "PM_WDOG = 0x20100024"
definition PM_PASSWORD :: u32 where "PM_PASSWORD = 0x5a000000"
definition PM_RSTC_WRCFG_FULL_RESET :: u32 where "PM_RSTC_WRCFG_FULL_RESET = 0x00000020"

definition at_user_level :: "u32 \<Rightarrow> bool" where
  "at_user_level cpsr \<longleftrightarrow> cpsr AND 0x1F = user_level"

definition set_user_level :: "u32 \<Rightarrow> u32" where
  "set_user_level cpsr = (cpsr AND NOT 0x1F) OR user_level"

text \<open>The status register and the device when \<open>rpi_reboot\<close> enters its final endless loop.\<close>

definition rpi_reboot :: "'d bus \<Rightarrow> u32 \<Rightarrow> 'd \<Rightarrow> (u32 \<times> 'd) res" where
  "rpi_reboot B cpsr d =
     rbind (if at_user_level cpsr
            then let cpsr = set_user_level cpsr in rbind (assert_that (at_user_level cpsr)) (\<lambda>_. Inr cpsr)
            else Inr cpsr) (\<lambda>cpsr.
     let d = bus_wait_us B d 30000;
         d = bus_put B d PM_WDOG (PM_PASSWORD OR 1);
         d = bus_put B d PM_RSTC (PM_PASSWORD OR PM_RSTC_WRCFG_FULL_RESET)
     in Inr (cpsr, d))"

text \<open>The message tells the other side to stop; the result is \<open>None\<close> when it cannot be sent.\<close>

definition clean_reboot :: "'d bus \<Rightarrow> u32 \<Rightarrow> 'd \<Rightarrow> (u32 \<times> 'd) res option" where
  "clean_reboot B cpsr d =
     Option.bind (exec_io B (foldr PutByte (putk (str ''DONE!!!'' @ [0x0A])) (Ret ())) d) (\<lambda>(_, d).
     Some (rpi_reboot B cpsr (bus_wait_us B d 50000)))"

section \<open>Pin functions\<close>

text \<open>The function-select registers hold what was last written to them; \<open>reg\<close> reads them off the device.\<close>

definition holds_fsel :: "'d bus \<Rightarrow> ('d \<Rightarrow> u32 \<Rightarrow> u32) \<Rightarrow> bool" where
  "holds_fsel B reg \<longleftrightarrow> (\<forall>d. \<forall>a \<in> set gpio_fsel. bus_get B d a = (reg d a, d) \<and>
     (\<forall>v. reg (bus_put B d a v) = (reg d)(a := v)))"

definition put_field :: "nat \<Rightarrow> u32 \<Rightarrow> u32 \<Rightarrow> u32" where
  "put_field off fn v = v AND NOT (push_bit off GPIO_FUNC_MASK) OR push_bit off fn"

definition get_field :: "nat \<Rightarrow> u32 \<Rightarrow> u32" where
  "get_field off v = drop_bit off v AND GPIO_FUNC_MASK"

lemma func_mask: "GPIO_FUNC_MASK = mask 3"
  by (simp add: GPIO_FUNC_MASK_def GPIO_FUNC_BITS_def mask_eq_exp_minus_1 push_bit_eq_mult)

lemma small_bits: "fn \<le> GPIO_FUNC_MASK \<Longrightarrow> take_bit 3 fn = fn" for fn :: u32
proof -
  assume "fn \<le> GPIO_FUNC_MASK"
  then have "unat fn < 2 ^ 3" by (simp add: word_le_nat_alt GPIO_FUNC_MASK_def GPIO_FUNC_BITS_def push_bit_eq_mult)
  then show "take_bit 3 fn = fn" by (simp add: take_bit_eq_mod word_unat_eq_iff unat_mod_distrib)
qed

lemma get_put_field:
  assumes "fn \<le> GPIO_FUNC_MASK" "off + 3 \<le> 32"
  shows "get_field off (put_field off fn v) = fn"
proof -
  have "get_field off (put_field off fn v) = take_bit 3 fn" unfolding get_field_def put_field_def func_mask
    by (rule bit_word_eqI) (use assms(2) in \<open>auto simp: bit_simps\<close>)
  then show ?thesis using small_bits [OF assms(1)] by simp
qed

lemma get_put_other:
  assumes "fn \<le> GPIO_FUNC_MASK" "off' + 3 \<le> off \<or> off + 3 \<le> off'"
  shows "get_field off' (put_field off fn v) = get_field off' v"
proof -
  have b: "bit fn n \<Longrightarrow> n < 3" for n using small_bits [OF assms(1)] by (metis bit_take_bit_iff)
  have w: "bit v n \<Longrightarrow> n < 32" for n by (drule bit_imp_le_length) simp
  show ?thesis unfolding get_field_def put_field_def func_mask
    by (rule bit_word_eqI) (use assms(2) in \<open>auto simp: bit_simps dest: b w\<close>)
qed

lemma fsel_nth: "i < 6 \<Longrightarrow> gpio_fsel ! i \<in> set gpio_fsel" "i < 6 \<Longrightarrow> j < 6 \<Longrightarrow> gpio_fsel ! i = gpio_fsel ! j \<longleftrightarrow> i = j"
proof -
  have l: "length gpio_fsel = 6" "distinct gpio_fsel" by (simp_all add: gpio_fsel_def GPIO_BASE_def)
  show "i < 6 \<Longrightarrow> gpio_fsel ! i \<in> set gpio_fsel" using l by simp
  show "i < 6 \<Longrightarrow> j < 6 \<Longrightarrow> gpio_fsel ! i = gpio_fsel ! j \<longleftrightarrow> i = j" using l by (simp add: nth_eq_iff_index_eq)
qed

lemma pin_place:
  "q \<le> GPIO_PIN_LAST \<Longrightarrow> unat (q div 10) = unat q div 10 \<and> unat (q mod 10) = unat q mod 10 \<and> unat q div 10 < 6"
  by (simp add: GPIO_PIN_LAST_def word_le_nat_alt unat_div_distrib unat_mod_distrib)

lemma gpio_get_field:
  assumes "holds_fsel B reg" "q \<le> GPIO_PIN_LAST"
  shows "gpio_get_function B q d = (get_field (3 * (unat q mod 10)) (reg d (gpio_fsel ! (unat q div 10))), d)"
  using assms pin_place [OF assms(2)] fsel_nth(1)
  by (auto simp: gpio_get_function_def holds_fsel_def get_field_def Let_def GPIO_FUNC_BITS_def split_beta)

text \<open>
  Setting the function of a pin is read back, and changes the function of no other pin, though ten pins share
  a register; invalid pins and functions change nothing.
\<close>

theorem gpio_function_set_get:
  assumes "holds_fsel B reg"
  shows "if pin \<le> GPIO_PIN_LAST \<and> fn \<le> GPIO_FUNC_MASK
    then \<exists>d'. gpio_set_function B pin fn d = (1, d') \<and> gpio_get_function B pin d' = (fn, d') \<and>
      (\<forall>q. q \<noteq> pin \<longrightarrow> fst (gpio_get_function B q d') = fst (gpio_get_function B q d))
    else gpio_set_function B pin fn d = (0, d)"
proof (cases "pin \<le> GPIO_PIN_LAST \<and> fn \<le> GPIO_FUNC_MASK")
  case True
  let ?a = "gpio_fsel ! (unat pin div 10)" and ?off = "3 * (unat pin mod 10)"
  let ?d = "bus_put B d ?a (put_field ?off fn (reg d ?a))"
  note p = pin_place [OF True [THEN conjunct1]]
  have reg: "reg ?d = (reg d)(?a := put_field ?off fn (reg d ?a))" "bus_get B d ?a = (reg d ?a, d)"
    using assms fsel_nth(1) p by (simp_all add: holds_fsel_def)
  have set: "gpio_set_function B pin fn d = (1, ?d)"
    using True p reg(2) by (simp add: gpio_set_function_def Let_def put_field_def GPIO_FUNC_BITS_def not_less)
  moreover have "gpio_get_function B pin ?d = (fn, ?d)"
    using gpio_get_field [OF assms] True reg(1) get_put_field [of fn ?off "reg d ?a"] by simp
  moreover have "fst (gpio_get_function B q ?d) = fst (gpio_get_function B q d)" if "q \<noteq> pin" for q
  proof (cases "q \<le> GPIO_PIN_LAST")
    case q: True
    have ne: "unat q \<noteq> unat pin" using that by (simp add: word_unat_eq_iff)
    show ?thesis
    proof (cases "unat q div 10 = unat pin div 10")
      case same: True
      then have "unat q mod 10 \<noteq> unat pin mod 10" using ne by (metis div_mult_mod_eq)
      then have "3 * (unat q mod 10) + 3 \<le> ?off \<or> ?off + 3 \<le> 3 * (unat q mod 10)" by linarith
      then show ?thesis using gpio_get_field [OF assms q] True reg(1) same by (simp add: get_put_other)
    next
      case False
      then have "gpio_fsel ! (unat q div 10) \<noteq> ?a" using fsel_nth(2) p pin_place [OF q] by simp
      then show ?thesis using gpio_get_field [OF assms q] reg(1) by simp
    qed
  qed (simp add: gpio_get_function_def not_le)
  ultimately show ?thesis using True by auto
qed (auto simp: gpio_set_function_def)

theorem gpio_function_set_get_witness:
  "\<exists>d'. gpio_set_function \<lparr>bus_get = \<lambda>d a. (d a, d), bus_put = \<lambda>d a v. d(a := v), bus_wait = \<lambda>d _. d, bus_wait_us = \<lambda>d _. d\<rparr>
     14 GPIO_FUNC_ALT5 (\<lambda>_. 0xFFFFFFFF) = (1, d') \<and> d' 0x20200004 = 0xFFFFAFFF"
proof -
  let ?B = "\<lparr>bus_get = \<lambda>d a. (d a, d), bus_put = \<lambda>d a v. d(a := v), bus_wait = \<lambda>d _. d, bus_wait_us = \<lambda>d _. d\<rparr> :: (u32 \<Rightarrow> u32) bus"
  have "holds_fsel ?B (\<lambda>d. d)" by (simp add: holds_fsel_def)
  from gpio_function_set_get [OF this, of 14 GPIO_FUNC_ALT5 "\<lambda>_. 0xFFFFFFFF"]
  obtain d' where d: "gpio_set_function ?B 14 GPIO_FUNC_ALT5 (\<lambda>_. 0xFFFFFFFF) = (1, d')"
    by (auto simp: GPIO_PIN_LAST_def GPIO_FUNC_ALT5_def GPIO_FUNC_MASK_def GPIO_FUNC_BITS_def)
  then have "d' 0x20200004 = 0xFFFFAFFF"
    by (auto simp: gpio_set_function_def GPIO_PIN_LAST_def GPIO_FUNC_ALT5_def GPIO_FUNC_MASK_def GPIO_FUNC_BITS_def
        gpio_fsel_def GPIO_BASE_def Let_def)
  with d show ?thesis by blast
qed

section \<open>The serial port carries byte programs\<close>

text \<open>
  What the data sheet promises of the mini UART: \<open>pending\<close> are the bytes that have arrived or will, \<open>sent\<close> those
  written; a status read changes neither, sets bit 0 only when a byte can be read and bit 1 only when there is
  room, and both come true in the end (bit 0 if a byte is to come). A data read then takes the next byte, a write appends one.
\<close>

record 'd line =
  pending :: "'d \<Rightarrow> u8 list"
  sent :: "'d \<Rightarrow> u8 list"
  rx_ready :: "'d \<Rightarrow> bool"
  tx_ready :: "'d \<Rightarrow> bool"
  rx_delay :: "'d \<Rightarrow> nat"
  tx_delay :: "'d \<Rightarrow> nat"

definition serial :: "'d bus \<Rightarrow> 'd line \<Rightarrow> bool" where
  "serial B L \<longleftrightarrow>
     (\<forall>d v d'. bus_get B d AUX_MU_STAT = (v, d') \<longrightarrow>
        pending L d' = pending L d \<and> sent L d' = sent L d \<and>
        (v AND 1 \<noteq> 0 \<longrightarrow> rx_ready L d') \<and> (v AND 2 \<noteq> 0 \<longrightarrow> tx_ready L d') \<and>
        (pending L d \<noteq> [] \<and> v AND 1 = 0 \<longrightarrow> rx_delay L d' < rx_delay L d) \<and>
        (v AND 2 = 0 \<longrightarrow> tx_delay L d' < tx_delay L d)) \<and>
     (\<forall>d c cs v d'. rx_ready L d \<and> pending L d = c # cs \<and> bus_get B d AUX_MU_IO = (v, d') \<longrightarrow>
        v AND 0xFF = ucast c \<and> pending L d' = cs \<and> sent L d' = sent L d) \<and>
     (\<forall>d c. tx_ready L d \<longrightarrow>
        pending L (bus_put B d AUX_MU_IO (ucast (c :: u8))) = pending L d \<and>
        sent L (bus_put B d AUX_MU_IO (ucast c)) = sent L d @ [c])"

lemma poll_rx:
  assumes "serial B L" "pending L d \<noteq> []"
  shows "\<exists>d'. poll_stat B 0 d = Some d' \<and> rx_ready L d' \<and> pending L d' = pending L d \<and> sent L d' = sent L d"
  using assms(2)
proof (induction "rx_delay L d" arbitrary: d rule: less_induct)
  case less
  obtain v d1 where g: "bus_get B d AUX_MU_STAT = (v, d1)" by (cases "bus_get B d AUX_MU_STAT")
  have l: "pending L d1 = pending L d" "sent L d1 = sent L d" "v AND 1 \<noteq> 0 \<longrightarrow> rx_ready L d1"
      "v AND 1 = 0 \<longrightarrow> rx_delay L d1 < rx_delay L d"
    using assms(1) g less.prems unfolding serial_def by blast+
  show ?case
  proof (cases "v AND 1 = 0")
    case True
    then show ?thesis using less.hyps [of d1] l less.prems by (subst poll_stat.simps) (simp add: g)
  next
    case False
    then show ?thesis using l by (subst poll_stat.simps) (simp add: g)
  qed
qed

lemma poll_tx:
  assumes "serial B L"
  shows "\<exists>d'. poll_stat B 1 d = Some d' \<and> tx_ready L d' \<and> pending L d' = pending L d \<and> sent L d' = sent L d"
proof (induction "tx_delay L d" arbitrary: d rule: less_induct)
  case less
  obtain v d1 where g: "bus_get B d AUX_MU_STAT = (v, d1)" by (cases "bus_get B d AUX_MU_STAT")
  have l: "pending L d1 = pending L d" "sent L d1 = sent L d" "v AND 2 \<noteq> 0 \<longrightarrow> tx_ready L d1"
      "v AND 2 = 0 \<longrightarrow> tx_delay L d1 < tx_delay L d"
    using assms g unfolding serial_def by blast+
  have two: "push_bit 1 1 = (2 :: u32)" by (simp add: push_bit_eq_mult)
  show ?case
  proof (cases "v AND 2 = 0")
    case True
    then show ?thesis using less.hyps [of d1] l by (subst poll_stat.simps) (simp add: g two)
  next
    case False
    then show ?thesis using l by (subst poll_stat.simps) (simp add: g two)
  qed
qed

lemma uart_getc_next:
  assumes "serial B L" "pending L d = c # cs"
  shows "\<exists>d'. uart_getc B d = Some (ucast c, d') \<and> pending L d' = cs \<and> sent L d' = sent L d"
proof -
  obtain d1 where d1: "poll_stat B 0 d = Some d1" "rx_ready L d1" "pending L d1 = c # cs" "sent L d1 = sent L d"
    using poll_rx [OF assms(1), of d] assms(2) by auto
  obtain v d2 where g: "bus_get B d1 AUX_MU_IO = (v, d2)" by (cases "bus_get B d1 AUX_MU_IO")
  then have "v AND 0xFF = ucast c \<and> pending L d2 = cs \<and> sent L d2 = sent L d1"
    using assms(1) d1(2,3) unfolding serial_def by blast
  then show ?thesis using d1 g by (simp add: uart_getc_def)
qed

lemma byte_word:
  "ucast c AND 0xFF = (ucast c :: u32)" "ucast (ucast c :: u32) = c" for c :: u8
proof -
  have "ucast c AND mask 8 = (ucast c :: u32)" by (rule bit_word_eqI) (auto simp: bit_simps dest: bit_imp_le_length)
  then show "ucast c AND 0xFF = (ucast c :: u32)" by (simp add: mask_eq_exp_minus_1)
  show "ucast (ucast c :: u32) = c" by (rule bit_word_eqI) (simp add: bit_simps)
qed

lemma uart_putc_appends:
  assumes "serial B L"
  shows "\<exists>d'. uart_putc B (ucast (c :: u8)) d = Some d' \<and> pending L d' = pending L d \<and> sent L d' = sent L d @ [c]"
proof -
  obtain d1 where d1: "poll_stat B 1 d = Some d1" "tx_ready L d1" "pending L d1 = pending L d" "sent L d1 = sent L d"
    using poll_tx [OF assms] by blast
  have "pending L (bus_put B d1 AUX_MU_IO (ucast c)) = pending L d1 \<and> sent L (bus_put B d1 AUX_MU_IO (ucast c)) = sent L d1 @ [c]"
    using assms d1(2) unfolding serial_def by blast
  then show ?thesis using d1 by (simp add: uart_putc_def byte_word)
qed

text \<open>
  C17: \<open>uart_getc\<close> and \<open>uart_putc\<close> implement the bytes that the protocols are written in: on a port that keeps the
  data sheet's promises, a byte program that ends on the bytes to come ends on the Pi as well, with the same result;
  its polling loops end, it has sent exactly the bytes the program writes, and has left exactly those it does not read.
\<close>

theorem exec_io_refines:
  assumes "serial B L" "run_io p (pending L d) = Some (a, out, rest)"
  shows "\<exists>d'. exec_io B p d = Some (a, d') \<and> sent L d' = sent L d @ out \<and> pending L d' = rest"
  using assms(2)
proof (induction p arbitrary: d out)
  case (Ret a)
  then show ?case by simp
next
  case (GetByte f)
  then obtain c cs where c: "pending L d = c # cs" by (cases "pending L d") auto
  obtain d1 where d1: "uart_getc B d = Some (ucast c, d1)" "pending L d1 = cs" "sent L d1 = sent L d"
    using uart_getc_next [OF assms(1) c] by blast
  then show ?case using GetByte.IH [of "f c" d1 out] GetByte.prems c by (simp add: byte_word)
next
  case (PutByte b p)
  obtain d1 where d1: "uart_putc B (ucast b) d = Some d1" "pending L d1 = pending L d" "sent L d1 = sent L d @ [b]"
    using uart_putc_appends [OF assms(1)] by blast
  then show ?case using PutByte.IH [of d1] PutByte.prems by auto
qed

text \<open>A port that is ready at every second look.\<close>

definition demo_bus :: "(u8 list \<times> u8 list \<times> bool) bus" where
  "demo_bus = \<lparr>bus_get = \<lambda>(inp, out, b) a.
       if a = AUX_MU_STAT then (if b then 3 else 0, inp, out, True)
       else if inp = [] then (0, inp, out, b) else (ucast (hd inp), tl inp, out, False),
     bus_put = \<lambda>(inp, out, b) a v. (inp, out @ [ucast v], False), bus_wait = \<lambda>d _. d, bus_wait_us = \<lambda>d _. d\<rparr>"

definition demo_line :: "(u8 list \<times> u8 list \<times> bool) line" where
  "demo_line = \<lparr>pending = fst, sent = \<lambda>(_, out, _). out, rx_ready = \<lambda>(_, _, b). b, tx_ready = \<lambda>(_, _, b). b,
     rx_delay = \<lambda>(_, _, b). if b then 0 else 1, tx_delay = \<lambda>(_, _, b). if b then 0 else 1\<rparr>"

lemma serial_demo: "serial demo_bus demo_line"
proof -
  have "AUX_MU_IO \<noteq> AUX_MU_STAT" by (simp add: AUX_MU_IO_def AUX_MU_STAT_def AUX_BASE_def)
  then show ?thesis by (auto simp: serial_def demo_bus_def demo_line_def byte_word split: if_splits)
qed

theorem exec_io_refines_witness:
  "\<exists>d'. exec_io demo_bus (get_uint (\<lambda>u. put_uint (u + 1) (Ret u))) ([1, 2, 3, 4, 5], [], False) = Some (0x04030201, d') \<and>
     fst (snd d') = [2, 2, 3, 4] \<and> fst d' = [5]"
proof -
  have "run_io (get_uint (\<lambda>u. put_uint (u + 1) (Ret u))) (pending demo_line ([1, 2, 3, 4, 5], [], False)) =
      Some (0x04030201, [2, 2, 3, 4], [5])" by code_simp
  from exec_io_refines [OF serial_demo this] show ?thesis by (auto simp: demo_line_def)
qed

end
