(* ===== verification/Pi_Kernel.thy ===== *)
theory Pi_Kernel
  imports Pi_Shell Pi_Disk Pi_Gpio
begin

text \<open>
  The kernel's \<open>notmain\<close> (pi-side/kernel/shell.c) as a whole: the serial port, the SD card, the kernel's
  address space, its process, the exception vectors and the file system are set up by the operations of the
  other theories, then the shell runs. The state that the start-up leaves is the one the theorems on system calls
  and on running files start from, and the shell comes back to it after every command.
\<close>

section \<open>Start-up\<close>

definition KERNEL_HEAP_ADDR :: u32 where "KERNEL_HEAP_ADDR = 0x00500000"

text \<open>
  What the start-up changes: the devices behind the serial port and the card, the processor and its memory, the
  tables of virtual memory, the vectors, and the processes (\<open>kernel_proc\<close> is the one at \<open>kp\<close>).
\<close>

record ('u, 'd) machine =
  m_uart :: 'u
  m_sd :: "'d sd"
  m_cpu :: cpu
  m_vm :: vm
  m_vec :: vectors
  m_procs :: "nat \<Rightarrow> process"

text \<open>
  From \<open>vm_enable\<close> to \<open>int_init\<close>; \<open>rand_val\<close> is what \<open>vm_enable\<close> draws and \<open>cpsr\<close> the status register. \<open>int_init\<close> writes
  to addresses of the first section and to the devices, which \<open>vm_enable\<close> has mapped to themselves, so it works on
  physical memory.
\<close>

definition kernel_init :: "u16 \<Rightarrow> u32 \<Rightarrow> nat \<Rightarrow> ('u, 'd) machine \<Rightarrow> (vectors \<times> kernel) res" where
  "kernel_init rand_val cpsr kp m =
     rbind (vm_enable rand_val (m_cpu m) (m_vm m)) (\<lambda>(page_tab, c, s).
     let pr = \<lparr>heap_start = KERNEL_HEAP_ADDR, heap_end = KERNEL_HEAP_ADDR, page_tab = page_tab\<rparr>;
         k = \<lparr>kcpu = c, kvm = s, procs = (m_procs m)(kp := pr), kernel_proc = None, current_proc = None\<rparr>;
         k = syscall_set_kernel_proc (Some kp) k;
         k = syscall_set_current_proc (Some kp) k
     in rbind (int_init cpsr ((m_vec m)\<lparr>vmem := phys c\<rparr>)) (\<lambda>v.
        Inr (v, k\<lparr>kcpu := (kcpu k)\<lparr>phys := vmem v\<rparr>\<rparr>)))"

text \<open>
  \<open>B\<close> is the bus of the serial port, \<open>E\<close> the interface of the card's controller, \<open>\<alpha>\<close> what its states stand for,
  \<open>p\<close> the address of the process that \<open>exec_file\<close> builds, \<open>inp\<close> the bytes that arrive. The results are the output, how the shell's
  loop ended, and the serial port and the vectors after the start-up.
\<close>

definition notmain :: "'u bus \<Rightarrow> 'd emmc \<Rightarrow> ('d \<Rightarrow> card) \<Rightarrow> u16 \<Rightarrow> u32 \<Rightarrow> (u32 \<Rightarrow> kernel \<Rightarrow> kernel res) \<Rightarrow> (nat \<Rightarrow> u32) \<Rightarrow>
    nat \<Rightarrow> nat \<Rightarrow> u8 list \<Rightarrow> ('u, 'd) machine \<Rightarrow> (u8 list \<times> ending \<times> 'u \<times> vectors) res option" where
  "notmain B E \<alpha> rand_val cpsr prog junk kp p inp m =
     (let m = m\<lparr>m_uart := uart_init B (m_uart m)\<rparr> in
      Option.bind (sd_init E (m_sd m)) (\<lambda>(r, s).
      case rbind (demand_that (r = SD_OK)) (\<lambda>_.
           rbind (kernel_init rand_val cpsr kp m) (\<lambda>(v, k).
           rbind (fat32_init (disk_dev (E, \<alpha>, s))) (\<lambda>fs.
           rbind (printk_nl ''%s'' [Text shell_ready]) (\<lambda>out. Inr (out, fs, v, k)))))
      of Inl e \<Rightarrow> Some (Inl e)
      | Inr (out, fs, v, k) \<Rightarrow>
          map_option (\<lambda>r. rbind r (\<lambda>(out', fin). Inr (out @ out', fin, m_uart m, v)))
            (shell_loop prog junk (disk_dev (E, \<alpha>, s)) fs kp p inp k)))"

section \<open>At home\<close>

text \<open>The kernel runs in its own address space, as its own process.\<close>

definition at_home :: "nat \<Rightarrow> kernel \<Rightarrow> bool" where
  "at_home kp k \<longleftrightarrow> current_proc k = Some kp \<and> page_tab (procs k kp) = \<lparr>pt_asid = 1, vaddr_map = 1\<rparr> \<and> ttbr0 (kcpu k) = 1"

definition ends_home :: "nat \<Rightarrow> ending \<Rightarrow> bool" where
  "ends_home kp fin \<longleftrightarrow> (case fin of Waiting k \<Rightarrow> at_home kp k | Loading rest k \<Rightarrow> at_home kp k | Rebooted \<Rightarrow> True)"

lemma bind_res_eq:
  "Option.bind m (case_sum (\<lambda>e. Some (Inl e)) f) = Some (Inr y) \<longleftrightarrow> (\<exists>a. m = Some (Inr a) \<and> f a = Some (Inr y))"
  by (cases m) (auto split: sum.splits)

lemma do_run_kernel:
  assumes "do_run prog junk dev fs path kp p k = Some (Inr (out, k'))"
  shows "k' = k \<or> (\<exists>entry. exec_file prog junk dev fs entry kp p k = Some (Inr k'))"
proof -
  obtain head e where r: "find_file dev fs path = Some (Inr (head, e))"
    and x: "(case e of None \<Rightarrow> Some (Inr (head, k))
       | Some entry \<Rightarrow> Option.bind (exec_file prog junk dev fs entry kp p k) (\<lambda>r. Some (rbind r (\<lambda>k. Inr (head, k))))) = Some (Inr (out, k'))"
    using assms unfolding do_run_def bind_res_eq by auto
  then show ?thesis by (cases e) (auto simp: bind_eq_Some_conv)
qed

lemma shell_command_home:
  assumes "shell_command prog junk dev fs kp p buf k = Some (Inr (Next out k'))" "keeps_tables prog" "p \<noteq> kp" "at_home kp k"
  shows "at_home kp k'"
proof -
  have "k' = k \<or> (\<exists>entry. exec_file prog junk dev fs entry kp p k = Some (Inr k'))"
    using assms(1) do_run_kernel [of prog junk dev fs "drop 4 buf" kp p k]
    by (auto simp: shell_command_def done_after_def split: if_splits)
  then show ?thesis using exec_file_home [OF _ assms(2,3)] assms(4) by (auto simp: at_home_def)
qed

lemma shell_loop_home:
  "shell_loop prog junk dev fs kp p inp k = Some (Inr (out, fin)) \<Longrightarrow> keeps_tables prog \<Longrightarrow> p \<noteq> kp \<Longrightarrow> at_home kp k \<Longrightarrow>
   ends_home kp fin"
proof (induction prog junk dev fs kp p inp k arbitrary: out rule: shell_loop.induct)
  case (1 prog junk dev fs kp p inp k)
  show ?case
  proof (cases "run_io (readline 1024 []) inp")
    case None
    then show ?thesis using "1.prems"(1,4) by (auto simp: shell_loop.simps [of prog junk dev fs kp p inp] ends_home_def)
  next
    case (Some y)
    obtain l o1 rest where y: "y = (l, o1, rest)" by (cases y)
    obtain line where l: "l = Some line"
      using "1.prems"(1) Some y by (cases l) (auto simp: shell_loop.simps [of prog junk dev fs kp p inp])
    obtain a where a: "shell_command prog junk dev fs kp p line k = Some (Inr a)"
      using "1.prems"(1) unfolding shell_loop.simps [of prog junk dev fs kp p inp] Some y l option.case prod.case bind_res_eq
      by blast
    show ?thesis
    proof (cases a)
      case (Next out1 k1)
      obtain out2 where "shell_loop prog junk dev fs kp p rest k1 = Some (Inr (out2, fin))"
        using "1.prems"(1) Some y l a Next by (auto simp: shell_loop.simps [of prog junk dev fs kp p inp])
      moreover have "at_home kp k1" using shell_command_home [OF _ "1.prems"(2-4)] a Next by blast
      ultimately show ?thesis using "1.IH" [OF Some y [symmetric] l refl a refl Next] "1.prems"(2,3) by blast
    qed (use "1.prems" Some y l a in \<open>auto simp: shell_loop.simps [of prog junk dev fs kp p inp] ends_home_def\<close>)
  qed
qed

lemma kernel_init_home:
  assumes "\<not> bit (ctrl (m_cpu m)) 0" "\<And>a. length (tt (m_vm m) a) = N_VIRT_PAGES"
    "cpsr_print_mode (cpsr AND 0x1F) \<noteq> Inl PanicFault"
  shows "\<exists>v k. kernel_init rand_val cpsr kp m = Inr (v, k) \<and> at_home kp k \<and> heap_ok kp k \<and> irq_off v"
proof -
  obtain c s where c: "vm_enable rand_val (m_cpu m) (m_vm m) = Inr (\<lparr>pt_asid = 1, vaddr_map = 1\<rparr>, c, s)"
      "bit (ctrl c) 0" "ttbr0 c = 1" "vm_wf s"
    using vm_enable_state [of "m_cpu m" "m_vm m" rand_val] assms(1,2) by blast
  obtain mode where "cpsr_print_mode (cpsr AND 0x1F) = Inr mode"
    using assms(3) by (auto simp: cpsr_print_mode_def Let_def split: if_splits)
  then obtain v where v: "int_init cpsr ((m_vec m)\<lparr>vmem := phys c\<rparr>) = Inr v" "irq_off v"
    by (simp add: int_init_def install_handlers_def Let_def)
  show ?thesis using c v
    by (simp add: kernel_init_def syscall_set_kernel_proc_def syscall_set_current_proc_def at_home_def heap_ok_def
        heap_secs_def KERNEL_HEAP_ADDR_def)
qed



end
