(* ===== verification/Pi_Load.thy ===== *)
theory Pi_Load
  imports Pi_Exec
begin

text \<open>
  What the load instructions of exec.c do to memory: carried out in an address space that keeps the pages of the file
  and of the program apart, they leave the program as its ELF file describes it. The instructions come from \<open>elf_load\<close>
  in \<open>Pi_Elf\<close>, their execution from \<open>Pi_Exec\<close>.
\<close>

section \<open>Memory of an address space\<close>

definition view :: "kernel \<Rightarrow> u32 \<Rightarrow> u8 option" where
  "view k va = vread8 (kcpu k) (kvm k) va"

text \<open>Every address of the set is mapped, and no two to the same place.\<close>

definition mapped_apart :: "u32 set \<Rightarrow> kernel \<Rightarrow> bool" where
  "mapped_apart A k \<longleftrightarrow> (\<exists>tr. inj_on tr A \<and> (\<forall>va \<in> A. vtranslate (kcpu k) (kvm k) va = Some (tr va)))"

definition only_mem :: "kernel \<Rightarrow> kernel \<Rightarrow> bool" where
  "only_mem k k' \<longleftrightarrow> (\<exists>m. k' = k\<lparr>kcpu := (kcpu k)\<lparr>phys := m\<rparr>\<rparr>)"

lemma only_mem_trans [trans]: "only_mem k k' \<Longrightarrow> only_mem k' k'' \<Longrightarrow> only_mem k k''"
  by (auto simp: only_mem_def)

lemma only_mem_refl [simp]: "only_mem k k"
  unfolding only_mem_def by (rule exI [of _ "phys (kcpu k)"]) simp

lemma only_mem_apart: "only_mem k k' \<Longrightarrow> mapped_apart A k' = mapped_apart A k"
  by (auto simp: only_mem_def mapped_apart_def)

lemma only_mem_same:
  "only_mem k k' \<Longrightarrow> procs k' = procs k \<and> current_proc k' = current_proc k \<and> kernel_proc k' = kernel_proc k \<and> kvm k' = kvm k \<and> ttbr0 (kcpu k') = ttbr0 (kcpu k)"
  by (auto simp: only_mem_def)

lemma vstore8_view:
  assumes "mapped_apart A k" "va \<in> A"
  shows "\<exists>k'. vstore8 va b k = Inr k' \<and> only_mem k k' \<and> (\<forall>x \<in> A. view k' x = (if x = va then Some b else view k x))"
proof -
  obtain tr where tr: "inj_on tr A" "\<And>x. x \<in> A \<Longrightarrow> vtranslate (kcpu k) (kvm k) x = Some (tr x)"
    using assms(1) by (auto simp: mapped_apart_def)
  let ?k = "k\<lparr>kcpu := (kcpu k)\<lparr>phys := (phys (kcpu k))(tr va := b)\<rparr>\<rparr>"
  have "vstore8 va b k = Inr ?k" using tr(2) [OF assms(2)] by (simp add: vstore8_def vwrite8_def)
  moreover have "view ?k x = (if x = va then Some b else view k x)" if "x \<in> A" for x
    using tr(2) [OF that] inj_onD [OF tr(1) _ that assms(2)] by (auto simp: view_def vread8_def)
  ultimately show ?thesis by (auto simp: only_mem_def)
qed

lemma region_nth: "i < n \<Longrightarrow> a + of_nat i \<in> region a n"
  by (auto simp: region_def)

lemma region_index: "n \<le> 4294967296 \<Longrightarrow> x \<in> region a n \<Longrightarrow> unat (x - a) < n"
  by (auto simp: region_def unat_of_nat_u32)

lemma start_notin: "n < 4294967296 \<Longrightarrow> a \<notin> region (a + 1) n"
proof
  assume n: "n < 4294967296" "a \<in> region (a + 1) n"
  then obtain i where i: "i < n" "a = a + 1 + of_nat i" by (auto simp: region_def)
  then have "of_nat (Suc i) = (0 :: u32)" by (simp add: algebra_simps)
  then have "unat (of_nat (Suc i) :: u32) = 0" by simp
  then show False using i(1) n(1) by (simp only: unat_of_nat_u32)
qed

lemma vmemcpy_view:
  assumes "mapped_apart A k" "region dst n \<subseteq> A" "region src n \<subseteq> A" "region dst n \<inter> region src n = {}" "n < 4294967296"
    "\<forall>x \<in> region src n. view k x \<noteq> None"
  shows "\<exists>k'. vmemcpy dst src n k = Inr k' \<and> only_mem k k' \<and>
    (\<forall>x \<in> A. view k' x = (if x \<in> region dst n then view k (src + (x - dst)) else view k x))"
  using assms
proof (induction n arbitrary: dst src k)
  case (Suc n)
  have r: "region dst (Suc n) = insert dst (region (dst + 1) n)" "region src (Suc n) = insert src (region (src + 1) n)"
    by (simp_all add: region_Suc)
  have d: "dst \<notin> region (dst + 1) n" using start_notin Suc.prems(5) by simp
  obtain b where b: "view k src = Some b" using Suc.prems(6) r by auto
  then have l: "vload8 src k = Inr b" by (simp add: vload8_def view_def)
  obtain k1 where k1: "vstore8 dst b k = Inr k1" "only_mem k k1" "\<And>x. x \<in> A \<Longrightarrow> view k1 x = (if x = dst then Some b else view k x)"
    using vstore8_view [OF Suc.prems(1), of dst b] Suc.prems(2) r by blast
  have "\<forall>x \<in> region (src + 1) n. view k1 x \<noteq> None" using Suc.prems(3,6) k1(3) r by auto
  then obtain k2 where k2: "vmemcpy (dst + 1) (src + 1) n k1 = Inr k2" "only_mem k1 k2"
      "\<And>x. x \<in> A \<Longrightarrow> view k2 x = (if x \<in> region (dst + 1) n then view k1 (src + 1 + (x - (dst + 1))) else view k1 x)"
    using Suc.IH [of k1 "dst + 1" "src + 1"] Suc.prems r only_mem_apart [OF k1(2)] by auto
  have "view k2 x = (if x \<in> region dst (Suc n) then view k (src + (x - dst)) else view k x)" if "x \<in> A" for x
  proof (cases "x \<in> region (dst + 1) n")
    case True
    then obtain i where i: "i < n" "x = dst + 1 + of_nat i" by (auto simp: region_def)
    have m: "src + (x - dst) = src + 1 + of_nat i" using i(2) by simp
    have "src + (x - dst) \<in> region src (Suc n)" unfolding m r(2) by (rule insertI2) (rule region_nth [OF i(1)])
    moreover have "dst \<in> region dst (Suc n)" using r(1) by simp
    ultimately have a: "src + (x - dst) \<in> A" "src + (x - dst) \<noteq> dst" using Suc.prems(3,4) by (blast, metis IntI empty_iff)
    have "src + 1 + (x - (dst + 1)) = src + (x - dst)" by simp
    then have "view k2 x = view k1 (src + (x - dst))" using k2(3) [OF that] True by simp
    also have "\<dots> = view k (src + (x - dst))" using k1(3) [OF a(1)] a(2) by simp
    finally show ?thesis using True r by simp
  next
    case False
    then show ?thesis using k2(3) [OF that] k1(3) [OF that] d r b by auto
  qed
  then show ?case using l k1 k2 only_mem_trans by auto
qed simp

lemma region_interval:
  assumes "unat p + unat n < 4294967296"
  shows "{p..<p + n} = region p (unat n)"
proof -
  have u: "unat (p + n) = unat p + unat n" using assms by (simp add: unat_word_ariths)
  show ?thesis
  proof (intro equalityI subsetI)
    fix x assume x: "x \<in> {p..<p + n}"
    then have "unat (x - p) < unat n" using u by (auto simp: word_le_nat_alt word_less_nat_alt unat_sub)
    then have "p + of_nat (unat (x - p)) \<in> region p (unat n)" by (rule region_nth)
    then show "x \<in> region p (unat n)" by simp
  next
    fix x assume "x \<in> region p (unat n)"
    then obtain i where i: "i < unat n" "x = p + of_nat i" by (auto simp: region_def)
    have "unat x = unat p + i" using i assms by (simp add: unat_word_ariths unat_of_nat_u32)
    then show "x \<in> {p..<p + n}" using i(1) u by (simp add: word_le_nat_alt word_less_nat_alt)
  qed
qed

lemma vmemset_fills:
  assumes "mapped_apart A k" "unat p + unat n < 4294967296" "region p (unat n) \<subseteq> A"
  shows "\<exists>k'. vmemset p b n k = Inr k' \<and> only_mem k k' \<and>
    (\<forall>x \<in> A. view k' x = (if x \<in> region p (unat n) then Some b else view k x))"
proof -
  obtain tr where tr: "inj_on tr A" "\<And>x. x \<in> A \<Longrightarrow> vtranslate (kcpu k) (kvm k) x = Some (tr x)"
    using assms(1) by (auto simp: mapped_apart_def)
  note i = region_interval [OF assms(2)]
  let ?k = "set_phys (tr ` region p (unat n)) b k"
  have "vmemset_loop (kvm k) p (p + n) b (kcpu k) =
      Inr ((kcpu k)\<lparr>phys := \<lambda>x. if x \<in> tr ` {p..<p + n} then b else phys (kcpu k) x\<rparr>)"
    by (rule vmemset_loop_eq, rule tr(2)) (use assms(3) i in blast)
  then have "vmemset p b n k = Inr ?k" by (simp add: vmemset_def set_phys_def i)
  moreover have "only_mem k ?k" by (auto simp: only_mem_def set_phys_def)
  moreover have "view ?k x = (if x \<in> region p (unat n) then Some b else view k x)" if "x \<in> A" for x
    using tr(2) [OF that] inj_onD [OF tr(1) _ that] assms(3) by (auto simp: view_def vread8_def)
  ultimately show ?thesis by blast
qed

section \<open>The instructions of a program\<close>

text \<open>The addresses that an instruction writes, and the bytes that the file wants there.\<close>

fun target :: "load_instr \<Rightarrow> u32 set" where
  "target (LOAD_COPY _ dst n) = region dst (unat n)"
| "target (LOAD_ZERO _ dst n) = region dst (unat n)"
| "target (LOAD_JUMP _ _) = {}"

fun content :: "u8 list \<Rightarrow> load_instr \<Rightarrow> u32 \<Rightarrow> u8" where
  "content data (LOAD_COPY src dst _) x = data ! (unat (src - KERNEL_LOAD_ADDR) + unat (x - dst))"
| "content data (LOAD_ZERO _ _ _) x = 0"
| "content data (LOAD_JUMP _ _) x = 0"

text \<open>A segment lies inside the file, a cleared block does not wrap around.\<close>

fun within :: "nat \<Rightarrow> load_instr \<Rightarrow> bool" where
  "within len (LOAD_COPY src _ n) \<longleftrightarrow> unat (src - KERNEL_LOAD_ADDR) + unat n \<le> len"
| "within len (LOAD_ZERO _ dst n) \<longleftrightarrow> unat dst + unat n < 4294967296"
| "within len (LOAD_JUMP _ _) \<longleftrightarrow> True"

definition file_image :: "u8 list \<Rightarrow> u32 set" where
  "file_image data = region PROC_LOAD_ADDR (length data)"

definition holds_image :: "u8 list \<Rightarrow> kernel \<Rightarrow> bool" where
  "holds_image data k \<longleftrightarrow> (\<forall>i < length data. view k (PROC_LOAD_ADDR + of_nat i) = Some (data ! i))"

text \<open>The layout of a program: its blocks lie in the mapped part of the space, apart from the file and from each other.\<close>

definition well_placed :: "u32 set \<Rightarrow> u8 list \<Rightarrow> load_instr list \<Rightarrow> bool" where
  "well_placed A data ls \<longleftrightarrow>
     file_image data \<subseteq> A \<and> length data < 4294967296 \<and> (\<forall>i \<in> set ls. within (length data) i \<and> target i \<subseteq> A - file_image data) \<and>
     sorted_wrt (\<lambda>i j. target i \<inter> target j = {}) ls"

lemma load_step:
  assumes "holds_image data k" "mapped_apart A k" "file_image data \<subseteq> A" "length data < 4294967296"
    "within (length data) i" "target i \<subseteq> A - file_image data" "\<not> is_LOAD_JUMP i"
  shows "\<exists>k'. exec_load_instr prog p i k = Inr (True, k') \<and> only_mem k k' \<and>
    (\<forall>x \<in> A. view k' x = (if x \<in> target i then Some (content data i x) else view k x))"
proof (cases i)
  case (LOAD_COPY src dst n)
  let ?src = "src + (PROC_LOAD_ADDR - KERNEL_LOAD_ADDR)" and ?o = "unat (src - KERNEL_LOAD_ADDR)"
  have fit: "?o + unat n \<le> length data" using assms(5) LOAD_COPY by simp
  have src: "?src = PROC_LOAD_ADDR + of_nat ?o" by simp
  have at: "?src + of_nat j = PROC_LOAD_ADDR + of_nat (?o + j)" for j unfolding src by (simp add: algebra_simps)
  have bytes: "view k (?src + of_nat j) = Some (data ! (?o + j))" if "j < unat n" for j
    unfolding at using assms(1) fit that by (simp add: holds_image_def del: of_nat_add)
  have sub: "region ?src (unat n) \<subseteq> file_image data"
    unfolding src file_image_def by (rule region_sub [OF fit])
  have some: "\<forall>x \<in> region ?src (unat n). view k x \<noteq> None" using bytes by (auto simp: region_def)
  have apart: "region dst (unat n) \<inter> region ?src (unat n) = {}" using assms(6) sub LOAD_COPY by auto
  have n: "unat n < 4294967296" using fit assms(4) by simp
  have "region dst (unat n) \<subseteq> A" "region ?src (unat n) \<subseteq> A" using assms(3,6) LOAD_COPY sub by auto
  from vmemcpy_view [OF assms(2) this apart n some] obtain k' where k': "vmemcpy dst ?src (unat n) k = Inr k'" "only_mem k k'"
    "\<And>x. x \<in> A \<Longrightarrow> view k' x = (if x \<in> region dst (unat n) then view k (?src + (x - dst)) else view k x)"
    by blast
  have "view k (?src + (x - dst)) = Some (content data i x)" if "x \<in> region dst (unat n)" for x
    using bytes [OF region_index [OF less_imp_le [OF n] that]] LOAD_COPY by simp
  then show ?thesis using k' LOAD_COPY by (auto simp: exec_load_instr_def)
next
  case (LOAD_ZERO src dst n)
  obtain k' where "vmemset dst 0 n k = Inr k'" "only_mem k k'"
    "\<And>x. x \<in> A \<Longrightarrow> view k' x = (if x \<in> region dst (unat n) then Some 0 else view k x)"
    using vmemset_fills [OF assms(2), of dst n 0] assms(5,6) LOAD_ZERO by auto
  then show ?thesis using LOAD_ZERO by (auto simp: exec_load_instr_def)
qed (use assms(7) in simp)

lemma holds_image_keep:
  assumes "holds_image data k" "file_image data \<subseteq> A" "\<And>x. x \<in> file_image data \<Longrightarrow> view k' x = view k x"
  shows "holds_image data k'"
  using assms(1,3) region_nth by (auto simp: holds_image_def file_image_def)

lemma load_steps:
  assumes "holds_image data k" "mapped_apart A k" "well_placed A data is" "\<forall>i \<in> set is. \<not> is_LOAD_JUMP i"
  shows "\<exists>k'. exec_instrs prog p (is @ js) k = exec_instrs prog p js k' \<and> only_mem k k' \<and>
    (\<forall>x \<in> A. (\<forall>i \<in> set is. x \<notin> target i) \<longrightarrow> view k' x = view k x) \<and>
    (\<forall>i \<in> set is. \<forall>x \<in> target i. view k' x = Some (content data i x))"
  using assms
proof (induction "is" arbitrary: k)
  case (Cons i "is")
  then obtain k1 where k1: "exec_load_instr prog p i k = Inr (True, k1)" "only_mem k k1"
    "\<And>x. x \<in> A \<Longrightarrow> view k1 x = (if x \<in> target i then Some (content data i x) else view k x)"
    using load_step [of data k A i prog p] by (auto simp: well_placed_def)
  have t: "target i \<subseteq> A - file_image data" "file_image data \<subseteq> A" "\<And>j. j \<in> set is \<Longrightarrow> target i \<inter> target j = {}"
    using Cons.prems(3) by (auto simp: well_placed_def)
  have "view k1 x = view k x" if "x \<in> file_image data" for x
    using k1(3) [of x] t(1) subsetD [OF t(2) that] that by (auto split: if_splits)
  then have "holds_image data k1" using holds_image_keep [OF Cons.prems(1) t(2)] by blast
  moreover have "mapped_apart A k1" using Cons.prems(2) only_mem_apart [OF k1(2)] by simp
  moreover have "well_placed A data is" using Cons.prems(3) by (simp add: well_placed_def)
  ultimately obtain k2 where k2: "exec_instrs prog p (is @ js) k1 = exec_instrs prog p js k2" "only_mem k1 k2"
    "\<And>x. x \<in> A \<Longrightarrow> (\<forall>i \<in> set is. x \<notin> target i) \<Longrightarrow> view k2 x = view k1 x"
    "\<And>j x. j \<in> set is \<Longrightarrow> x \<in> target j \<Longrightarrow> view k2 x = Some (content data j x)"
    using Cons.IH [of k1] Cons.prems(4) by auto
  have "view k2 x = Some (content data i x)" if "x \<in> target i" for x
    using k2(3) [of x] k1(3) [of x] t(1,3) that by fastforce
  then show ?case using k1 k2 only_mem_trans [OF k1(2) k2(2)] by (intro exI [of _ k2]) auto
qed auto

section \<open>The program at its entry\<close>

text \<open>Memory holds the program of the headers: segments as in the file, bss sections zero.\<close>

definition program_at :: "u8 list \<Rightarrow> Elf32_Phdr list \<Rightarrow> Elf32_Shdr list \<Rightarrow> Elf32_Shdr \<Rightarrow> kernel \<Rightarrow> bool" where
  "program_at data phs shs strsh k \<longleftrightarrow>
     (\<forall>ph \<in> set phs. \<forall>i < unat (p_filesz ph). view k (p_vaddr ph + of_nat i) = Some (data ! (unat (p_offset ph) + i))) \<and>
     (\<forall>sh \<in> set shs. is_bss data (sh_offset strsh) sh = Inr True \<longrightarrow>
        (\<forall>i < unat (sh_size sh). view k (sh_addr sh + of_nat i) = Some 0))"

lemma program_at_mem: "kcpu k = kcpu k' \<Longrightarrow> kvm k = kvm k' \<Longrightarrow> program_at data phs shs strsh k = program_at data phs shs strsh k'"
  by (simp add: program_at_def view_def)

lemma blocks_make_program:
  assumes "\<forall>i \<in> set (map (copy_instr KERNEL_LOAD_ADDR) phs @ zs). \<forall>x \<in> target i. view k x = Some (content data i x)"
    "list_all is_LOAD_ZERO zs"
    "map (\<lambda>z. (dst_addr z, isize z)) zs = map (\<lambda>sh. (sh_addr sh, sh_size sh)) (filter (\<lambda>sh. is_bss data (sh_offset strsh) sh = Inr True) shs)"
  shows "program_at data phs shs strsh k"
  unfolding program_at_def
proof (intro conjI ballI allI impI)
  fix ph i assume ph: "ph \<in> set phs" "i < unat (p_filesz ph)"
  have "copy_instr KERNEL_LOAD_ADDR ph \<in> set (map (copy_instr KERNEL_LOAD_ADDR) phs @ zs)" using ph(1) by simp
  moreover have "p_vaddr ph + of_nat i \<in> target (copy_instr KERNEL_LOAD_ADDR ph)"
    using region_nth [OF ph(2)] by (simp add: copy_instr_def)
  ultimately have "view k (p_vaddr ph + of_nat i) = Some (content data (copy_instr KERNEL_LOAD_ADDR ph) (p_vaddr ph + of_nat i))"
    using assms(1) by blast
  moreover have "i < 4294967296" using ph(2) unsigned_less [of "p_filesz ph", where 'a = nat] by simp
  ultimately show "view k (p_vaddr ph + of_nat i) = Some (data ! (unat (p_offset ph) + i))"
    by (simp add: copy_instr_def unat_of_nat_u32)
next
  fix sh i assume sh: "sh \<in> set shs" "is_bss data (sh_offset strsh) sh = Inr True" "i < unat (sh_size sh)"
  then have "(sh_addr sh, sh_size sh) \<in> set (map (\<lambda>z. (dst_addr z, isize z)) zs)" unfolding assms(3) by auto
  then obtain z where z: "z \<in> set zs" "dst_addr z = sh_addr sh" "isize z = sh_size sh" by auto
  have "is_LOAD_ZERO z" using assms(2) z(1) by (simp add: list_all_iff)
  then obtain a where "z = LOAD_ZERO a (sh_addr sh) (sh_size sh)" using z(2,3) by (metis load_instr.collapse(2))
  then have "sh_addr sh + of_nat i \<in> target z" "content data z (sh_addr sh + of_nat i) = 0" using region_nth [OF sh(3)] by simp_all
  then show "view k (sh_addr sh + of_nat i) = Some 0" using assms(1) z(1) by force
qed

text \<open>
  When \<open>elf_load\<close> has accepted a file, and the blocks of its program lie in mapped memory apart from the file and
  from each other, the load instructions enter the program at its text section, laid out and with an empty heap; when
  it returns, the old process is current again.
\<close>

lemma program_starts_laid_out:
  assumes "elf_load 256 junk KERNEL_LOAD_ADDR data ndata proc s = Inr (Some ls, proc', s')"
    and "heap_start (procs k p) = heap_start proc'" "heap_start proc' \<noteq> 0"
    and "mapped_apart A k" "holds_image data k" "well_placed A data ls"
  shows "\<exists>phs shs strsh zs j sh k1. loads_program 256 KERNEL_LOAD_ADDR data phs shs strsh zs j sh ls (heap_start proc') \<and>
    exec_instrs prog p ls k = rbind (prog (sh_addr sh) k1) (\<lambda>k2. Inr (syscall_set_current_proc (current_proc k) k2)) \<and>
    program_at data phs shs strsh k1 \<and> current_proc k1 = Some p \<and> ttbr0 (kcpu k1) = ttbr0 (kcpu k) \<and>
    heap_start (procs k1 p) = heap_start proc' \<and> heap_end (procs k1 p) = heap_start proc'"
proof -
  obtain phs shs strsh zs j sh where l: "loads_program 256 KERNEL_LOAD_ADDR data phs shs strsh zs j sh ls (heap_start proc')"
    using elf_load_spec [OF assms(1)] by blast
  let ?is = "map (copy_instr KERNEL_LOAD_ADDR) phs @ zs" and ?h = "heap_start proc'"
  have ls: "ls = ?is @ [LOAD_JUMP j (sh_addr sh)]" and z: "list_all is_LOAD_ZERO zs"
    and b: "map (\<lambda>z. (dst_addr z, isize z)) zs = map (\<lambda>sh. (sh_addr sh, sh_size sh)) (filter (\<lambda>sh. is_bss data (sh_offset strsh) sh = Inr True) shs)"
    using l by (simp_all add: loads_program_def Let_def)
  have "well_placed A data ?is" using assms(6) by (auto simp: ls well_placed_def sorted_wrt_append)
  moreover have "\<forall>i \<in> set ?is. \<not> is_LOAD_JUMP i" using z by (auto simp: copy_instr_def list_all_iff load_instr.disc_eq_case split: load_instr.splits)
  ultimately obtain k1 where k1: "exec_instrs prog p ls k = exec_instrs prog p [LOAD_JUMP j (sh_addr sh)] k1" "only_mem k k1"
    "\<forall>i \<in> set ?is. \<forall>x \<in> target i. view k1 x = Some (content data i x)"
    using load_steps [OF assms(5,4)] unfolding ls by blast
  let ?k = "syscall_set_current_proc (Some p) (set_proc p ((procs k1 p)\<lparr>heap_end := ?h\<rparr>) k1)"
  have same: "procs k1 = procs k" "current_proc k1 = current_proc k" "ttbr0 (kcpu k1) = ttbr0 (kcpu k)"
    using only_mem_same [OF k1(2)] by auto
  have "exec_instrs prog p ls k = rbind (prog (sh_addr sh) ?k) (\<lambda>k2. Inr (syscall_set_current_proc (current_proc k) k2))"
    unfolding k1(1) using assms(2,3) same
    by (cases "prog (sh_addr sh) ?k") (simp_all add: exec_load_instr_def syscall_get_current_proc_def set_proc_def)
  moreover have "program_at data phs shs strsh ?k"
    using blocks_make_program [OF k1(3) z b] program_at_mem [of ?k k1] by (simp add: syscall_set_current_proc_def set_proc_def)
  ultimately show ?thesis using l assms(2) same
    by (intro exI [of _ phs] exI [of _ shs] exI [of _ strsh] exI [of _ zs] exI [of _ j] exI [of _ sh] exI [of _ ?k])
      (simp add: syscall_set_current_proc_def set_proc_def)
qed

end
