(* ===== verification/Pi_Run.thy ===== *)
theory Pi_Run
  imports Pi_Load
begin

text \<open>
  Running a program from the disk, from the directory entry to the first instruction: the file is read and copied to
  fresh sections of the kernel (exec.c), the sections are shared with the new address space, the ELF loader maps the
  program beside them (elf.c, vm.c), and the load instructions put it together. No code of its own; the theory
  connects \<open>Pi_Vm\<close>, \<open>Pi_Fs\<close>, \<open>Pi_Elf\<close>, \<open>Pi_Exec\<close> and \<open>Pi_Load\<close>.
\<close>

section \<open>Virtual sections with a physical section of their own\<close>

definition backed :: "nat \<Rightarrow> nat set \<Rightarrow> vm \<Rightarrow> bool" where
  "backed t V s \<longleftrightarrow> inj_on (\<lambda>v. fld_base (tt s t ! v)) V \<and>
     (\<forall>v \<in> V. fld_base (tt s t ! v) < N_PHYS_PAGES \<and> asid_map s ! fld_base (tt s t ! v) \<noteq> 0 \<and>
        tt s t ! v = section_fld False (push_bit 20 (of_nat (fld_base (tt s t ! v)))))"

definition in_secs :: "nat set \<Rightarrow> u32 set" where
  "in_secs V = {va. sec va \<in> V}"

lemma backed_translate:
  assumes "backed (ttbr0 (kcpu k)) V (kvm k)" "bit (ctrl (kcpu k)) 0" "va \<in> in_secs V"
  shows "vtranslate (kcpu k) (kvm k) va = Some (paddr (fld_base (tt (kvm k) (ttbr0 (kcpu k)) ! sec va)) va)"
proof -
  let ?f = "tt (kvm k) (ttbr0 (kcpu k)) ! sec va"
  have f: "fld_base ?f < N_PHYS_PAGES" "?f = section_fld False (push_bit 20 (of_nat (fld_base ?f)))"
    using assms(1,3) by (auto simp: backed_def in_secs_def)
  then have "section_translate ?f va = Some (paddr (fld_base ?f) va)"
    using section_translate_paddr [of "fld_base ?f" False va] by (simp add: vm_simps)
  then show ?thesis using assms(2) by (simp add: vtranslate_def)
qed

lemma backed_apart:
  assumes "backed (ttbr0 (kcpu k)) V (kvm k)" "bit (ctrl (kcpu k)) 0"
  shows "mapped_apart (in_secs V) k"
  unfolding mapped_apart_def
proof (intro exI conjI ballI)
  let ?b = "\<lambda>v. fld_base (tt (kvm k) (ttbr0 (kcpu k)) ! v)"
  show "vtranslate (kcpu k) (kvm k) va = Some (paddr (?b (sec va)) va)" if "va \<in> in_secs V" for va
    using backed_translate [OF assms that] .
  show "inj_on (\<lambda>va. paddr (?b (sec va)) va) (in_secs V)"
  proof (rule inj_onI)
    fix x y assume x: "x \<in> in_secs V" and y: "y \<in> in_secs V" and e: "paddr (?b (sec x)) x = paddr (?b (sec y)) y"
    have "?b (sec x) < 4096" "?b (sec y) < 4096" using assms(1) x y by (auto simp: backed_def in_secs_def vm_simps)
    from paddr_inj [OF e this] have e: "?b (sec x) = ?b (sec y)" "take_bit 20 x = take_bit 20 y" by auto
    have "sec x = sec y" using assms(1) x y e(1) by (auto simp: backed_def in_secs_def dest: inj_onD)
    then have "drop_bit 20 x = drop_bit 20 y" by (simp only: word_unat_eq_iff)
    then show "x = y" using e(2) split_addr [of x] split_addr [of y] by metis
  qed
qed

text \<open>More sections have been mapped in one table; everything else is as it was.\<close>

definition grown :: "page_table \<Rightarrow> nat set \<Rightarrow> nat set \<Rightarrow> vm \<Rightarrow> vm \<Rightarrow> bool" where
  "grown pt V W s s' \<longleftrightarrow> vm_wf s' \<and> backed (vaddr_map pt) (V \<union> W) s' \<and>
     (\<forall>b v. b \<noteq> vaddr_map pt \<or> v \<notin> W \<longrightarrow> tt s' b ! v = tt s b ! v)"

lemma grown_refl: "vm_wf s \<Longrightarrow> backed (vaddr_map pt) V s \<Longrightarrow> grown pt V {} s s"
  by (simp add: grown_def)

lemma grown_trans: "grown pt V W s s1 \<Longrightarrow> grown pt (V \<union> W) W' s1 s2 \<Longrightarrow> grown pt V (W \<union> W') s s2"
  by (auto simp: grown_def Un_assoc)

lemma backed_fresh:
  assumes b: "backed (vaddr_map pt) V s" and f: "mapped_fresh pt W f s s'" and a: "pt_asid pt \<noteq> 0"
  shows "grown pt V W s s'"
proof -
  let ?t = "vaddr_map pt"
  have fr: "f v < N_PHYS_PAGES" "asid_map s ! f v = 0" if "v \<in> W" for v
    using f that by (auto simp: mapped_fresh_def free_pages_def)
  have new: "tt s' ?t ! v = section_fld False (push_bit 20 (of_nat (f v)))" "fld_base (tt s' ?t ! v) = f v" if "v \<in> W" for v
    using f that fr(1) [OF that] by (auto simp: mapped_fresh_def vm_simps)
  have old: "tt s' ?t ! v = tt s ?t ! v" if "v \<notin> W" for v using f that by (simp add: mapped_fresh_def)
  have own: "asid_map s' ! i = (if i \<in> f ` W then pt_asid pt else asid_map s ! i)" if "i < N_PHYS_PAGES" for i
    using f that by (simp add: mapped_fresh_def)
  have apart: "fld_base (tt s ?t ! v) \<notin> f ` W" if "v \<in> V" for v
    using b that fr(2) by (auto simp: backed_def)
  have "inj_on (\<lambda>v. fld_base (tt s' ?t ! v)) (V \<union> W)"
  proof (rule inj_onI)
    fix v w assume v: "v \<in> V \<union> W" and w: "w \<in> V \<union> W" and e: "fld_base (tt s' ?t ! v) = fld_base (tt s' ?t ! w)"
    show "v = w"
    proof (cases "v \<in> W \<longleftrightarrow> w \<in> W")
      case True
      then show ?thesis using e v w new(2) old b f by (cases "v \<in> W") (auto simp: backed_def mapped_fresh_def dest: inj_onD)
    next
      case False
      then show ?thesis using e v w new(2) old apart by (cases "v \<in> W") (auto, metis imageI)
    qed
  qed
  moreover have "fld_base (tt s' ?t ! v) < N_PHYS_PAGES \<and> asid_map s' ! fld_base (tt s' ?t ! v) \<noteq> 0 \<and>
        tt s' ?t ! v = section_fld False (push_bit 20 (of_nat (fld_base (tt s' ?t ! v))))" if "v \<in> V \<union> W" for v
    using that new fr own old a b apart [of v] by (cases "v \<in> W") (auto simp: backed_def)
  moreover have "vm_wf s'" "tt s' b ! v = tt s b ! v" if "b \<noteq> ?t \<or> v \<notin> W" for b v
    using f that by (auto simp: mapped_fresh_def)
  ultimately show ?thesis using f unfolding grown_def backed_def mapped_fresh_def by blast
qed

lemma grown_map:
  assumes "vm_wf s" "backed (vaddr_map pt) V s" "pt_asid pt \<noteq> 0" "mmu_map_to_mem pt addr sz sync s = Inr s'"
  shows "grown pt V (pages_to_map addr sz) s s'"
  using mmu_map_to_mem_Inr [OF assms(1,3,4)] backed_fresh [OF assms(2) _ assms(3)] by blast

section \<open>What elf_load maps\<close>

fun instr_pages :: "load_instr \<Rightarrow> nat set" where
  "instr_pages (LOAD_COPY _ dst n) = pages_to_map dst n"
| "instr_pages (LOAD_ZERO _ dst n) = pages_to_map dst n"
| "instr_pages (LOAD_JUMP _ _) = {}"

definition program_pages :: "load_instr list \<Rightarrow> nat set" where
  "program_pages ls = (\<Union>i \<in> set ls. instr_pages i)"

lemma program_pages_simps [simp]:
  "program_pages [] = {}" "program_pages (i # is) = instr_pages i \<union> program_pages is"
  "program_pages (is @ js) = program_pages is \<union> program_pages js"
  by (simp_all add: program_pages_def)

lemma load_segments_maps:
  assumes "load_segments cap base pt seg is ls s = Inr (Some ls', s')" "pt_asid pt \<noteq> 0" "vm_wf s" "backed (vaddr_map pt) V s"
  shows "\<exists>zs. ls' = ls @ zs \<and> grown pt V (program_pages zs) s s'"
  using assms
proof (induction "is" arbitrary: ls s V)
  case (Cons i "is")
  let ?c = "\<lambda>ph :: Elf32_Phdr. LOAD_COPY (base + p_offset ph) (p_vaddr ph) (p_filesz ph)"
  obtain ph :: Elf32_Phdr and s1 where m: "mmu_map_to_mem pt (p_vaddr ph) (p_filesz ph) False s = Inr s1"
    and rest: "load_segments cap base pt seg is (ls @ [?c ph]) s1 = Inr (Some ls', s')"
    using Cons.prems(1) by (auto simp: add_instr_def split: if_splits)
  note g = grown_map [OF Cons.prems(3,4,2) m]
  then have "vm_wf s1" "backed (vaddr_map pt) (V \<union> pages_to_map (p_vaddr ph) (p_filesz ph)) s1" by (simp_all add: grown_def)
  from Cons.IH [OF rest Cons.prems(2) this] obtain zs where zs: "ls' = (ls @ [?c ph]) @ zs"
    "grown pt (V \<union> pages_to_map (p_vaddr ph) (p_filesz ph)) (program_pages zs) s1 s'" by blast
  then show ?case using grown_trans [OF g zs(2)] by (intro exI [of _ "?c ph # zs"]) simp
qed (auto intro: grown_refl)

lemma init_bss_maps:
  assumes "init_bss_sections cap junk pt data strtab hdr is ls s = Inr (ls', s')" "pt_asid pt \<noteq> 0" "vm_wf s" "backed (vaddr_map pt) V s"
  shows "\<exists>zs. ls' = ls @ zs \<and> grown pt V (program_pages zs) s s'"
  using assms
proof (induction "is" arbitrary: ls s V)
  case (Cons i "is")
  then obtain sh bss where sh: "hdr i = Inr sh" "is_bss data strtab sh = Inr bss" by auto
  show ?case
  proof (cases bss)
    case True
    let ?z = "LOAD_ZERO (junk (length ls)) (sh_addr sh) (sh_size sh)"
    obtain s1 where m: "mmu_map_to_mem pt (sh_addr sh) (sh_size sh) False s = Inr s1"
      and rest: "init_bss_sections cap junk pt data strtab hdr is (ls @ [?z]) s1 = Inr (ls', s')"
      using Cons.prems(1) sh True by (auto simp: add_instr_def)
    note g = grown_map [OF Cons.prems(3,4,2) m]
    then have "vm_wf s1" "backed (vaddr_map pt) (V \<union> pages_to_map (sh_addr sh) (sh_size sh)) s1" by (simp_all add: grown_def)
    from Cons.IH [OF rest Cons.prems(2) this] obtain zs where zs: "ls' = (ls @ [?z]) @ zs"
      "grown pt (V \<union> pages_to_map (sh_addr sh) (sh_size sh)) (program_pages zs) s1 s'" by blast
    then show ?thesis using grown_trans [OF g zs(2)] by (intro exI [of _ "?z # zs"]) simp
  next
    case False
    then show ?thesis using Cons.IH [of ls s V] Cons.prems sh by simp
  qed
qed (auto intro: grown_refl)

lemma elf_load_maps:
  assumes "elf_load cap junk base data n proc s = Inr (Some ls, proc', s')" "pt_asid (page_tab proc) \<noteq> 0" "vm_wf s"
    and "backed (vaddr_map (page_tab proc)) V s"
  shows "grown (page_tab proc) V (program_pages ls) s s'"
proof -
  let ?pt = "page_tab proc"
  obtain strsh :: Elf32_Shdr and ls1 s1 where seg: "load_segments cap base ?pt (phdr_at data (e_phoff (ehdr_of data))) [0..<unat (e_phnum (ehdr_of data))] [] s = Inr (Some ls1, s1)"
    and fin: "finish_load cap junk data (sh_offset strsh) (shdr_at data (e_shoff (ehdr_of data))) (unat (e_shnum (ehdr_of data))) ls1 proc s1 = Inr (Some ls, proc', s')"
    using assms(1) by (auto simp: elf_load_def Let_def split: if_splits option.splits)
  have g: "grown ?pt V (program_pages ls1) s s1" using load_segments_maps [OF seg assms(2-4)] by auto
  obtain ls2 j a where bss: "init_bss_sections cap junk ?pt data (sh_offset strsh) (shdr_at data (e_shoff (ehdr_of data)))
      [0..<unat (e_shnum (ehdr_of data))] ls1 s1 = Inr (ls2, s')" and ls: "ls = ls2 @ [LOAD_JUMP j a]"
    using fin by (auto simp: finish_load_def Let_def add_instr_def split: if_splits option.splits)
  have "vm_wf s1" "backed (vaddr_map ?pt) (V \<union> program_pages ls1) s1" using g by (auto simp: grown_def)
  from init_bss_maps [OF bss assms(2) this] obtain zs where "ls2 = ls1 @ zs"
    "grown ?pt (V \<union> program_pages ls1) (program_pages zs) s1 s'" by blast
  then show ?thesis using grown_trans [OF g] ls by simp
qed

section \<open>The file in both address spaces\<close>

lemma vstore_bytes_view:
  assumes "mapped_apart A k" "region va (length bs) \<subseteq> A" "length bs < 4294967296"
  shows "\<exists>k'. vstore_bytes va bs k = Inr k' \<and> only_mem k k' \<and>
    (\<forall>i < length bs. view k' (va + of_nat i) = Some (bs ! i)) \<and> (\<forall>x \<in> A. x \<notin> region va (length bs) \<longrightarrow> view k' x = view k x)"
  using assms
proof (induction bs arbitrary: va k)
  case (Cons b bs)
  have r: "region va (length (b # bs)) = insert va (region (va + 1) (length bs))" by (simp add: region_Suc)
  have n: "va \<notin> region (va + 1) (length bs)" using start_notin Cons.prems(3) by simp
  obtain k1 where k1: "vstore8 va b k = Inr k1" "only_mem k k1" "\<And>x. x \<in> A \<Longrightarrow> view k1 x = (if x = va then Some b else view k x)"
    using vstore8_view [OF Cons.prems(1), of va b] Cons.prems(2) r by blast
  obtain k2 where k2: "vstore_bytes (va + 1) bs k1 = Inr k2" "only_mem k1 k2"
    "\<And>i. i < length bs \<Longrightarrow> view k2 (va + 1 + of_nat i) = Some (bs ! i)"
    "\<And>x. x \<in> A \<Longrightarrow> x \<notin> region (va + 1) (length bs) \<Longrightarrow> view k2 x = view k1 x"
    using Cons.IH [of k1 "va + 1"] Cons.prems r only_mem_apart [OF k1(2)] by auto
  have "view k2 (va + of_nat i) = Some ((b # bs) ! i)" if "i < length (b # bs)" for i
  proof (cases i)
    case 0
    have "va \<in> A" using Cons.prems(2) r by simp
    then show ?thesis using k2(4) [OF _ n] k1(3) 0 by simp
  next
    case (Suc j)
    then show ?thesis using k2(3) [of j] that by (simp add: ac_simps)
  qed
  moreover have "view k2 x = view k x" if "x \<in> A" "x \<notin> region va (length (b # bs))" for x
    using that k2(4) k1(3) r by auto
  ultimately show ?case using k1(1) k2(1) only_mem_trans [OF k1(2) k2(2)] by (intro exI [of _ k2]) auto
qed simp

lemma collect_nth: "collect f is = Inr xs \<Longrightarrow> length xs = length is \<and> (\<forall>j < length is. f (is ! j) = Inr (xs ! j))"
proof (induction "is" arbitrary: xs)
  case (Cons i "is")
  then obtain x ys where "f i = Inr x" "collect f is = Inr ys" "xs = x # ys" by auto
  then show ?case using Cons.IH [of ys] by (auto simp: less_Suc_eq_0_disj)
qed simp

lemma load_addr: "push_bit 20 (of_nat page) - KERNEL_LOAD_ADDR + PROC_LOAD_ADDR = push_bit 20 (of_nat (page + 0x700))"
  by (simp add: KERNEL_LOAD_ADDR_def PROC_LOAD_ADDR_def push_bit_eq_mult algebra_simps)

lemma share_section:
  assumes "fld_base f < 4096" "f = section_fld False (push_bit 20 (of_nat (fld_base f)))"
  shows "mmu_map_section pt (push_bit 20 (of_nat (page + 0x700))) (push_bit 20 (ucast (sec_base_addr f))) MAP_FLAG_SHARED s =
    Inr (s\<lparr>tt := (tt s)(vaddr_map pt := (tt s (vaddr_map pt))[unat (drop_bit 20 (push_bit 20 (of_nat (page + 0x700)) :: u32)) := f])\<rparr>)"
proof -
  have "(ucast (sec_base_addr f) :: u32) = of_nat (fld_base f)" by (simp add: fld_base_def)
  then show ?thesis using assms(2)
    by (simp add: mmu_map_section_def Let_def vm_simps del: of_nat_add)
qed

text \<open>Section \<open>v\<close> of the kernel's load area is section \<open>v + 0x700\<close> of the child.\<close>

lemma share_pages_spec:
  assumes "vaddr_map kpt \<noteq> vaddr_map pt" "e < 0x900" "length (tt s (vaddr_map pt)) = 4096"
    and "backed (vaddr_map kpt) {page..e} s"
  shows "\<exists>s'. share_pages kpt pt page e s = Inr s' \<and> asid_map s' = asid_map s \<and> length (tt s' (vaddr_map pt)) = 4096 \<and>
    (\<forall>b. b \<noteq> vaddr_map pt \<longrightarrow> tt s' b = tt s b) \<and> (\<forall>v. v \<notin> {page + 0x700..e + 0x700} \<longrightarrow> tt s' (vaddr_map pt) ! v = tt s (vaddr_map pt) ! v) \<and>
    (\<forall>v \<in> {page..e}. tt s' (vaddr_map pt) ! (v + 0x700) = tt s (vaddr_map kpt) ! v)"
  using assms(3,4)
proof (induction "Suc e - page" arbitrary: page s)
  case 0
  then show ?case by (simp add: share_pages.simps [of kpt pt page])
next
  case (Suc d)
  let ?t = "vaddr_map pt" and ?f = "tt s (vaddr_map kpt) ! page"
  let ?s = "s\<lparr>tt := (tt s)(?t := (tt s ?t)[page + 0x700 := ?f])\<rparr>"
  have le: "page \<le> e" and d: "d = Suc e - Suc page" using Suc.hyps(2) by simp_all
  then have "page \<in> {page..e}" by simp
  with Suc.prems(2) have "fld_base ?f < 512" and f': "?f = section_fld False (push_bit 20 (of_nat (fld_base ?f)))"
    by (auto simp: backed_def vm_simps)
  then have f: "fld_base ?f < 4096" by simp
  have "unat (drop_bit 20 (push_bit 20 (of_nat (page + 0x700)) :: u32)) = page + 0x700"
    using le assms(2) by (intro unat_section_index) simp
  then have step: "share_pages kpt pt page e s = share_pages kpt pt (Suc page) e ?s"
    using le share_section [OF f f', of pt page s] by (simp add: share_pages.simps [of kpt pt page] Let_def load_addr del: of_nat_add)
  have "backed (vaddr_map kpt) {Suc page..e} ?s" using Suc.prems(2) assms(1) by (auto simp: backed_def inj_on_def)
  then obtain s' where s': "share_pages kpt pt (Suc page) e ?s = Inr s'" "asid_map s' = asid_map ?s" "length (tt s' ?t) = 4096"
    "\<forall>b. b \<noteq> ?t \<longrightarrow> tt s' b = tt ?s b" "\<forall>v. v \<notin> {Suc page + 0x700..e + 0x700} \<longrightarrow> tt s' ?t ! v = tt ?s ?t ! v"
    "\<forall>v \<in> {Suc page..e}. tt s' ?t ! (v + 0x700) = tt ?s (vaddr_map kpt) ! v"
    using Suc.hyps(1) [OF d, of ?s] Suc.prems(1) by auto
  have "tt s' ?t ! (v + 0x700) = tt s (vaddr_map kpt) ! v" if "v \<in> {page..e}" for v
  proof (cases "v = page")
    case True
    then show ?thesis using s'(5) Suc.prems(1) le assms(2) by simp
  next
    case False
    then have "v \<in> {Suc page..e}" using that by simp
    then show ?thesis using s'(6) assms(1) by simp
  qed
  moreover have "tt s' ?t ! v = tt s ?t ! v" if "v \<notin> {page + 0x700..e + 0x700}" for v
    using s'(5) that le by (auto simp: nth_list_update)
  ultimately show ?case using step s'(1-4) by (intro exI [of _ s']) auto
qed

lemma sec_offset: "unat b = c * 1048576 \<Longrightarrow> unat b + i < 4294967296 \<Longrightarrow> sec (b + of_nat i) = c + i div 1048576"
  by (simp add: unat_drop_bit unat_word_ariths unat_of_nat_u32)

lemma sec_load_addrs:
  assumes "i < 0x20000000"
  shows "sec (KERNEL_LOAD_ADDR + of_nat i) = 0x100 + i div 1048576" "sec (PROC_LOAD_ADDR + of_nat i) = 0x800 + i div 1048576"
  using assms sec_offset [of KERNEL_LOAD_ADDR "0x100" i] sec_offset [of PROC_LOAD_ADDR "0x800" i]
  by (simp_all add: KERNEL_LOAD_ADDR_def PROC_LOAD_ADDR_def)

lemma paddr_load_addrs: "paddr j (PROC_LOAD_ADDR + x) = paddr j (KERNEL_LOAD_ADDR + x)"
proof -
  have "unat (take_bit 20 (a + x)) = unat x mod 1048576" if "unat a mod 1048576 = 0" for a :: u32
  proof -
    have "unat (take_bit 20 (a + x)) = (unat a + unat x) mod 4294967296 mod 1048576"
      by (simp add: unsigned_take_bit_eq take_bit_eq_mod unat_word_ariths)
    also have "\<dots> = (unat a + unat x) mod 1048576" by (rule mod_mod_cancel) simp
    finally show ?thesis using that by (simp add: mod_add_left_eq [symmetric])
  qed
  from this [of PROC_LOAD_ADDR] this [of KERNEL_LOAD_ADDR]
  have "take_bit 20 (PROC_LOAD_ADDR + x) = take_bit 20 (KERNEL_LOAD_ADDR + x)"
    by (intro word_unat_eq_iff [THEN iffD2]) (simp add: PROC_LOAD_ADDR_def KERNEL_LOAD_ADDR_def)
  then show ?thesis by (simp add: paddr_def)
qed

lemma view_backed:
  "backed (ttbr0 (kcpu k)) V (kvm k) \<Longrightarrow> bit (ctrl (kcpu k)) 0 \<Longrightarrow> va \<in> in_secs V \<Longrightarrow>
   view k va = Some (phys (kcpu k) (paddr (fld_base (tt (kvm k) (ttbr0 (kcpu k)) ! sec va)) va))"
  by (simp add: view_def vread8_def backed_translate)

text \<open>The number of the last section that \<open>n\<close> bytes from the start of a section reach.\<close>

definition last_sec :: "u32 \<Rightarrow> nat" where
  "last_sec n = (unat n - 1) div 1048576"

definition kernel_secs :: "u32 \<Rightarrow> nat set" where "kernel_secs n = {0x100..0x100 + last_sec n}"
definition child_secs :: "u32 \<Rightarrow> nat set" where "child_secs n = {0x800..0x800 + last_sec n}"

lemma sec_last: "0 < n \<Longrightarrow> n < 0x20000000 \<Longrightarrow> sec (KERNEL_LOAD_ADDR + n - 1) = 0x100 + last_sec n"
proof -
  assume n: "0 < n" "n < 0x20000000"
  then have u: "0 < unat n" "unat n < 0x20000000" by (simp_all add: word_less_nat_alt)
  have "of_nat (unat n - 1) = n - 1" using u(1) by (simp add: of_nat_diff)
  then have "KERNEL_LOAD_ADDR + n - 1 = KERNEL_LOAD_ADDR + of_nat (unat n - 1)" by (simp only: add_diff_eq)
  then show ?thesis using sec_load_addrs(1) [of "unat n - 1"] u by (simp only: last_sec_def)
qed

lemma pages_load: "0 < n \<Longrightarrow> n < 0x20000000 \<Longrightarrow> pages_to_map KERNEL_LOAD_ADDR n = kernel_secs n"
  using sec_last [of n] by (simp add: pages_to_map_def kernel_secs_def) (simp add: KERNEL_LOAD_ADDR_def)

lemma load_in_secs:
  assumes "i < unat n" "n < 0x20000000"
  shows "KERNEL_LOAD_ADDR + of_nat i \<in> in_secs (kernel_secs n)" "PROC_LOAD_ADDR + of_nat i \<in> in_secs (child_secs n)"
proof -
  have "i < 0x20000000" "i \<le> unat n - 1" using assms by (simp_all add: word_less_nat_alt)
  then show "KERNEL_LOAD_ADDR + of_nat i \<in> in_secs (kernel_secs n)" "PROC_LOAD_ADDR + of_nat i \<in> in_secs (child_secs n)"
    using sec_load_addrs [of i] by (auto simp: in_secs_def kernel_secs_def child_secs_def last_sec_def intro: div_le_mono)
qed

section \<open>Loading a file\<close>

text \<open>
  A file of at most 512 MB whose buffer ends in the same section as its data (a buffer is rounded up to clusters, and a
  section is a multiple of the size of a cluster).
\<close>

definition file_fits :: "pi_file \<Rightarrow> bool" where
  "file_fits file \<longleftrightarrow> 0 < n_data file \<and> n_data file \<le> n_alloc file \<and> n_alloc file < 0x20000000 \<and>
     unat (n_data file) \<le> length (f_data file) \<and> last_sec (n_data file) = last_sec (n_alloc file)"

text \<open>The kernel runs in an address space of its own, other than the one that a program gets.\<close>

definition kernel_runs :: "nat \<Rightarrow> kernel \<Rightarrow> bool" where
  "kernel_runs kp k \<longleftrightarrow> vm_wf (kvm k) \<and> bit (ctrl (kcpu k)) 0 \<and> ttbr0 (kcpu k) = vaddr_map (page_tab (procs k kp)) \<and>
     vaddr_map (page_tab (procs k kp)) \<noteq> vaddr_map (page_tab new_process) \<and> pt_asid (page_tab (procs k kp)) \<noteq> 0"

lemma view_same_table:
  "tt s (ttbr0 (kcpu k)) = tt (kvm k) (ttbr0 (kcpu k)) \<Longrightarrow> view (k\<lparr>kvm := s\<rparr>) va = view k va"
  by (simp add: view_def vread8_def vtranslate_def)

lemma vload8_view: "vload8 va k = Inr b \<longleftrightarrow> view k va = Some b"
  by (auto simp: vload8_def view_def split: option.splits)

text \<open>The file in the kernel's load area, as the kernel sees it.\<close>

lemma store_file:
  assumes "kernel_runs kp k" "file_fits file"
    and m: "mmu_map_to_mem (page_tab (procs k kp)) KERNEL_LOAD_ADDR (n_alloc file) True (kvm k) = Inr s"
  shows "\<exists>k'. vstore_bytes KERNEL_LOAD_ADDR (take (unat (n_data file)) (f_data file)) (k\<lparr>kvm := s\<rparr>) = Inr k' \<and>
    vm_wf s \<and> backed (ttbr0 (kcpu k)) (kernel_secs (n_alloc file)) s \<and> only_mem (k\<lparr>kvm := s\<rparr>) k' \<and>
    (\<forall>i < unat (n_data file). view k' (KERNEL_LOAD_ADDR + of_nat i) = Some (f_data file ! i))"
proof -
  let ?pt = "page_tab (procs k kp)" and ?bs = "take (unat (n_data file)) (f_data file)" and ?A = "in_secs (kernel_secs (n_alloc file))"
  have n: "0 < n_alloc file" "n_alloc file < 0x20000000" "length ?bs = unat (n_data file)" "unat (n_data file) \<le> unat (n_alloc file)"
    using assms(2) by (auto simp: file_fits_def word_le_nat_alt word_less_nat_alt)
  have r: "vm_wf (kvm k)" "bit (ctrl (kcpu k)) 0" "ttbr0 (kcpu k) = vaddr_map ?pt" "pt_asid ?pt \<noteq> 0"
    using assms(1) by (auto simp: kernel_runs_def)
  have "backed (vaddr_map ?pt) {} (kvm k)" by (simp add: backed_def)
  from grown_map [OF r(1) this r(4) m] have g: "vm_wf s" "backed (vaddr_map ?pt) (kernel_secs (n_alloc file)) s"
    using pages_load [OF n(1,2)] by (simp_all add: grown_def)
  then have "mapped_apart ?A (k\<lparr>kvm := s\<rparr>)" using r by (intro backed_apart) simp_all
  moreover have "region KERNEL_LOAD_ADDR (length ?bs) \<subseteq> ?A"
    using load_in_secs(1) [OF _ n(2)] n(3,4) by (auto simp: region_def)
  moreover have "length ?bs < 4294967296" using n(2,4) unfolding n(3) by (simp add: word_less_nat_alt)
  ultimately obtain k2 where "vstore_bytes KERNEL_LOAD_ADDR ?bs (k\<lparr>kvm := s\<rparr>) = Inr k2" "only_mem (k\<lparr>kvm := s\<rparr>) k2"
    "\<forall>i < length ?bs. view k2 (KERNEL_LOAD_ADDR + of_nat i) = Some (?bs ! i)"
    using vstore_bytes_view by blast
  then show ?thesis using g r(3) n(3) by auto
qed

lemma backed_image:
  "backed t V s \<Longrightarrow> asid_map s' = asid_map s \<Longrightarrow> (\<And>v. v \<in> V \<Longrightarrow> tt s' t' ! (v + c) = tt s t ! v) \<Longrightarrow>
   backed t' ((\<lambda>v. v + c) ` V) s'"
  by (auto simp: backed_def inj_on_def)

text \<open>The same sections in the new address space.\<close>

lemma share_file:
  assumes "file_fits file" "backed (vaddr_map kpt) (kernel_secs (n_alloc file)) s" "vaddr_map kpt \<noteq> vaddr_map pt" "vm_wf s"
  shows "\<exists>s'. share_pages kpt pt (unat (drop_bit 20 KERNEL_LOAD_ADDR)) (sec (KERNEL_LOAD_ADDR + n_data file - 1)) s = Inr s' \<and>
    vm_wf s' \<and> asid_map s' = asid_map s \<and> tt s' (vaddr_map kpt) = tt s (vaddr_map kpt) \<and> backed (vaddr_map pt) (child_secs (n_alloc file)) s' \<and>
    (\<forall>v \<in> kernel_secs (n_alloc file). tt s' (vaddr_map pt) ! (v + 0x700) = tt s (vaddr_map kpt) ! v)"
proof -
  let ?e = "0x100 + last_sec (n_alloc file)" and ?t = "vaddr_map pt"
  have n: "0 < n_data file" "n_data file < 0x20000000" "last_sec (n_data file) = last_sec (n_alloc file)" "n_alloc file < 0x20000000"
    using assms(1) by (auto simp: file_fits_def)
  then have e: "sec (KERNEL_LOAD_ADDR + n_data file - 1) = ?e" using sec_last by simp
  have "unat (n_alloc file) < 0x20000000" using n(4) by (simp add: word_less_nat_alt)
  then have "?e < 0x900" by (simp add: last_sec_def) 
  moreover have "unat (drop_bit 20 KERNEL_LOAD_ADDR) = 0x100" by (simp add: KERNEL_LOAD_ADDR_def)
  ultimately obtain s' where sh: "share_pages kpt pt (unat (drop_bit 20 KERNEL_LOAD_ADDR)) (sec (KERNEL_LOAD_ADDR + n_data file - 1)) s = Inr s'"
    and s': "asid_map s' = asid_map s" "length (tt s' ?t) = 4096" "\<And>b. b \<noteq> ?t \<Longrightarrow> tt s' b = tt s b"
    "\<And>v. v \<in> {0x100..?e} \<Longrightarrow> tt s' ?t ! (v + 0x700) = tt s (vaddr_map kpt) ! v"
    using share_pages_spec [OF assms(3), of ?e s "0x100"] assms(2,4) unfolding e kernel_secs_def
    by (auto simp: vm_wf_def N_VIRT_PAGES_def)
  have c: "child_secs (n_alloc file) = (\<lambda>v. v + 0x700) ` kernel_secs (n_alloc file)"
    by (simp add: child_secs_def kernel_secs_def)
  have "backed ?t (child_secs (n_alloc file)) s'"
    unfolding c using assms(2) s'(1,4) by (intro backed_image) (auto simp: kernel_secs_def)
  moreover have "length (tt s' a) = N_VIRT_PAGES" for a
    using s'(2,3) assms(4) by (cases "a = ?t") (simp_all add: vm_wf_def N_VIRT_PAGES_def)
  then have "vm_wf s'" using s'(1) assms(4) by (simp add: vm_wf_def)
  ultimately show ?thesis using sh s' assms(3) by (auto simp: kernel_secs_def)
qed

text \<open>
  A file has been loaded: the instructions come from \<open>elf_load\<close> on its bytes, and the new address space, once it is the
  active one, shows the file and the sections of the program, all apart from each other.
\<close>

definition loaded :: "(nat \<Rightarrow> u32) \<Rightarrow> pi_file \<Rightarrow> nat \<Rightarrow> load_instr list \<Rightarrow> kernel \<Rightarrow> u8 list \<Rightarrow> bool" where
  "loaded junk file p ls k data \<longleftrightarrow>
     (\<exists>proc s s'. elf_load 256 junk KERNEL_LOAD_ADDR data (n_data file) proc s = Inr (Some ls, procs k p, s')) \<and>
     length data = unat (n_alloc file) \<and> take (unat (n_data file)) data = take (unat (n_data file)) (f_data file) \<and>
     page_tab (procs k p) = page_tab new_process \<and>
     (let k' = switch_to (page_tab new_process) k in
      mapped_apart (in_secs (child_secs (n_alloc file) \<union> program_pages ls)) k' \<and> holds_image data k')"

lemma load_file_loaded:
  assumes l: "load_file junk file kp p k = Inr (Some ls, k')" and r: "kernel_runs kp k" and f: "file_fits file"
    and p: "page_tab (procs k p) = page_tab new_process" "p \<noteq> kp"
    and apart: "program_pages ls \<inter> child_secs (n_alloc file) = {}"
  shows "\<exists>data. loaded junk file p ls k' data"
proof -
  let ?kpt = "page_tab (procs k kp)" and ?pt = "page_tab new_process" and ?K = "kernel_secs (n_alloc file)" and ?C = "child_secs (n_alloc file)"
  obtain s1 k1 s2 data proc s3 where m: "mmu_map_to_mem ?kpt KERNEL_LOAD_ADDR (n_alloc file) True (kvm k) = Inr s1"
    and w: "vstore_bytes KERNEL_LOAD_ADDR (take (unat (n_data file)) (f_data file)) (k\<lparr>kvm := s1\<rparr>) = Inr k1"
    and sh: "share_pages ?kpt ?pt (unat (drop_bit 20 KERNEL_LOAD_ADDR)) (sec (KERNEL_LOAD_ADDR + n_data file - 1)) (kvm k1) = Inr s2"
    and c: "collect (\<lambda>i. vload8 (KERNEL_LOAD_ADDR + of_nat i) (k1\<lparr>kvm := s2\<rparr>)) [0..<unat (n_alloc file)] = Inr data"
    and e: "elf_load 256 junk KERNEL_LOAD_ADDR data (n_data file) (procs k1 p) s2 = Inr (Some ls, proc, s3)"
    and k': "k' = (set_proc p proc (k1\<lparr>kvm := s2\<rparr>))\<lparr>kvm := s3\<rparr>"
    using l p(1) by (auto simp: load_file_def Let_def)
  have st: "vm_wf s1" "backed (ttbr0 (kcpu k)) ?K s1" "only_mem (k\<lparr>kvm := s1\<rparr>) k1"
    "\<And>i. i < unat (n_data file) \<Longrightarrow> view k1 (KERNEL_LOAD_ADDR + of_nat i) = Some (f_data file ! i)"
    using store_file [OF r f m] w by auto
  have rk: "ttbr0 (kcpu k) = vaddr_map ?kpt" "vaddr_map ?kpt \<noteq> vaddr_map ?pt" "bit (ctrl (kcpu k)) 0"
    using r by (auto simp: kernel_runs_def)
  have k1: "kvm k1 = s1" "procs k1 = procs k" "ttbr0 (kcpu k1) = ttbr0 (kcpu k)" "ctrl (kcpu k1) = ctrl (kcpu k)"
    using st(3) by (auto simp: only_mem_def)
  have s2: "vm_wf s2" "tt s2 (vaddr_map ?kpt) = tt s1 (vaddr_map ?kpt)" "backed (vaddr_map ?pt) ?C s2"
    "\<And>v. v \<in> ?K \<Longrightarrow> tt s2 (vaddr_map ?pt) ! (v + 0x700) = tt s1 (vaddr_map ?kpt) ! v"
    using share_file [OF f _ rk(2), of "kvm k1"] sh st(1,2) k1(1) rk(1) by auto
  have vw: "view (k1\<lparr>kvm := s2\<rparr>) va = view k1 va" for va using s2(2) k1 rk(1) by (intro view_same_table) simp
  have d: "length data = unat (n_alloc file)"
    "\<And>i. i < unat (n_alloc file) \<Longrightarrow> view k1 (KERNEL_LOAD_ADDR + of_nat i) = Some (data ! i)"
    using collect_nth [OF c] by (auto simp: vload8_view vw)
  have pg: "page_tab proc = ?pt" "pt_asid ?pt \<noteq> 0" using elf_load_page_tab [OF e] p(1) k1(2) by (simp_all add: new_process_def)
  have g: "grown ?pt ?C (program_pages ls) s2 s3"
    using elf_load_maps [OF e, of ?C] p(1) k1(2) pg(2) s2(1,3) by simp
  let ?k = "switch_to ?pt k'"
  have k: "kvm ?k = s3" "ttbr0 (kcpu ?k) = vaddr_map ?pt" "bit (ctrl (kcpu ?k)) 0" "phys (kcpu ?k) = phys (kcpu k1)"
    using k1 rk(3) k' by (simp_all add: set_proc_def)
  have b: "backed (ttbr0 (kcpu ?k)) (?C \<union> program_pages ls) (kvm ?k)" using g k by (simp add: grown_def)
  have "view ?k (PROC_LOAD_ADDR + of_nat i) = Some (data ! i)" if i: "i < unat (n_alloc file)" for i
  proof -
    have n: "n_alloc file < 0x20000000" using f by (simp add: file_fits_def)
    then have i': "i < 0x20000000" using i by (simp add: word_less_nat_alt)
    let ?a = "KERNEL_LOAD_ADDR + of_nat i" and ?b = "PROC_LOAD_ADDR + of_nat i"
    have sa: "sec ?b = sec ?a + 0x700" using sec_load_addrs [OF i'] by simp
    have in_a: "sec ?a \<in> ?K" and in_b: "sec ?b \<in> ?C" using load_in_secs [OF i n] by (simp_all add: in_secs_def)
    then have "sec ?b \<notin> program_pages ls" using apart by blast
    then have "tt s3 (vaddr_map ?pt) ! sec ?b = tt s2 (vaddr_map ?pt) ! sec ?b" using g by (simp add: grown_def)
    also have "\<dots> = tt s1 (vaddr_map ?kpt) ! sec ?a" unfolding sa by (rule s2(4) [OF in_a])
    finally have "view ?k ?b = view k1 ?a"
      using view_backed [OF b k(3), of ?b] view_backed [of k1 ?K ?a] in_a in_b st(2) k k1 rk
      by (simp add: in_secs_def paddr_load_addrs)
    then show ?thesis using d(2) [OF i] by simp
  qed
  then have "holds_image data ?k" using d(1) by (simp add: holds_image_def)
  moreover have "take (unat (n_data file)) data = take (unat (n_data file)) (f_data file)"
  proof -
    have n: "unat (n_data file) \<le> unat (n_alloc file)" "unat (n_data file) \<le> length (f_data file)"
      using f by (simp_all add: file_fits_def word_le_nat_alt)
    then have "data ! i = f_data file ! i" if "i < unat (n_data file)" for i using d(2) [of i] st(4) [of i] that by simp
    then show ?thesis using n d(1) by (intro nth_take_lemma) auto
  qed
  ultimately show ?thesis
    using e d(1) backed_apart [OF b k(3)] pg(1) k' by (intro exI [of _ data]) (auto simp: loaded_def set_proc_def)
qed

section \<open>From the directory entry to the program\<close>

text \<open>
  The layout of a program in its address space: segments inside the file, and every block in the sections that were
  mapped for the program, apart from the file and from the other blocks.
\<close>

definition program_fits :: "pi_file \<Rightarrow> load_instr list \<Rightarrow> bool" where
  "program_fits file ls \<longleftrightarrow>
     program_pages ls \<inter> child_secs (n_alloc file) = {} \<and>
     (\<forall>i \<in> set ls. within (unat (n_data file)) i \<and> target i \<subseteq> in_secs (program_pages ls)) \<and>
     sorted_wrt (\<lambda>i j. target i \<inter> target j = {}) ls"

lemma within_mono: "within m i \<Longrightarrow> m \<le> n \<Longrightarrow> within n i"
  by (cases i) auto

lemma program_well_placed:
  assumes "program_fits file ls" "file_fits file" "length data = unat (n_alloc file)"
  shows "well_placed (in_secs (child_secs (n_alloc file) \<union> program_pages ls)) data ls"
proof -
  have n: "n_alloc file < 0x20000000" "unat (n_data file) \<le> unat (n_alloc file)"
    using assms(2) by (simp_all add: file_fits_def word_le_nat_alt)
  have "file_image data \<subseteq> in_secs (child_secs (n_alloc file))"
    using load_in_secs(2) [OF _ n(1)] assms(3) by (auto simp: file_image_def region_def)
  moreover have "length data < 4294967296" using assms(3) n(1) by (simp add: word_less_nat_alt)
  moreover have "in_secs (child_secs (n_alloc file) \<union> program_pages ls) = in_secs (child_secs (n_alloc file)) \<union> in_secs (program_pages ls)"
    "in_secs (program_pages ls) \<inter> in_secs (child_secs (n_alloc file)) = {}"
    using assms(1) by (auto simp: in_secs_def program_fits_def)
  moreover have "within (length data) i \<and> target i \<subseteq> in_secs (program_pages ls)" if "i \<in> set ls" for i
    using assms(1,3) that within_mono [OF _ n(2)] by (simp add: program_fits_def)
  moreover have "sorted_wrt (\<lambda>i j. target i \<inter> target j = {}) ls" using assms(1) by (simp add: program_fits_def)
  ultimately show ?thesis unfolding well_placed_def by (intro conjI ballI) (blast | simp)+
qed

text \<open>What is left of \<open>exec_file\<close> once the program has returned: the old process, the kernel's table, the sections of the child.\<close>

definition leave_program :: "nat \<Rightarrow> nat \<Rightarrow> nat option \<Rightarrow> kernel \<Rightarrow> kernel res" where
  "leave_program kp p current k =
     (let k = syscall_set_current_proc current k; k = switch_to (page_tab (procs k kp)) k
      in rbind (mmu_unmap (page_tab (procs k p)) (kvm k)) (\<lambda>s. Inr (k\<lparr>kvm := s\<rparr>)))"

lemma new_space_runs:
  assumes "kernel_runs kp k" "new_space (page_tab new_process) (kvm k) = Inr s" "p \<noteq> kp"
  shows "kernel_runs kp ((set_proc p new_process k)\<lparr>kvm := s\<rparr>)"
proof -
  have "vm_wf s" using assms(1,2) unfolding new_space_def Let_def
    by (auto simp: kernel_runs_def new_process_def mmu_init_eq mmu_map_kernel_sections_eq vm_wf_def)
  then show ?thesis using assms(1,3) by (simp add: kernel_runs_def set_proc_def)
qed

text \<open>
  C10: running a file. Once the file has been read and loaded, and its program fits beside it, \<open>exec_file\<close> enters the
  text section of the program: then every segment holds the bytes of the file, every bss section is zero, the new
  process is the current one with its page table active and its heap empty; after the program only the clean-up runs.
\<close>

theorem exec_file_enters_program:
  assumes k: "kernel_runs kp k" "p \<noteq> kp" and f: "fat32_read_file dev fs entry = Some (Inr file)" "file_fits file"
    and s: "new_space (page_tab new_process) (kvm k) = Inr s"
    and l: "load_file junk file kp p ((set_proc p new_process k)\<lparr>kvm := s\<rparr>) = Inr (Some ls, k1)"
    and h: "heap_start (procs k1 p) \<noteq> 0" and ls: "program_fits file ls"
  shows "\<exists>data phs shs strsh zs j sh k2. take (unat (n_data file)) data = take (unat (n_data file)) (f_data file) \<and>
    loads_program 256 KERNEL_LOAD_ADDR data phs shs strsh zs j sh ls (heap_start (procs k2 p)) \<and>
    program_at data phs shs strsh k2 \<and> current_proc k2 = Some p \<and> ttbr0 (kcpu k2) = vaddr_map (page_tab new_process) \<and>
    heap_end (procs k2 p) = heap_start (procs k2 p) \<and>
    exec_file prog junk dev fs entry kp p k = Some (rbind (prog (sh_addr sh) k2) (leave_program kp p (current_proc k)))"
proof -
  let ?k = "(set_proc p new_process k)\<lparr>kvm := s\<rparr>" and ?k1 = "switch_to (page_tab new_process) k1"
  have "page_tab (procs ?k p) = page_tab new_process" by (simp add: set_proc_def)
  with load_file_loaded [OF l new_space_runs [OF k(1) s k(2)] f(2)] k(2) ls obtain data where "loaded junk file p ls k1 data"
    by (auto simp: program_fits_def)
  then obtain proc s1 s2 where e: "elf_load 256 junk KERNEL_LOAD_ADDR data (n_data file) proc s1 = Inr (Some ls, procs k1 p, s2)"
    and d: "length data = unat (n_alloc file)" "take (unat (n_data file)) data = take (unat (n_data file)) (f_data file)"
    and pt: "page_tab (procs k1 p) = page_tab new_process"
    and m: "mapped_apart (in_secs (child_secs (n_alloc file) \<union> program_pages ls)) ?k1" "holds_image data ?k1"
    by (auto simp: loaded_def Let_def)
  have "heap_start (procs ?k1 p) = heap_start (procs k1 p)" by simp
  from program_starts_laid_out [OF e this h m program_well_placed [OF ls f(2) d(1)], of prog]
  obtain phs shs strsh zs j sh k2 where
    p: "loads_program 256 KERNEL_LOAD_ADDR data phs shs strsh zs j sh ls (heap_start (procs k1 p))"
    "exec_instrs prog p ls ?k1 = rbind (prog (sh_addr sh) k2) (\<lambda>k3. Inr (syscall_set_current_proc (current_proc ?k1) k3))"
    "program_at data phs shs strsh k2" "current_proc k2 = Some p" "ttbr0 (kcpu k2) = ttbr0 (kcpu ?k1)"
    "heap_start (procs k2 p) = heap_start (procs k1 p)" "heap_end (procs k2 p) = heap_start (procs k1 p)" by blast
  have "current_proc k1 = current_proc k" using load_file_frame [OF l, of kp] by (simp add: frame_def set_proc_def)
  then have "run_file prog kp p (Some ls) k1 = rbind (prog (sh_addr sh) k2) (leave_program kp p (current_proc k))"
    using p(2) pt by (cases "prog (sh_addr sh) k2") (simp_all add: run_file_def leave_program_def Let_def)
  then have "exec_file prog junk dev fs entry kp p k = Some (rbind (prog (sh_addr sh) k2) (leave_program kp p (current_proc k)))"
    using f(1) s l by (simp add: exec_file_def)
  then show ?thesis using d(2) p by (intro exI conjI) auto
qed

text \<open>
  A program linked at 0x100000, with one segment and a bss section behind it, in a file of one sector; and a kernel
  with only its own sections in use.
\<close>

definition run_elf :: "u8 list" where
  "run_elf =
     [0x7F, 0x45, 0x4C, 0x46] @ replicate 12 0 @ [2, 0, 0x28, 0] @ word_bytes 1 @ word_bytes 0x100000 @ word_bytes 52 @ word_bytes 84 @
     word_bytes 0 @ [52, 0, 32, 0, 1, 0, 40, 0, 3, 0, 0, 0] @
     concat (map word_bytes [1, 204, 0x100000, 0x100000, 20, 20, 5, 1]) @
     concat (map word_bytes [0, 1, 0, 0x100000, 204, 20, 0, 0, 0, 0]) @
     concat (map word_bytes [6, 8, 0, 0x100020, 0, 0x40, 0, 0, 0, 0]) @
     concat (map word_bytes [11, 2, 0, 0, 0, 32, 0, 0, 0, 16]) @ TEXT @ [0] @ BSS @ [0] @ replicate 297 0"

definition run_file_buf :: pi_file where
  "run_file_buf = \<lparr>f_data = run_elf, f_cksum = crc32 run_elf, n_alloc = 512, n_data = 512\<rparr>"

definition run_instrs :: "load_instr list" where
  "run_instrs = [LOAD_COPY (KERNEL_LOAD_ADDR + 204) 0x100000 20, LOAD_ZERO 0 0x100020 0x40, LOAD_JUMP 0 0x100000]"

lemma length_run_elf: "length run_elf = 512"
  by code_simp

lemma run_headers:
  "phdr_at run_elf 52 0 = Inr \<lparr>p_type = 1, p_offset = 204, p_vaddr = 0x100000, p_paddr = 0x100000, p_filesz = 20,
     p_memsz = 20, p_flags = 5, p_align = 1\<rparr>"
  "shdr_at run_elf 84 0 = Inr \<lparr>sh_name = 0, sh_type = 1, sh_flags = 0, sh_addr = 0x100000, sh_offset = 204, sh_size = 20,
     sh_link = 0, sh_info = 0, sh_addralign = 0, sh_entsize = 0\<rparr>"
  "shdr_at run_elf 84 (Suc 0) = Inr \<lparr>sh_name = 6, sh_type = 8, sh_flags = 0, sh_addr = 0x100020, sh_offset = 0, sh_size = 0x40,
     sh_link = 0, sh_info = 0, sh_addralign = 0, sh_entsize = 0\<rparr>"
  "shdr_at run_elf 84 2 = Inr \<lparr>sh_name = 11, sh_type = 2, sh_flags = 0, sh_addr = 0, sh_offset = 0, sh_size = 32,
     sh_link = 0, sh_info = 0, sh_addralign = 0, sh_entsize = 16\<rparr>"
  by code_simp+

lemma run_names:
  "str_is (drop 204 run_elf) TEXT = Inr True" "str_is (drop 204 run_elf) DATA = Inr False"
  "str_is (drop 204 run_elf) DATA1 = Inr False" "str_is (drop 210 run_elf) BSS = Inr True"
  by code_simp+

lemma run_ehdr:
  "elf_magic_valid (ehdr_of run_elf)" "e_type (ehdr_of run_elf) = ET_EXEC" "e_phoff (ehdr_of run_elf) = 52"
  "e_shoff (ehdr_of run_elf) = 84" "unat (e_phnum (ehdr_of run_elf)) = 1" "unat (e_shnum (ehdr_of run_elf)) = 3"
  "unat (e_shstrndx (ehdr_of run_elf)) = 0"
  by code_simp+

lemma map_nothing: "mmu_map_to_mem pt 0x100020 0x40 sync s = Inr s"
  by (simp add: mmu_map_to_mem_def map_pages.simps)

lemma run_segments:
  "mmu_map_to_mem pt 0x100000 20 False s = Inr s' \<Longrightarrow>
   load_segments 256 KERNEL_LOAD_ADDR pt (phdr_at run_elf 52) [0] [] s = Inr (Some [LOAD_COPY (KERNEL_LOAD_ADDR + 204) 0x100000 20], s')"
  by (simp add: run_headers PT_LOAD_def add_instr_def)

lemma run_finish:
  "finish_load 256 (\<lambda>_. 0) run_elf 204 (shdr_at run_elf 84) 3 [LOAD_COPY a 0x100000 20] proc s =
   Inr (Some [LOAD_COPY a 0x100000 20, LOAD_ZERO 0 0x100020 0x40, LOAD_JUMP 0 0x100000], proc\<lparr>heap_start := 0x100060\<rparr>, s)"
proof -
  have u: "[0..<3] = [0, Suc 0, 2]" by (simp add: upt_rec)
  show ?thesis unfolding finish_load_def u
    by (simp add: run_headers run_names map_nothing SHT_SYMTAB_def SHT_NOBITS_def SHT_PROGBITS_def is_bss_def is_data_section_def
      name_is_def add_instr_def Let_def max_def)
qed

lemma run_elf_load:
  assumes "mmu_map_to_mem (page_tab proc) 0x100000 20 False s = Inr s'"
  shows "elf_load 256 (\<lambda>_. 0) KERNEL_LOAD_ADDR run_elf 512 proc s = Inr (Some run_instrs, proc\<lparr>heap_start := 0x100060\<rparr>, s')"
  unfolding elf_load_def Let_def run_ehdr using run_segments [OF assms]
  by (simp add: run_ehdr run_headers run_finish run_instrs_def)

lemma run_file_fits: "file_fits run_file_buf"
  by (simp add: file_fits_def run_file_buf_def length_run_elf)

lemma run_program_fits: "program_fits run_file_buf run_instrs"
proof -
  have p: "program_pages run_instrs = {1}" by (simp add: run_instrs_def pages_to_map_def)
  have r: "region 0x100000 20 = {0x100000..<0x100014}" "region 0x100020 64 = {0x100020..<0x100060}"
    using region_interval [of "0x100000" 20] region_interval [of "0x100020" 64] by simp_all
  have s: "sec x = 1" if "0x100000 \<le> x" "x < 0x200000" for x :: u32
    using that by (simp add: unat_drop_bit word_le_nat_alt word_less_nat_alt)
  have "x \<in> in_secs {1}" if "x \<in> {0x100000..<0x100014} \<or> x \<in> {0x100020..<0x100060}" for x
    using that s [of x] by (auto simp: in_secs_def word_le_nat_alt word_less_nat_alt)
  then have "\<forall>i \<in> set run_instrs. within 512 i \<and> target i \<subseteq> in_secs {1}"
    by (auto simp: run_instrs_def r)
  moreover have "sorted_wrt (\<lambda>i j. target i \<inter> target j = {}) run_instrs"
    by (auto simp: run_instrs_def r word_le_nat_alt word_less_nat_alt)
  ultimately show ?thesis by (simp add: program_fits_def p run_file_buf_def child_secs_def)
qed

definition run_dev :: dev where "run_dev lba n = (512, run_elf)"

definition run_entry :: dirent where
  "run_entry = \<lparr>de_name = [0x61], cluster_id = 9, is_dir_p = False, nbytes = 512\<rparr>"

lemma run_read: "fat32_read_file run_dev demo_fs run_entry = Some (Inr run_file_buf)"
proof -
  have ch: "fat_chain (fat demo_fs) 9 [9]" by code_simp
  have n: "sectors_per_cluster demo_fs = 1" "1 * 1 * SECTOR_SIZE = 512" "unat (512 :: u32) = 512" by (simp_all add: demo_fs_def SECTOR_SIZE_def)
  have "fat32_fat_entry_type 9 = Inr USED_CLUSTER" "fat32_fat_entry_type (fat demo_fs ! unat (9 :: u32)) = Inr LAST_CLUSTER"
    "USED_CLUSTER \<noteq> LAST_CLUSTER" "9 < length (fat demo_fs)" by code_simp+
  then have l: "read_file_loop run_dev demo_fs 9 512 [] = Some (Inr run_elf)"
    using n by (subst read_file_loop.simps, subst read_file_loop.simps) (simp add: length_run_elf run_dev_def)
  have c: "count_clusters demo_fs 9 = Some (Inr 1)" using count_chain [of demo_fs 9 "[9]"] ch by simp
  have d: "cluster_id run_entry = 9" "nbytes run_entry = 512" by (simp_all add: run_entry_def)
  show ?thesis unfolding fat32_read_file_def Let_def d c Option.bind.simps sum.case n l rbind.simps
    by (simp add: length_run_elf run_file_buf_def)
qed

lemma collect_Inr: "\<forall>i \<in> set is. f i = Inr (g i) \<Longrightarrow> collect f is = Inr (map g is)"
  by (induction "is") auto

lemma map_one_section:
  assumes "vm_wf s" "pt_asid pt \<noteq> 0" "card (pages_to_map addr sz) = 1" "free_pages s \<noteq> {}"
  shows "\<exists>s' i. mmu_map_to_mem pt addr sz sync s = Inr s' \<and> (\<forall>j. j < N_PHYS_PAGES \<longrightarrow> j \<noteq> i \<longrightarrow> asid_map s' ! j = asid_map s ! j)"
proof -
  have "card (pages_to_map addr sz) \<le> card (free_pages s)"
    using assms(3,4) finite_free_pages [of s] by (simp add: Suc_leI card_gt_0_iff)
  then obtain s' f where m: "mmu_map_to_mem pt addr sz sync s = Inr s'" "mapped_fresh pt (pages_to_map addr sz) f s s'"
    using mmu_map_to_mem_spec [OF assms(1,2), of addr sz sync] by auto
  obtain v where "pages_to_map addr sz = {v}" using assms(3) card_1_singletonE by blast
  then show ?thesis using m by (intro exI [of _ s'] exI [of _ "f v"]) (auto simp: mapped_fresh_def)
qed

lemma kernel_runs_demo: "kernel_runs 0 demo_kernel"
  by (simp add: kernel_runs_def demo_kernel_def pt_of_def new_process_def)

lemma run_load:
  "\<exists>s k1. new_space (page_tab new_process) (kvm demo_kernel) = Inr s \<and>
     load_file (\<lambda>_. 0) run_file_buf 0 1 ((set_proc 1 new_process demo_kernel)\<lparr>kvm := s\<rparr>) = Inr (Some run_instrs, k1) \<and>
     heap_start (procs k1 1) = 0x100060"
proof -
  obtain s where s: "new_space (page_tab new_process) (kvm demo_kernel) = Inr s" "asid_map s = asid_map blank_vm"
    by (simp add: new_space_def new_process_def mmu_init_eq mmu_map_kernel_sections_eq demo_kernel_def)
  let ?k = "(set_proc 1 new_process demo_kernel)\<lparr>kvm := s\<rparr>" and ?pt = "page_tab new_process" and ?kpt = "pt_of 1"
  have r: "kernel_runs 0 ?k" using new_space_runs [OF kernel_runs_demo s(1)] by simp
  have pt: "page_tab (procs ?k 0) = ?kpt" "page_tab (procs ?k 1) = ?pt" by (simp_all add: set_proc_def demo_kernel_def)
  note ff = run_file_fits
  have n: "n_alloc run_file_buf = 512" "n_data run_file_buf = 512" "f_data run_file_buf = run_elf" by (simp_all add: run_file_buf_def)
  have "free_pages s = {1..<N_PHYS_PAGES}" using s(2) free_pages_blank by (simp add: free_pages_def)
  then have fr: "free_pages s \<noteq> {}" by (simp add: N_PHYS_PAGES_def)
  have wf: "vm_wf s" using r by (simp add: kernel_runs_def)
  have "card (pages_to_map KERNEL_LOAD_ADDR 512) = 1" by (simp add: pages_load kernel_secs_def last_sec_def)
  from map_one_section [OF wf _ this fr, of ?kpt True] obtain s1 i where
    m: "mmu_map_to_mem ?kpt KERNEL_LOAD_ADDR 512 True s = Inr s1" "\<And>j. j < N_PHYS_PAGES \<Longrightarrow> j \<noteq> i \<Longrightarrow> asid_map s1 ! j = asid_map s ! j"
    by (auto simp: pt_of_def)
  obtain k1 where w: "vstore_bytes KERNEL_LOAD_ADDR (take 512 run_elf) (?k\<lparr>kvm := s1\<rparr>) = Inr k1" "vm_wf s1"
    "backed (ttbr0 (kcpu ?k)) (kernel_secs 512) s1" "only_mem (?k\<lparr>kvm := s1\<rparr>) k1"
    "\<And>i. i < 512 \<Longrightarrow> view k1 (KERNEL_LOAD_ADDR + of_nat i) = Some (run_elf ! i)"
    using store_file [OF r ff, of s1] m(1) pt(1) n by auto
  have k1: "kvm k1 = s1" "procs k1 = procs ?k" "ttbr0 (kcpu k1) = 1" using w(4) by (auto simp: only_mem_def set_proc_def demo_kernel_def)
  obtain s2 where sh: "share_pages ?kpt ?pt (unat (drop_bit 20 KERNEL_LOAD_ADDR)) (sec (KERNEL_LOAD_ADDR + 512 - 1)) s1 = Inr s2"
    "vm_wf s2" "asid_map s2 = asid_map s1" "tt s2 1 = tt s1 1"
    using share_file [OF ff, of ?kpt s1 ?pt] w(2,3) n by (auto simp: pt_of_def new_process_def set_proc_def demo_kernel_def)
  have "view (k1\<lparr>kvm := s2\<rparr>) va = view k1 va" for va using sh(4) k1 by (intro view_same_table) simp
  then have "collect (\<lambda>i. vload8 (KERNEL_LOAD_ADDR + of_nat i) (k1\<lparr>kvm := s2\<rparr>)) [0..<512] = Inr (map ((!) run_elf) [0..<512])"
    using w(5) by (intro collect_Inr) (simp add: vload8_view)
  then have c: "collect (\<lambda>i. vload8 (KERNEL_LOAD_ADDR + of_nat i) (k1\<lparr>kvm := s2\<rparr>)) [0..<512] = Inr run_elf"
    using map_nth [of run_elf] by (simp add: length_run_elf)
  have "j \<in> free_pages s2" if "j \<in> {1, 2}" "j \<noteq> i" for j
    using m(2) [of j] that s(2) sh(3) by (auto simp: free_pages_def N_PHYS_PAGES_def blank_vm_def)
  then have "free_pages s2 \<noteq> {}" by (metis empty_iff insert_iff numeral_eq_one_iff semiring_norm(85))
  moreover have "card (pages_to_map 0x100000 20) = 1" by (simp add: pages_to_map_def)
  ultimately obtain s3 where "mmu_map_to_mem ?pt 0x100000 20 False s2 = Inr s3"
    using map_one_section [OF sh(2), of ?pt "0x100000" 20 False] by (auto simp: new_process_def)
  then have e: "elf_load 256 (\<lambda>_. 0) KERNEL_LOAD_ADDR run_elf 512 (procs k1 1) s2 = Inr (Some run_instrs, (procs k1 1)\<lparr>heap_start := 0x100060\<rparr>, s3)"
    using run_elf_load [of "procs k1 1" s2 s3] pt(2) k1(2) by simp
  have "load_file (\<lambda>_. 0) run_file_buf 0 1 ?k = Inr (Some run_instrs, (set_proc 1 ((procs k1 1)\<lparr>heap_start := 0x100060\<rparr>) (k1\<lparr>kvm := s2\<rparr>))\<lparr>kvm := s3\<rparr>)"
    unfolding load_file_def Let_def pt n using m(1) w(1) sh(1) c e k1(1) by simp
  then show ?thesis using s(1) by (intro exI [of _ s] exI conjI) (auto simp: set_proc_def)
qed

theorem exec_file_enters_program_witness:
  "\<exists>k2. current_proc k2 = Some 1 \<and> ttbr0 (kcpu k2) = 2 \<and> heap_end (procs k2 1) = heap_start (procs k2 1) \<and>
     exec_file (\<lambda>_. Inr) (\<lambda>_. 0) run_dev demo_fs run_entry 0 1 demo_kernel = Some (leave_program 0 1 (Some 0) k2)"
proof -
  obtain s k1 where l: "new_space (page_tab new_process) (kvm demo_kernel) = Inr s"
    "load_file (\<lambda>_. 0) run_file_buf 0 1 ((set_proc 1 new_process demo_kernel)\<lparr>kvm := s\<rparr>) = Inr (Some run_instrs, k1)"
    "heap_start (procs k1 1) = 0x100060" using run_load by blast
  then have h: "heap_start (procs k1 1) \<noteq> 0" by simp
  have "current_proc demo_kernel = Some 0" "vaddr_map (page_tab new_process) = 2" by (simp_all add: demo_kernel_def new_process_def)
  with exec_file_enters_program [OF kernel_runs_demo _ run_read run_file_fits l(1,2) h run_program_fits, of "\<lambda>_. Inr"]
  show ?thesis by fastforce
qed

end
