(* ===== verification/Pi_Cp15.thy ===== *)
theory Pi_Cp15
  imports Pi_Vm Pi_Printf
begin

text \<open>
  The system registers that vm.c reads and prints: the control register and its validity check, the
  translation table base, the TLB's configuration and process id, and the size of the caches. The value a
  coprocessor register is read as is an argument; the result of a printing function is what it sends to
  the serial port, or the failure that stops it.
\<close>

section \<open>Printing\<close>

definition print_field :: "u32 \<Rightarrow> string \<Rightarrow> u8 list res" where
  "print_field v field =
     prints (printk (0x09 # str ''0b%b'' @ 0x09 # str ''= %s'' @ [0x0A]) [Num v, Text (str field)] #
       (if v > 8 then [tab_nl ''0x%x'' [Num v]] else []))"

section \<open>The control register\<close>

record control_reg1 =
  MMU_enabled :: "1 word"
  A_alignment :: "1 word"
  C_unified_enable :: "1 word"
  W_write_buf :: "1 word"
  unused1 :: "3 word"
  B_endian :: "1 word"
  S_prot :: "1 word"
  R_rom_prot :: "1 word"
  F_impl :: "1 word"
  Z_branch_pred :: "1 word"
  I_icache_enable :: "1 word"
  V_high_except_v :: "1 word"
  RR_cache_rep :: "1 word"
  L4 :: "1 word"
  c_dt :: "1 word"
  c_sbz0 :: "1 word"
  c_it :: "1 word"
  c_sbz1 :: "1 word"
  c_st :: "1 word"
  F1 :: "1 word"
  U_unaligned :: "1 word"
  XP_pt :: "1 word"
  VE_vect_int :: "1 word"
  EE :: "1 word"
  L2_enabled :: "1 word"
  reserved0 :: "1 word"
  TR_tex_remap :: "1 word"
  FA_force_ap :: "1 word"
  reserved1 :: "2 word"

definition control_reg1_of :: "u32 \<Rightarrow> control_reg1" where
  "control_reg1_of u =
     \<lparr>MMU_enabled = ucast u, A_alignment = ucast (drop_bit 1 u), C_unified_enable = ucast (drop_bit 2 u),
      W_write_buf = ucast (drop_bit 3 u), unused1 = ucast (drop_bit 4 u), B_endian = ucast (drop_bit 7 u),
      S_prot = ucast (drop_bit 8 u), R_rom_prot = ucast (drop_bit 9 u), F_impl = ucast (drop_bit 10 u),
      Z_branch_pred = ucast (drop_bit 11 u), I_icache_enable = ucast (drop_bit 12 u),
      V_high_except_v = ucast (drop_bit 13 u), RR_cache_rep = ucast (drop_bit 14 u), L4 = ucast (drop_bit 15 u),
      c_dt = ucast (drop_bit 16 u), c_sbz0 = ucast (drop_bit 17 u), c_it = ucast (drop_bit 18 u),
      c_sbz1 = ucast (drop_bit 19 u), c_st = ucast (drop_bit 20 u), F1 = ucast (drop_bit 21 u),
      U_unaligned = ucast (drop_bit 22 u), XP_pt = ucast (drop_bit 23 u), VE_vect_int = ucast (drop_bit 24 u),
      EE = ucast (drop_bit 25 u), L2_enabled = ucast (drop_bit 26 u), reserved0 = ucast (drop_bit 27 u),
      TR_tex_remap = ucast (drop_bit 28 u), FA_force_ap = ucast (drop_bit 29 u), reserved1 = ucast (drop_bit 30 u)\<rparr>"

definition control_reg1_valid :: "control_reg1 \<Rightarrow> unit res" where
  "control_reg1_valid r =
     rbind (assert_that (unused1 r = 7)) (\<lambda>_.
     rbind (assert_that (c_dt r = 1)) (\<lambda>_.
     rbind (assert_that (c_it r = 1)) (\<lambda>_.
     rbind (assert_that (c_sbz0 r = 0)) (\<lambda>_.
     rbind (assert_that (c_sbz1 r = 0)) (\<lambda>_.
     rbind (assert_that (c_st r = 0)) (\<lambda>_.
     rbind (assert_that (\<not> L2_enabled r \<noteq> 0)) (\<lambda>_.
     rbind (assert_that (\<not> I_icache_enable r \<noteq> 0)) (\<lambda>_.
     assert_that (\<not> C_unified_enable r \<noteq> 0)))))))))"

definition control_reg1_print :: "control_reg1 \<Rightarrow> u8 list res" where
  "control_reg1_print r =
     rbind (control_reg1_valid r) (\<lambda>_. prints
       [printk_nl ''system control reg='' [],
        print_field (ucast (FA_force_ap r)) ''FA_force_ap'',
        print_field (ucast (TR_tex_remap r)) ''TR_tex_remap'',
        print_field (ucast (L2_enabled r)) ''L2_enabled'',
        print_field (ucast (EE r)) ''EE'',
        print_field (ucast (VE_vect_int r)) ''VE_vect_int'',
        print_field (ucast (XP_pt r)) ''XP_pt'',
        print_field (ucast (U_unaligned r)) ''U_unaligned'',
        print_field (ucast (F1 r)) ''F1'',
        print_field (ucast (RR_cache_rep r)) ''RR_cache_rep'',
        print_field (ucast (I_icache_enable r)) ''I_icache_enable'',
        print_field (ucast (Z_branch_pred r)) ''Z_branch_pred'',
        print_field (ucast (R_rom_prot r)) ''R_rom_prot'',
        print_field (ucast (S_prot r)) ''S_prot'',
        print_field (ucast (B_endian r)) ''B_endian'',
        print_field (ucast (W_write_buf r)) ''W_write_buf'',
        print_field (ucast (C_unified_enable r)) ''C_unified_enable'',
        print_field (ucast (A_alignment r)) ''A_alignment'',
        print_field (ucast (MMU_enabled r)) ''MMU_enabled''])"

section \<open>Translation tables and the TLB\<close>

text \<open>The pointer printed first is an argument.\<close>

definition fld_print :: "u32 \<Rightarrow> fld \<Rightarrow> u8 list res" where
  "fld_print ptr f =
     rbind (prints
       [printk_nl ''------------------------------'' [],
        printk_nl ''0x%x:'' [Num ptr],
        print_field (ucast (sec_base_addr f)) ''sec_base_addr'',
        tab_nl ''  --> va=0x%8x'' [Num (push_bit 20 (ucast (sec_base_addr f)))],
        tab_nl ''           76543210'' [],
        print_field (ucast (fld_nG f)) ''nG'',
        print_field (ucast (fld_S f)) ''S'',
        print_field (ucast (fld_APX f)) ''APX'',
        print_field (ucast (fld_TEX f)) ''TEX'',
        print_field (ucast (fld_AP f)) ''AP'',
        print_field (ucast (fld_IMP f)) ''IMP'',
        print_field (ucast (fld_domain f)) ''domain'',
        print_field (ucast (fld_XN f)) ''XN'',
        print_field (ucast (fld_C f)) ''C'',
        print_field (ucast (fld_B f)) ''B'',
        print_field (ucast (fld_tag f)) ''tag'']) (\<lambda>out.
     rbind (fld_check_valid f) (\<lambda>_. Inr out))"

definition ttbr_get :: "u32 \<Rightarrow> u32 \<Rightarrow> (u32 \<times> u32) res" where
  "ttbr_get r n = rbind (assert_that (n = 0)) (\<lambda>_. Inr (push_bit 14 (drop_bit 14 r), drop_bit 3 r AND 3))"

definition ttbr0_get :: "u32 \<Rightarrow> u32 \<Rightarrow> (u32 \<times> u32) res" where "ttbr0_get ttbr0 n = ttbr_get ttbr0 n"
definition ttbr1_get :: "u32 \<Rightarrow> u32 \<Rightarrow> (u32 \<times> u32) res" where "ttbr1_get ttbr1 n = ttbr_get ttbr1 n"

definition tlbr_print :: "u32 \<Rightarrow> u32 \<Rightarrow> u32 \<Rightarrow> u8 list res" where
  "tlbr_print ttbr0 ttbr1 base_ctrl =
     rbind (ttbr0_get ttbr0 0) (\<lambda>(base0, rgn0).
     rbind (ttbr1_get ttbr1 0) (\<lambda>(base1, rgn1).
     prints
       [printk_nl ''TLBR registers:'' [],
        tab_nl ''tlb base control: N=%b'' [Num base_ctrl],
        tab_nl ''TTBR0: base=%x, rgn=%b'' [Num base0, Num rgn0],
        tab_nl ''TTBR1: base=%x, rgn=%b'' [Num base1, Num rgn1]]))"

definition domain_acl_print :: "u32 \<Rightarrow> u8 list res" where
  "domain_acl_print acl = prints [printk_nl ''domain access control:'' [], tab_nl ''%b'' [Num acl]]"

definition tlb_get_pid :: "u32 \<Rightarrow> u32 \<times> u32" where
  "tlb_get_pid procid = (drop_bit 8 procid, procid AND 0xff)"

definition tlb_asid_print :: "u32 \<Rightarrow> u8 list res" where
  "tlb_asid_print procid =
     (let (pid, asid) = tlb_get_pid procid in printk_nl ''tlb procid = %x,  asid = %d'' [Num pid, Num asid])"

record tlb_config =
  unified_p :: "1 word"
  n_d_lock :: u8
  n_i_lock :: u8

definition tlb_config_of :: "u32 \<Rightarrow> tlb_config" where
  "tlb_config_of u = \<lparr>unified_p = ucast u, n_d_lock = ucast (drop_bit 8 u), n_i_lock = ucast (drop_bit 16 u)\<rparr>"

definition tlb_config_print :: "tlb_config \<Rightarrow> u8 list res" where
  "tlb_config_print c =
     prints
       [printk_nl ''TLB config:'' [],
        tab_nl ''unified=%d'' [Num (ucast (unified_p c))],
        tab_nl ''lockable data ent=%d'' [Num (ucast (n_d_lock c))],
        tab_nl ''lockable inst ent=%d'' [Num (ucast (n_i_lock c))]]"

section \<open>Caches\<close>

record cache_size =
  cs_len :: u8
  cs_m :: u8
  cs_assoc :: u8
  cs_size :: u8
  cs_p :: u8

definition get_size :: "u32 \<Rightarrow> cache_size" where
  "get_size u =
     \<lparr>cs_len = ucast (u AND 3), cs_m = ucast (drop_bit 2 u AND 1), cs_assoc = ucast (drop_bit 3 u AND 7),
      cs_size = ucast (drop_bit 6 u AND 15), cs_p = ucast (drop_bit 11 u AND 1)\<rparr>"

text \<open>The three switches: kilobytes, words in a line, ways.\<close>

definition cache_kb :: "cache_size \<Rightarrow> u32 res" where
  "cache_kb s =
     (let m = cs_m s; size = cs_size s in
      if size = 0 \<or> size = 1 \<or> size = 2 \<or> size = 3 then Inl PanicFault
      else if size = 4 then Inr (if m = 0 then 8 else 12)
      else if size = 5 then Inr (if m = 0 then 16 else 24)
      else if size = 6 then Inr (if m = 0 then 32 else 48)
      else if size = 7 then Inr (if m = 0 then 64 else 96)
      else if size = 8 then Inr (if m = 0 then 128 else 192)
      else Inl PanicFault)"

definition cache_line :: "cache_size \<Rightarrow> u32 res" where
  "cache_line s =
     (if cs_len s = 0 then Inr 2 else if cs_len s = 1 then Inr 4 else if cs_len s = 2 then Inr 8
      else if cs_len s = 3 then Inr 16 else Inl PanicFault)"

definition cache_ways :: "cache_size \<Rightarrow> u32 res" where
  "cache_ways s =
     (let m = cs_m s in
      if cs_assoc s = 0 then Inr (if m = 0 then 1 else 0)
      else if cs_assoc s = 1 then Inr (if m = 0 then 2 else 3)
      else if cs_assoc s = 2 then Inr (if m = 0 then 4 else 6)
      else if cs_assoc s = 3 then Inr (if m = 0 then 8 else 12)
      else if cs_assoc s = 4 then Inr (if m = 0 then 16 else 24)
      else Inl PanicFault)"

definition cache_size_print :: "u8 list \<Rightarrow> cache_size \<Rightarrow> u8 list res" where
  "cache_size_print msg s =
     prints
       [printk_nl ''%s:'' [Text msg],
        tab_nl ''m=%d'' [Num (ucast (cs_m s))],
        rbind (cache_kb s) (\<lambda>K. tab_nl ''cache size=%dK'' [Num K]),
        rbind (cache_line s) (\<lambda>W. tab_nl ''cache line length = %d words'' [Num W]),
        rbind (cache_ways s) (\<lambda>A. tab_nl ''assoc = %d-way'' [Num A]),
        if cs_p s \<noteq> 0 then tab_nl ''page allocation restriction'' []
        else tab_nl ''page allocation not restricted'' []]"

section \<open>The switches as a calculation\<close>

text \<open>The size is a power of two kilobytes, one and a half times that when M is set; likewise the ways.\<close>

definition scaled :: "u8 \<Rightarrow> nat \<Rightarrow> nat" where
  "scaled m n = (if m = 0 then 2 ^ n else 3 * 2 ^ n div 2)"

lemma small_cases:
  assumes "(x :: u8) \<le> 15"
  shows "x \<in> {0, 1, 2, 3, 4, 5, 6, 7, 8, 9, 10, 11, 12, 13, 14, 15}"
proof -
  have "unat x \<in> set [0..<16]" using assms by (simp add: word_le_nat_alt)
  then have "of_nat (unat x) \<in> set (map (of_nat :: nat \<Rightarrow> u8) [0..<16])" unfolding set_map by (rule imageI)
  then show ?thesis by (simp add: upt_rec)
qed

lemma cache_kb_calculated:
  assumes "cs_size s \<le> 15"
  shows "cache_kb s =
     (if 4 \<le> cs_size s \<and> cs_size s \<le> 8 then Inr (of_nat (scaled (cs_m s) (unat (cs_size s) - 1))) else Inl PanicFault)"
  using small_cases [OF assms] by (elim insertE emptyE) (simp_all add: cache_kb_def scaled_def word_le_nat_alt)

lemma cache_line_calculated:
  assumes "cs_len s \<le> 3"
  shows "cache_line s = Inr (2 ^ (unat (cs_len s) + 1))"
  using small_cases [of "cs_len s"] assms order_trans [OF assms, of 15]
  by (simp, elim disjE) (simp_all add: cache_line_def)

lemma cache_ways_calculated:
  assumes "cs_assoc s \<le> 7"
  shows "cache_ways s =
     (if cs_assoc s \<le> 4 then Inr (if cs_assoc s = 0 \<and> cs_m s \<noteq> 0 then 0 else of_nat (scaled (cs_m s) (unat (cs_assoc s))))
      else Inl PanicFault)"
  using small_cases [of "cs_assoc s"] assms order_trans [OF assms, of 15]
  by (simp, elim disjE) (simp_all add: cache_ways_def scaled_def word_le_nat_alt)

lemma masked_le: "unat m < 256 \<Longrightarrow> (ucast ((v :: u32) AND m) :: u8) \<le> ucast m"
proof -
  assume m: "unat m < 256"
  have "unat (v AND m) \<le> unat m" by (metis word_and_le1 word_le_nat_alt)
  then show ?thesis using m by (simp add: word_le_nat_alt unsigned_ucast_eq unsigned_take_bit_eq take_bit_eq_mod)
qed

lemma get_size_bounds:
  "cs_size (get_size u) \<le> 15" "cs_len (get_size u) \<le> 3" "cs_assoc (get_size u) \<le> 7"
  using masked_le [of 15 "drop_bit 6 u"] masked_le [of 3 u] masked_le [of 7 "drop_bit 3 u"]
  by (simp_all add: get_size_def)

text \<open>
  The switches of \<open>cache_size_print\<close> calculate: for any value of the register the size in kilobytes, the
  words of a line and the ways are the powers of two that the fields say, one and a half times as much with the
  bit M, and the function panics on exactly the sizes below 4 KB or above 128 KB and on the ways it does not know.
\<close>

theorem cache_size_calculated:
  "cache_kb (get_size u) =
     (let s = get_size u in if 4 \<le> cs_size s \<and> cs_size s \<le> 8
      then Inr (of_nat (scaled (cs_m s) (unat (cs_size s) - 1))) else Inl PanicFault)"
  "cache_line (get_size u) = Inr (2 ^ (unat (cs_len (get_size u)) + 1))"
  "cache_ways (get_size u) =
     (let s = get_size u in if cs_assoc s \<le> 4
      then Inr (if cs_assoc s = 0 \<and> cs_m s \<noteq> 0 then 0 else of_nat (scaled (cs_m s) (unat (cs_assoc s)))) else Inl PanicFault)"
  unfolding Let_def
  by (rule cache_kb_calculated cache_line_calculated cache_ways_calculated, rule get_size_bounds)+

section \<open>The validity check as a mask\<close>

lemma word_bits_iff: "(u :: 'a :: len word) = v \<longleftrightarrow> (\<forall>n < LENGTH('a). bit u n = bit v n)"
  using bit_word_eqI [of u v] by blast

lemma one_bit:
  "(ucast (drop_bit n u) :: 1 word) = 1 \<longleftrightarrow> bit (u :: u32) n" "(ucast (drop_bit n u) :: 1 word) = 0 \<longleftrightarrow> \<not> bit u n"
  by (simp_all add: word_bits_iff bit_simps)

lemma three_bits: "(ucast (drop_bit n u) :: 3 word) = 7 \<longleftrightarrow> bit (u :: u32) n \<and> bit u (n + 1) \<and> bit u (n + 2)"
  by (simp add: word_bits_iff bit_simps numeral_3_eq_3 All_less_Suc add.commute) (metis add_2_eq_Suc' bit_numeral_rec)

lemma upto_31: "[0..<32] = [0, 1, 2, 3, 4, 5, 6, 7, 8, 9, 10, 11, 12, 13, 14, 15, 16, 17, 18, 19, 20, 21, 22, 23, 24, 25, 26,
    27, 28, 29, 30, 31 :: nat]"
  by code_simp

text \<open>
  \<open>control_reg1_valid\<close> accepts exactly the register values in which bits 4, 5, 6, 16 and 18 are set and bits 2,
  12, 17, 19, 20 and 26 are clear, whatever the other bits are; every other value fails an assertion.
\<close>

theorem control_reg1_valid_mask:
  "control_reg1_valid (control_reg1_of u) = (if u AND 0x041F1074 = 0x00050070 then Inr () else Inl AssertFault)"
proof -
  have "u AND 0x041F1074 = 0x00050070 \<longleftrightarrow> (\<forall>n \<in> set [0..<32]. bit (u AND 0x041F1074) n = bit (0x00050070 :: u32) n)"
    by (simp add: word_bits_iff Ball_def)
  also have "\<dots> \<longleftrightarrow> bit u 4 \<and> bit u 5 \<and> bit u 6 \<and> bit u 16 \<and> bit u 18 \<and>
      \<not> bit u 2 \<and> \<not> bit u 12 \<and> \<not> bit u 17 \<and> \<not> bit u 19 \<and> \<not> bit u 20 \<and> \<not> bit u 26"
    unfolding upto_31 by (simp add: bit_simps) blast
  finally show ?thesis
    by (auto simp: control_reg1_valid_def control_reg1_of_def one_bit three_bits assert_that_def)
qed

end
