(* ===== verification/Pi_Layout.thy ===== *)
theory Pi_Layout
  imports Pi_Cp15
begin

text \<open>
  How the bit-field structures of kernel/vm.h lie in a word, and the checks of it in kernel/vm.c. The compiler puts
  the fields of a structure one after the other from bit 0 up; a structure is the list of its fields with their
  widths. The checks pass, and the records of the other theories take their fields from the same bits.
\<close>

section \<open>Structures of bit fields\<close>

type_synonym bit_struct = "(string \<times> nat) list"

fun field_pos :: "bit_struct \<Rightarrow> string \<Rightarrow> nat \<Rightarrow> (nat \<times> nat) option" where
  "field_pos [] field off = None"
| "field_pos ((f, n) # fs) field off = (if f = field then Some (off, n) else field_pos fs field (off + n))"

definition struct_bytes :: "bit_struct \<Rightarrow> nat" where
  "struct_bytes T = (sum_list (map snd T) + 31) div 32 * 4"

text \<open>The word of a structure that is zero but for one field.\<close>

definition with_field :: "bit_struct \<Rightarrow> string \<Rightarrow> u32 \<Rightarrow> u32 option" where
  "with_field T field v = map_option (\<lambda>(off, n). push_bit off (take_bit n v)) (field_pos T field 0)"

text \<open>A field that does not exist is an error of the compiler.\<close>

definition check_bitfield :: "bit_struct \<Rightarrow> string \<Rightarrow> nat \<Rightarrow> nat \<Rightarrow> unit res" where
  "check_bitfield T field off nbits =
     (let exp = push_bit off 1 in
      if with_field T field 1 \<noteq> Some exp then Inl PanicFault
      else
        let shift = 32 - nbits;
            set_all = drop_bit shift (push_bit shift (NOT 0));
            exp = push_bit off set_all
        in if with_field T field (NOT 0) \<noteq> Some exp then Inl PanicFault else Inr ())"

fun check_fields :: "bit_struct \<Rightarrow> (string \<times> nat \<times> nat) list \<Rightarrow> unit res" where
  "check_fields T [] = Inr ()"
| "check_fields T ((field, off, nbits) # cs) = rbind (check_bitfield T field off nbits) (\<lambda>_. check_fields T cs)"

section \<open>The structures of vm.h\<close>

definition fld_struct :: bit_struct where
  "fld_struct =
     [(''tag'', 2), (''B'', 1), (''C'', 1), (''XN'', 1), (''domain'', 4), (''IMP'', 1), (''AP'', 2), (''TEX'', 3), (''APX'', 1),
      (''S'', 1), (''nG'', 1), (''super'', 1), (''_sbz1'', 1), (''sec_base_addr'', 12)]"

definition tlb_config_struct :: bit_struct where
  "tlb_config_struct = [(''unified_p'', 1), (''_sbz0'', 7), (''n_d_lock'', 8), (''n_i_lock'', 8), (''_sbz1'', 8)]"

definition control_reg1_struct :: bit_struct where
  "control_reg1_struct =
     [(''MMU_enabled'', 1), (''A_alignment'', 1), (''C_unified_enable'', 1), (''W_write_buf'', 1), (''_unused1'', 3), (''B_endian'', 1),
      (''S_prot'', 1), (''R_rom_prot'', 1), (''F'', 1), (''Z_branch_pred'', 1), (''I_icache_enable'', 1), (''V_high_except_v'', 1),
      (''RR_cache_rep'', 1), (''L4'', 1), (''_dt'', 1), (''_sbz0'', 1), (''_it'', 1), (''_sbz1'', 1), (''_st'', 1), (''F1'', 1),
      (''U_unaligned'', 1), (''XP_pt'', 1), (''VE_vect_int'', 1), (''EE'', 1), (''L2_enabled'', 1), (''_reserved0'', 1),
      (''TR_tex_remap'', 1), (''FA_force_ap'', 1), (''_reserved1'', 2)]"

section \<open>The checks of vm.c\<close>

definition check_control_reg1 :: "unit res" where
  "check_control_reg1 =
     rbind (assert_that (struct_bytes control_reg1_struct = 4)) (\<lambda>_.
     check_fields control_reg1_struct
       [(''MMU_enabled'', 0, 1), (''A_alignment'', 1, 1), (''C_unified_enable'', 2, 1), (''W_write_buf'', 3, 1), (''B_endian'', 7, 1),
        (''S_prot'', 8, 1), (''R_rom_prot'', 9, 1), (''F'', 10, 1), (''Z_branch_pred'', 11, 1), (''I_icache_enable'', 12, 1),
        (''V_high_except_v'', 13, 1), (''RR_cache_rep'', 14, 1), (''L4'', 15, 1), (''F1'', 21, 1), (''U_unaligned'', 22, 1),
        (''XP_pt'', 23, 1), (''VE_vect_int'', 24, 1), (''EE'', 25, 1), (''L2_enabled'', 26, 1), (''TR_tex_remap'', 28, 1),
        (''FA_force_ap'', 29, 1)])"

definition check_tlb_config :: "unit res" where
  "check_tlb_config =
     rbind (assert_that (struct_bytes tlb_config_struct = 4)) (\<lambda>_.
     check_fields tlb_config_struct [(''unified_p'', 0, 1), (''n_d_lock'', 8, 8), (''n_i_lock'', 16, 8)])"

definition fld_check :: "unit res" where
  "fld_check =
     rbind (fld_check_valid fld_mk) (\<lambda>_.
     rbind (assert_that (struct_bytes fld_struct = 4)) (\<lambda>_.
     check_fields fld_struct
       [(''tag'', 0, 2), (''B'', 2, 1), (''C'', 3, 1), (''XN'', 4, 1), (''domain'', 5, 4), (''IMP'', 9, 1), (''AP'', 10, 2),
        (''TEX'', 12, 3), (''APX'', 15, 1), (''S'', 16, 1), (''nG'', 17, 1), (''super'', 18, 1), (''sec_base_addr'', 20, 12)]))"

section \<open>The checks pass\<close>

lemma check_bitfield_at:
  assumes "field_pos T field 0 = Some (off, n)" "0 < n" "n \<le> 32"
  shows "check_bitfield T field off n = Inr ()"
proof -
  have "drop_bit (32 - n) (push_bit (32 - n) (NOT 0)) = (take_bit n (NOT 0) :: u32)"
    by (rule bit_word_eqI) (use assms(3) in \<open>auto simp: bit_simps\<close>)
  moreover have "take_bit n (1 :: u32) = 1" using assms(2) by (cases n) simp_all
  ultimately show ?thesis using assms(1) by (simp add: check_bitfield_def with_field_def Let_def)
qed

lemma fld_check_passes: "fld_check = Inr ()"
  by (simp add: fld_check_def struct_bytes_def check_bitfield_at assert_that_def fld_struct_def fld_check_valid_def fld_mk_def fld_zero_def)

lemma check_tlb_config_passes: "check_tlb_config = Inr ()"
  by (simp add: check_tlb_config_def struct_bytes_def check_bitfield_at assert_that_def tlb_config_struct_def)

lemma check_control_reg1_passes: "check_control_reg1 = Inr ()"
  by (simp add: check_control_reg1_def struct_bytes_def check_bitfield_at assert_that_def control_reg1_struct_def)

section \<open>Descriptors as the memory management unit reads them\<close>

definition fld_word :: "fld \<Rightarrow> u32" where
  "fld_word f =
     ucast (fld_tag f) OR push_bit 2 (ucast (fld_B f)) OR push_bit 3 (ucast (fld_C f)) OR push_bit 4 (ucast (fld_XN f)) OR
     push_bit 5 (ucast (fld_domain f)) OR push_bit 9 (ucast (fld_IMP f)) OR push_bit 10 (ucast (fld_AP f)) OR
     push_bit 12 (ucast (fld_TEX f)) OR push_bit 15 (ucast (fld_APX f)) OR push_bit 16 (ucast (fld_S f)) OR
     push_bit 17 (ucast (fld_nG f)) OR push_bit 18 (ucast (fld_super f)) OR push_bit 19 (ucast (fld_sbz1 f)) OR
     push_bit 20 (ucast (sec_base_addr f))"

definition fld_of :: "u32 \<Rightarrow> fld" where
  "fld_of u =
     \<lparr>fld_tag = ucast u, fld_B = ucast (drop_bit 2 u), fld_C = ucast (drop_bit 3 u), fld_XN = ucast (drop_bit 4 u),
      fld_domain = ucast (drop_bit 5 u), fld_IMP = ucast (drop_bit 9 u), fld_AP = ucast (drop_bit 10 u), fld_TEX = ucast (drop_bit 12 u),
      fld_APX = ucast (drop_bit 15 u), fld_S = ucast (drop_bit 16 u), fld_nG = ucast (drop_bit 17 u), fld_super = ucast (drop_bit 18 u),
      fld_sbz1 = ucast (drop_bit 19 u), sec_base_addr = ucast (drop_bit 20 u)\<rparr>"

lemma fld_of_word: "fld_of (fld_word f) = f"
  by (rule fld.equality) (simp_all add: fld_of_def fld_word_def, (rule bit_word_eqI; auto simp: bit_simps dest: bit_imp_le_length)+)

end
