(* ===== verification/Pi_Platform.thy ===== *)
theory Pi_Platform
  imports Pi_Gpio
begin

text \<open>
  The platform layer in the directory of the SD driver, pi-side/kernel/disk/platform.c: access to registers, the mailbox of the video
  core, and waiting on the free-running counter. The device is the parameter of \<open>Pi_Gpio\<close>; the data memory barriers
  around an access order it with the others, as accesses are in the model. A loop that polls a register is a partial
  function: \<open>None\<close> is polling forever.
\<close>

section \<open>Registers and the mailbox\<close>

definition MAIL_BASE :: u32 where "MAIL_BASE = 0x2000B880"
definition MAIL_READ :: u32 where "MAIL_READ = 0x00"
definition MAIL_STATUS :: u32 where "MAIL_STATUS = 0x18"
definition MAIL_WRITE :: u32 where "MAIL_WRITE = 0x20"
definition MAIL_EMPTY :: u32 where "MAIL_EMPTY = 0x40000000"
definition MAIL_FULL :: u32 where "MAIL_FULL = 0x80000000"
definition TIMER_CLO :: u32 where "TIMER_CLO = 0x20003004"

definition mmio_write :: "'d bus \<Rightarrow> u32 \<Rightarrow> u32 \<Rightarrow> 'd \<Rightarrow> 'd" where
  "mmio_write B reg data d = bus_put B d reg data"

definition mmio_read :: "'d bus \<Rightarrow> u32 \<Rightarrow> 'd \<Rightarrow> u32 \<times> 'd" where
  "mmio_read B reg d = bus_get B d reg"

text \<open>\<open>while (mmio_read(MAIL_BASE + MAIL_STATUS) & flag);\<close>\<close>

partial_function (option) mail_poll :: "'d bus \<Rightarrow> u32 \<Rightarrow> 'd \<Rightarrow> 'd option" where
  "mail_poll B flag d =
     (let (status, d) = mmio_read B (MAIL_BASE + MAIL_STATUS) d in
      if status AND flag \<noteq> 0 then mail_poll B flag d else Some d)"

definition mbox_write :: "'d bus \<Rightarrow> u8 \<Rightarrow> u32 \<Rightarrow> 'd \<Rightarrow> 'd option" where
  "mbox_write B channel data d =
     Option.bind (mail_poll B MAIL_FULL d) (\<lambda>d.
     Some (mmio_write B (MAIL_BASE + MAIL_WRITE) ((data AND 0xfffffff0) OR ucast (channel AND 0xf)) d))"

partial_function (option) mbox_read :: "'d bus \<Rightarrow> u8 \<Rightarrow> 'd \<Rightarrow> (u32 \<times> 'd) option" where
  "mbox_read B channel d =
     Option.bind (mail_poll B MAIL_EMPTY d) (\<lambda>d.
     let (data, d) = mmio_read B (MAIL_BASE + MAIL_READ) d;
         read_channel = ucast (data AND 0xf)
     in if read_channel = channel then Some (data AND 0xfffffff0, d) else mbox_read B channel d)"

section \<open>Waiting\<close>

partial_function (option) usleep_loop :: "'d bus \<Rightarrow> u32 \<Rightarrow> bool \<Rightarrow> 'd \<Rightarrow> 'd option" where
  "usleep_loop B trigger_value rollover d =
     (let (cur_timer, d) = mmio_read B TIMER_CLO d in
      if cur_timer < trigger_value then usleep_loop B trigger_value False d
      else if \<not> rollover then Some d
      else usleep_loop B trigger_value rollover d)"

definition usleep :: "'d bus \<Rightarrow> u32 \<Rightarrow> 'd \<Rightarrow> 'd option" where
  "usleep B usec d =
     (let (cur_timer, d) = mmio_read B TIMER_CLO d;
          trigger_value = cur_timer + usec;
          rollover = \<not> trigger_value > cur_timer
      in usleep_loop B trigger_value rollover d)"

definition sleep_secs :: "'d bus \<Rightarrow> u32 \<Rightarrow> 'd \<Rightarrow> 'd option" where
  "sleep_secs B seconds d = usleep B (seconds * 1000000) d"

record timer_wait =
  trigger_value :: u32
  tw_usec :: u32
  rollover :: bool

definition register_timer :: "'d bus \<Rightarrow> u32 \<Rightarrow> 'd \<Rightarrow> timer_wait \<times> 'd" where
  "register_timer B usec d =
     (let (cur_timer, d) = mmio_read B TIMER_CLO d;
          tw = \<lparr>trigger_value = 0, tw_usec = usec, rollover = False\<rparr>;
          tw = (if usec > 0
                then let trigger = cur_timer + usec
                     in tw\<lparr>trigger_value := trigger, rollover := \<not> trigger > cur_timer\<rparr>
                else tw)
      in (tw, d))"

definition compare_timer :: "'d bus \<Rightarrow> timer_wait \<Rightarrow> 'd \<Rightarrow> bool \<times> timer_wait \<times> 'd" where
  "compare_timer B tw d =
     (let (cur_timer, d) = mmio_read B TIMER_CLO d in
      if cur_timer < trigger_value tw then
        (False, if rollover tw then tw\<lparr>rollover := False\<rparr> else tw, d)
      else if \<not> rollover tw then
        (True,
         if tw_usec tw > 0
         then let trigger = cur_timer + tw_usec tw
              in tw\<lparr>trigger_value := trigger, rollover := \<not> trigger > cur_timer\<rparr>
         else tw, d)
      else (False, tw, d))"

section \<open>The free-running counter\<close>

text \<open>
  What the manual promises of the counter: a read returns the low 32 bits of the number of microseconds that have
  passed, \<open>ns div 1000\<close>, and time goes on, by at most \<open>s\<close> microseconds from one poll to the next.
\<close>

definition free_running :: "'d bus \<Rightarrow> ('d \<Rightarrow> nat) \<Rightarrow> nat \<Rightarrow> bool" where
  "free_running B ns s \<longleftrightarrow> (\<forall>d. let (v, d') = mmio_read B TIMER_CLO d in
     v = of_nat (ns d div 1000) \<and> ns d < ns d' \<and> ns d' div 1000 \<le> ns d div 1000 + s)"

lemma free_runningE:
  assumes "free_running B ns s"
  obtains d' where "mmio_read B TIMER_CLO d = (of_nat (ns d div 1000), d')" "ns d < ns d'" "ns d div 1000 \<le> ns d' div 1000"
    "ns d' div 1000 \<le> ns d div 1000 + s"
proof -
  let ?d = "snd (mmio_read B TIMER_CLO d)"
  have "fst (mmio_read B TIMER_CLO d) = of_nat (ns d div 1000)" "ns d < ns ?d" "ns ?d div 1000 \<le> ns d div 1000 + s"
    using assms by (auto simp: free_running_def Let_def split_beta)
  moreover from this(2) have "ns d div 1000 \<le> ns ?d div 1000" by (simp add: div_le_mono)
  ultimately show ?thesis by (intro that [of ?d]) (auto simp: prod_eq_iff)
qed

lemma unat_reading: "b mod 4294967296 = 0 \<Longrightarrow> b \<le> t \<Longrightarrow> t < b + 4294967296 \<Longrightarrow> unat (of_nat t :: u32) = t - b"
proof -
  assume b: "b mod 4294967296 = 0" "b \<le> t" "t < b + 4294967296"
  then obtain q where q: "b = 4294967296 * q" by auto
  have "t mod 4294967296 = (t - b + 4294967296 * q) mod 4294967296" using b(2) q by simp
  also have "\<dots> = t - b" using b(2,3) by (simp only: mod_mult_self2) simp
  finally show ?thesis by (simp add: unat_of_nat)
qed

text \<open>Once the counter has wrapped, or if it need not: the loop ends with the first reading that has reached the trigger.\<close>

lemma usleep_loop_after:
  assumes c: "free_running B ns s" and b: "b mod 4294967296 = 0" and t: "unat trig + s \<le> 4294967296"
  shows "b \<le> ns d div 1000 \<Longrightarrow> ns d div 1000 < b + 4294967296 \<Longrightarrow>
    \<exists>d'. usleep_loop B trig False d = Some (snd (mmio_read B TIMER_CLO d')) \<and>
      b + unat trig \<le> ns d' div 1000 \<and> ns d' div 1000 \<le> max (ns d div 1000) (b + unat trig + s)"
proof (induction "(b + unat trig) * 1000 - ns d" arbitrary: d rule: less_induct)
  case less
  obtain d1 where d1: "mmio_read B TIMER_CLO d = (of_nat (ns d div 1000), d1)" "ns d < ns d1" "ns d div 1000 \<le> ns d1 div 1000"
    "ns d1 div 1000 \<le> ns d div 1000 + s" using free_runningE [OF c] by blast
  have u: "unat (of_nat (ns d div 1000) :: u32) = ns d div 1000 - b" using unat_reading [OF b less.prems] .
  show ?case
  proof (cases "ns d div 1000 < b + unat trig")
    case True
    then have lt: "(of_nat (ns d div 1000) :: u32) < trig" using u less.prems(1) by (simp add: word_less_nat_alt)
    have "ns d < (b + unat trig) * 1000" using True by (simp add: div_less_iff_less_mult)
    then have m: "(b + unat trig) * 1000 - ns d1 < (b + unat trig) * 1000 - ns d" using d1(2) by simp
    have "b \<le> ns d1 div 1000" "ns d1 div 1000 < b + 4294967296" using less.prems(1) d1(3,4) True t by simp_all
    from less.hyps [OF m this] obtain d' where d': "usleep_loop B trig False d1 = Some (snd (mmio_read B TIMER_CLO d'))"
      "b + unat trig \<le> ns d' div 1000" "ns d' div 1000 \<le> max (ns d1 div 1000) (b + unat trig + s)" by blast
    have "usleep_loop B trig False d = usleep_loop B trig False d1" using d1(1) lt by (subst usleep_loop.simps) simp
    moreover have "ns d' div 1000 \<le> max (ns d div 1000) (b + unat trig + s)" using d'(3) d1(4) True by linarith
    ultimately show ?thesis using d'(1,2) by (intro exI [of _ d']) simp
  next
    case False
    then have "\<not> (of_nat (ns d div 1000) :: u32) < trig" using u by (simp add: word_less_nat_alt)
    then have "usleep_loop B trig False d = Some d1" using d1(1) by (subst usleep_loop.simps) simp
    then show ?thesis using d1(1) False by (intro exI [of _ d]) simp
  qed
qed

text \<open>Before that, when the trigger lies beyond the wrap: the loop waits for a reading below the trigger.\<close>

lemma usleep_loop_before:
  assumes c: "free_running B ns s" and b: "b mod 4294967296 = 0" and t: "unat trig + s \<le> 4294967296" "s \<le> unat trig"
  shows "b + unat trig \<le> ns d div 1000 \<Longrightarrow> ns d div 1000 < b + 4294967296 + s \<Longrightarrow>
    \<exists>d'. usleep_loop B trig True d = Some (snd (mmio_read B TIMER_CLO d')) \<and>
      b + 4294967296 + unat trig \<le> ns d' div 1000 \<and> ns d' div 1000 \<le> b + 4294967296 + unat trig + s"
proof (induction "(b + 4294967296) * 1000 - ns d" arbitrary: d rule: less_induct)
  case less
  let ?b = "b + 4294967296"
  obtain d1 where d1: "mmio_read B TIMER_CLO d = (of_nat (ns d div 1000), d1)" "ns d < ns d1" "ns d div 1000 \<le> ns d1 div 1000"
    "ns d1 div 1000 \<le> ns d div 1000 + s" using free_runningE [OF c] by blast
  show ?case
  proof (cases "ns d div 1000 < ?b")
    case True
    then have u: "unat (of_nat (ns d div 1000) :: u32) = ns d div 1000 - b" using unat_reading [OF b] less.prems(1) by simp
    then have "\<not> (of_nat (ns d div 1000) :: u32) < trig" using less.prems(1) by (simp add: word_less_nat_alt)
    then have l: "usleep_loop B trig True d = usleep_loop B trig True d1" using d1(1) by (subst usleep_loop.simps) simp
    have "ns d < ?b * 1000" using True by (simp add: div_less_iff_less_mult)
    then have m: "?b * 1000 - ns d1 < ?b * 1000 - ns d" using d1(2) by simp
    have "b + unat trig \<le> ns d1 div 1000" "ns d1 div 1000 < ?b + s" using less.prems d1(3,4) True by simp_all
    from less.hyps [OF m this] show ?thesis unfolding l .
  next
    case False
    have b': "?b mod 4294967296 = 0" using b by simp
    have u: "unat (of_nat (ns d div 1000) :: u32) = ns d div 1000 - ?b"
      using unat_reading [OF b'] False less.prems(2) t by simp
    then have "(of_nat (ns d div 1000) :: u32) < trig" using less.prems(2) False t(2) by (simp add: word_less_nat_alt)
    then have l: "usleep_loop B trig True d = usleep_loop B trig False d1" using d1(1) by (subst usleep_loop.simps) simp
    have "?b \<le> ns d1 div 1000" "ns d1 div 1000 < ?b + 4294967296" using False less.prems(2) d1(3,4) t by simp_all
    from usleep_loop_after [OF c b' t(1) this] show ?thesis unfolding l using d1(4) less.prems(2) t by fastforce
  qed
qed

text \<open>
  C24: \<open>usleep\<close> waits for the time it was asked for, and for at most one poll longer, also when the counter wraps
  meanwhile, as long as the value it waits for is not within one poll of the wrap.
\<close>

theorem usleep_waits:
  assumes "free_running B ns s" "0 < usec"
    and "s \<le> unat (of_nat (ns d div 1000) + usec)" "unat (of_nat (ns d div 1000) + usec) + s \<le> 4294967296"
  shows "\<exists>d'. usleep B usec d = Some (snd (mmio_read B TIMER_CLO d')) \<and>
    ns d div 1000 + unat usec \<le> ns d' div 1000 \<and> ns d' div 1000 \<le> ns d div 1000 + unat usec + s"
proof -
  let ?t = "ns d div 1000" and ?cur = "of_nat (ns d div 1000) :: u32"
  define b where "b = ?t - ?t mod 4294967296"
  have b: "b mod 4294967296 = 0" "b \<le> ?t" "?t < b + 4294967296" and T: "?t = b + unat ?cur"
    by (simp_all add: b_def unat_of_nat minus_mod_eq_mult_div)
  obtain d1 where d1: "mmio_read B TIMER_CLO d = (?cur, d1)" "?t \<le> ns d1 div 1000" "ns d1 div 1000 \<le> ?t + s"
    using free_runningE [OF assms(1)] by blast
  have u: "unat usec < 4294967296" "unat ?cur < 4294967296" by (rule unat_u32_lt)+
  have sl: "usleep B usec d = usleep_loop B (?cur + usec) (\<not> ?cur + usec > ?cur) d1" by (simp add: usleep_def d1(1) Let_def)
  show ?thesis
  proof (cases "unat ?cur + unat usec < 4294967296")
    case True
    then have v: "unat (?cur + usec) = unat ?cur + unat usec" by (simp add: unat_word_ariths)
    moreover have "0 < unat usec" using assms(2) by (simp add: word_less_nat_alt)
    ultimately have "?cur + usec > ?cur" by (simp add: word_less_nat_alt)
    then have sl: "usleep B usec d = usleep_loop B (?cur + usec) False d1" using sl by simp
    have "b \<le> ns d1 div 1000" "ns d1 div 1000 < b + 4294967296" using b(2) T d1(2,3) v assms(2,4) \<open>0 < unat usec\<close> by linarith+
    from usleep_loop_after [OF assms(1) b(1) assms(4) this] show ?thesis
      unfolding sl using v T d1(3) by fastforce
  next
    case False
    then have v: "unat (?cur + usec) = unat ?cur + unat usec - 4294967296"
      using u by (simp add: unat_word_ariths mod_if)
    then have "\<not> ?cur + usec > ?cur" using u by (simp add: word_less_nat_alt)
    then have sl: "usleep B usec d = usleep_loop B (?cur + usec) True d1" using sl by simp
    have "b + unat (?cur + usec) \<le> ns d1 div 1000" "ns d1 div 1000 < b + 4294967296 + s" using b(3) T d1(2,3) v u by linarith+
    from usleep_loop_before [OF assms(1) b(1) assms(4,3) this] show ?thesis
      unfolding sl using v T False by fastforce
  qed
qed

text \<open>A counter that moves by half a microsecond with each read.\<close>

definition tick_bus :: "nat bus" where
  "tick_bus = \<lparr>bus_get = (\<lambda>d a. (of_nat (d div 2), d + 1)), bus_put = (\<lambda>d _ _. d), bus_wait = (\<lambda>d _. d), bus_wait_us = (\<lambda>d _. d)\<rparr>"

lemma tick_free_running: "free_running tick_bus (\<lambda>d. d * 500) 1"
proof -
  have "d * 500 div 1000 = d div 2" for d :: nat using div_mult_mult2 [of 500 d 2] by simp
  then have "d * 500 div 1000 = d div 2" "(d + 1) * 500 div 1000 = (d + 1) div 2" for d :: nat by blast+
  moreover have "(d + 1) div 2 \<le> d div 2 + 1" for d :: nat by linarith
  ultimately show ?thesis by (simp add: free_running_def tick_bus_def mmio_read_def del: add_Suc_right)
qed

theorem usleep_waits_witness:
  "\<exists>d'. usleep tick_bus 30 (2 * 4294967290) = Some (snd (mmio_read tick_bus TIMER_CLO d')) \<and> 4294967320 \<le> d' div 2"
proof -
  have "(2 * 4294967290 :: nat) * 500 div 1000 = 4294967290" by simp
  moreover from this have "s \<le> unat (of_nat (2 * 4294967290 * 500 div 1000) + 30 :: u32) \<and> unat (of_nat (2 * 4294967290 * 500 div 1000) + 30 :: u32) + s \<le> 4294967296"
    if "s = 1" for s using that by simp
  ultimately obtain d' where "usleep tick_bus 30 (2 * 4294967290) = Some (snd (mmio_read tick_bus TIMER_CLO d'))"
    "4294967290 + 30 \<le> d' * 500 div 1000"
    using usleep_waits [OF tick_free_running, of 30 "2 * 4294967290"] by auto
  then show ?thesis by (intro exI [of _ d']) auto
qed

text \<open>
  Without that margin it can fail: when the counter plus the delay is exactly a multiple of \<open>2 ^ 32\<close>, the trigger is 0,
  no reading is below it, and \<open>usleep\<close> never returns, whatever the counter does; \<open>usleep(0)\<close> at a reading of 0 is a case.
\<close>

lemma usleep_loop_zero: "usleep_loop B trig r d = Some d' \<Longrightarrow> trig = 0 \<longrightarrow> \<not> r"
proof (erule usleep_loop.raw_induct [rotated])
  fix f :: "'a bus \<Rightarrow> u32 \<Rightarrow> bool \<Rightarrow> 'a \<Rightarrow> 'a option" and B trig r d d'
  assume IH: "\<And>B trig r d d'. f B trig r d = Some d' \<Longrightarrow> trig = 0 \<longrightarrow> \<not> r"
    and "(let (cur, d) = mmio_read B TIMER_CLO d in
      if cur < trig then f B trig False d else if \<not> r then Some d else f B trig r d) = Some d'"
  then show "trig = 0 \<longrightarrow> \<not> r" using IH by (auto simp: Let_def split: prod.splits if_splits) blast
qed

lemma usleep_hangs:
  assumes "fst (mmio_read B TIMER_CLO d) + usec = 0"
  shows "usleep B usec d = None"
proof -
  obtain cur d1 where r: "mmio_read B TIMER_CLO d = (cur, d1)" by fastforce
  then have "usleep B usec d = usleep_loop B 0 True d1" using assms by (simp add: usleep_def)
  then show ?thesis using usleep_loop_zero [of B 0 True d1] by (cases "usleep_loop B 0 True d1") auto
qed

text \<open>Polling with \<open>compare_timer\<close> is the loop of \<open>usleep\<close>, one round at a time.\<close>

lemma usleep_loop_compare:
  "usleep_loop B (trigger_value tw) (rollover tw) d =
     (let (fired, tw', d') = compare_timer B tw d in
      if fired then Some d' else usleep_loop B (trigger_value tw') (rollover tw') d')"
  by (subst usleep_loop.simps) (auto simp: compare_timer_def Let_def split: prod.splits)

section \<open>The mailbox\<close>

text \<open>
  The promises of the mailbox to its reader: the words that the video core sends come one by one and in order; a status
  without the empty flag means that the next word is there, and while words are on their way the flag is cleared after
  some polls, bounded by \<open>mail_delay\<close>.
\<close>

record 'd mailbox =
  mail_words :: "'d \<Rightarrow> u32 list"
  mail_there :: "'d \<Rightarrow> bool"
  mail_delay :: "'d \<Rightarrow> nat"

definition delivers_mail :: "'d bus \<Rightarrow> 'd mailbox \<Rightarrow> bool" where
  "delivers_mail B M \<longleftrightarrow>
     (\<forall>d v d'. mmio_read B (MAIL_BASE + MAIL_STATUS) d = (v, d') \<longrightarrow>
        mail_words M d' = mail_words M d \<and> (v AND MAIL_EMPTY = 0 \<longrightarrow> mail_there M d') \<and>
        (mail_words M d \<noteq> [] \<and> v AND MAIL_EMPTY \<noteq> 0 \<longrightarrow> mail_delay M d' < mail_delay M d)) \<and>
     (\<forall>d w ws v d'. mail_there M d \<and> mail_words M d = w # ws \<and> mmio_read B (MAIL_BASE + MAIL_READ) d = (v, d') \<longrightarrow>
        v = w \<and> mail_words M d' = ws)"

definition mail_channel :: "u32 \<Rightarrow> u8" where
  "mail_channel w = ucast (w AND 0xf)"

lemma mail_poll_there:
  assumes "delivers_mail B M" "mail_words M d \<noteq> []"
  shows "\<exists>d'. mail_poll B MAIL_EMPTY d = Some d' \<and> mail_there M d' \<and> mail_words M d' = mail_words M d"
  using assms(2)
proof (induction "mail_delay M d" arbitrary: d rule: less_induct)
  case less
  obtain v d1 where r: "mmio_read B (MAIL_BASE + MAIL_STATUS) d = (v, d1)" by fastforce
  then have l: "mail_words M d1 = mail_words M d" "v AND MAIL_EMPTY = 0 \<longrightarrow> mail_there M d1"
    "v AND MAIL_EMPTY \<noteq> 0 \<longrightarrow> mail_delay M d1 < mail_delay M d"
    using assms(1) less.prems unfolding delivers_mail_def by blast+
  show ?case
  proof (cases "v AND MAIL_EMPTY = 0")
    case True
    then show ?thesis using l by (subst mail_poll.simps) (simp add: r)
  next
    case False
    then show ?thesis using less.hyps [of d1] l less.prems by (subst mail_poll.simps) (simp add: r)
  qed
qed

text \<open>
  \<open>mbox_read\<close> returns the payload of the first word of the mailbox that is meant for the channel, as soon as it
  has come; the words before it, which were meant for other channels, are thrown away, the ones after it stay.
\<close>

theorem mbox_read_first:
  assumes "delivers_mail B M" "mail_words M d = us @ w # ws" "mail_channel w = c" "\<forall>u \<in> set us. mail_channel u \<noteq> c"
  shows "\<exists>d'. mbox_read B c d = Some (w AND 0xfffffff0, d') \<and> mail_words M d' = ws"
  using assms(2,4)
proof (induction us arbitrary: d)
  case Nil
  obtain d1 where d1: "mail_poll B MAIL_EMPTY d = Some d1" "mail_there M d1" "mail_words M d1 = w # ws"
    using mail_poll_there [OF assms(1), of d] Nil by auto
  obtain v d2 where r: "mmio_read B (MAIL_BASE + MAIL_READ) d1 = (v, d2)" by fastforce
  then have "v = w" "mail_words M d2 = ws" using assms(1) d1(2,3) unfolding delivers_mail_def by blast+
  then show ?case using d1(1) r assms(3) by (subst mbox_read.simps) (simp add: mail_channel_def)
next
  case (Cons u us)
  obtain d1 where d1: "mail_poll B MAIL_EMPTY d = Some d1" "mail_there M d1" "mail_words M d1 = u # us @ w # ws"
    using mail_poll_there [OF assms(1), of d] Cons.prems(1) by auto
  obtain v d2 where r: "mmio_read B (MAIL_BASE + MAIL_READ) d1 = (v, d2)" by fastforce
  then have v: "v = u" "mail_words M d2 = us @ w # ws" using assms(1) d1(2,3) unfolding delivers_mail_def by blast+
  have "mbox_read B c d = mbox_read B c d2"
    using d1(1) r v(1) Cons.prems(2) by (subst mbox_read.simps) (simp add: mail_channel_def)
  then show ?case using Cons.IH [OF v(2)] Cons.prems(2) by simp
qed

text \<open>A mailbox in which each word can be seen at the second look.\<close>

definition mail_bus :: "(u32 list \<times> bool) bus" where
  "mail_bus = \<lparr>bus_get = (\<lambda>(ws, b) a.
       if a = MAIL_BASE + MAIL_STATUS then (if b \<and> ws \<noteq> [] then 0 else MAIL_EMPTY, ws, True)
       else if ws = [] then (0, ws, b) else (hd ws, tl ws, False)),
     bus_put = (\<lambda>d _ _. d), bus_wait = (\<lambda>d _. d), bus_wait_us = (\<lambda>d _. d)\<rparr>"

definition mail_view :: "(u32 list \<times> bool) mailbox" where
  "mail_view = \<lparr>mail_words = fst, mail_there = (\<lambda>(ws, b). ws \<noteq> []), mail_delay = (\<lambda>(_, b). if b then 0 else 1)\<rparr>"

lemma mail_bus_delivers: "delivers_mail mail_bus mail_view"
proof -
  have "MAIL_BASE + MAIL_READ \<noteq> MAIL_BASE + MAIL_STATUS" "MAIL_EMPTY \<noteq> 0"
    by (simp_all add: MAIL_READ_def MAIL_STATUS_def MAIL_EMPTY_def)
  then show ?thesis by (auto simp: delivers_mail_def mail_bus_def mail_view_def mmio_read_def Let_def)
qed

theorem mbox_read_first_witness:
  "\<exists>d'. mbox_read mail_bus 8 ([0x31, 0x1208, 0x55], False) = Some (0x1200, d') \<and> fst d' = [0x55]"
  using mbox_read_first [OF mail_bus_delivers, of "([0x31, 0x1208, 0x55], False)" "[0x31]" "0x1208" "[0x55]" 8]
  by (simp add: mail_view_def mail_channel_def)

end
