(* ===== verification/Pi_Start.thy ===== *)
theory Pi_Start
  imports Pi_Gpio Pi_Vm_Boot
begin

text \<open>
  What runs around a program: pi-side/libpi/cstart.c, which clears the bss and calls \<open>notmain\<close>, cache.c, and my-gpio.c,
  the first version of the pin functions, which the build leaves out.
\<close>

section \<open>Start of a program (cstart.c)\<close>

text \<open>The loop \<open>while (bss < bss_end) *bss++ = 0\<close> over words; it does not return if the pointer wraps around below the end.\<close>

partial_function (option) clear_bss :: "u32 \<Rightarrow> u32 \<Rightarrow> mem \<Rightarrow> mem option" where
  "clear_bss bss bss_end m = (if bss < bss_end then clear_bss (bss + 4) bss_end (PUT32 m bss 0) else Some m)"

text \<open>The program itself is the parameter \<open>main\<close>, on memory and devices; the result is what \<open>rpi_reboot\<close> leaves.\<close>

definition cstart :: "'d bus \<Rightarrow> u32 \<Rightarrow> (mem \<Rightarrow> 'd \<Rightarrow> (mem \<times> 'd) res option) \<Rightarrow> u32 \<Rightarrow> u32 \<Rightarrow> mem \<Rightarrow> 'd \<Rightarrow>
    (u32 \<times> 'd) res option" where
  "cstart B cpsr main bss bss_end m d =
     Option.bind (clear_bss bss bss_end m) (\<lambda>m.
     Option.bind (main m d) (\<lambda>r. Some (rbind r (\<lambda>(m, d). rpi_reboot B cpsr d))))"

section \<open>Caches (cache.c)\<close>

definition enable_cache :: "cpu \<Rightarrow> cpu" where
  "enable_cache c = c\<lparr>ctrl := ctrl c OR push_bit 12 1 OR push_bit 11 1\<rparr>"

definition disable_cache :: "cpu \<Rightarrow> cpu" where
  "disable_cache c = c\<lparr>ctrl := ctrl c AND NOT (push_bit 12 1) AND NOT (push_bit 11 1)\<rparr>"

section \<open>Pins, first version (my-gpio.c)\<close>

definition my_gpio_set_function :: "'d bus \<Rightarrow> u32 \<Rightarrow> u32 \<Rightarrow> 'd \<Rightarrow> u32 \<times> 'd" where
  "my_gpio_set_function B pin val d =
     (if pin \<ge> 32 then (- 1, d)
      else if val AND 7 \<noteq> val then (- 1, d)
      else
        let gp = GPIO_BASE + 4 * (pin div 10);
            off = unat (pin mod 10 * 3);
            (v, d) = bus_get B d gp;
            v = v AND NOT (push_bit off 7);
            v = v OR push_bit off val
        in (0, bus_put B d gp v))"

definition my_gpio_set_output :: "'d bus \<Rightarrow> u32 \<Rightarrow> 'd \<Rightarrow> u32 \<times> 'd" where
  "my_gpio_set_output B pin = my_gpio_set_function B pin GPIO_FUNC_OUTPUT"

definition my_gpio_set_input :: "'d bus \<Rightarrow> u32 \<Rightarrow> 'd \<Rightarrow> u32 \<times> 'd" where
  "my_gpio_set_input B pin = my_gpio_set_function B pin GPIO_FUNC_INPUT"

definition my_gpio_set_off :: "'d bus \<Rightarrow> u32 \<Rightarrow> 'd \<Rightarrow> u32 \<times> 'd" where
  "my_gpio_set_off B pin d =
     (if pin \<ge> 32 then (- 1, d) else (0, bus_put B d (GPIO_BASE + 0x28) (push_bit (unat pin) 1)))"

definition my_gpio_set_on :: "'d bus \<Rightarrow> u32 \<Rightarrow> 'd \<Rightarrow> u32 \<times> 'd" where
  "my_gpio_set_on B pin d =
     (if pin \<ge> 32 then (- 1, d) else (0, bus_put B d (GPIO_BASE + 0x1c) (push_bit (unat pin) 1)))"

definition my_gpio_write :: "'d bus \<Rightarrow> u32 \<Rightarrow> u32 \<Rightarrow> 'd \<Rightarrow> u32 \<times> 'd" where
  "my_gpio_write B pin v = (if v \<noteq> 0 then my_gpio_set_on B pin else my_gpio_set_off B pin)"

definition my_gpio_read :: "'d bus \<Rightarrow> u32 \<Rightarrow> 'd \<Rightarrow> (u32 \<times> 'd) res" where
  "my_gpio_read B pin d =
     rbind (assert_that (pin < 32)) (\<lambda>_.
     let bank = GPIO_BASE + 0x34 + pin div 32;
         off = unat (pin mod 32);
         (v, d) = bus_get B d bank
     in Inr (drop_bit off v AND 1, d))"

section \<open>The bss is clear when the program starts\<close>

text \<open>The number of words that the loop writes: the last one may reach up to three bytes past the end.\<close>

definition bss_words :: "u32 \<Rightarrow> u32 \<Rightarrow> nat" where
  "bss_words bss bss_end = (unat bss_end - unat bss + 3) div 4"

lemma clear_bss_eq:
  assumes "unat bss + 4 * bss_words bss bss_end < 4294967296"
  shows "clear_bss bss bss_end m = Some (store_bytes m bss (replicate (4 * bss_words bss bss_end) 0))"
  using assms
proof (induction "bss_words bss bss_end" arbitrary: bss m)
  case 0
  then have "unat bss_end \<le> unat bss" by (simp add: bss_words_def)
  then show ?case using 0 by (subst clear_bss.simps) (simp add: word_less_nat_alt)
next
  case (Suc n)
  have lt: "unat bss < unat bss_end" using Suc.hyps(2) by (simp add: bss_words_def)
  have u: "unat (bss + 4) = unat bss + 4" using Suc.prems Suc.hyps(2) by (simp add: unat_word_ariths)
  then have n: "n = bss_words (bss + 4) bss_end" using Suc.hyps(2) lt by (simp add: bss_words_def)
  have "clear_bss (bss + 4) bss_end (PUT32 m bss 0) =
      Some (store_bytes (PUT32 m bss 0) (bss + 4) (replicate (4 * n) 0))"
    using Suc.hyps(1) [OF n] Suc.prems Suc.hyps(2) u n by simp
  moreover have "store_bytes (PUT32 m bss 0) (bss + 4) (replicate (4 * n) 0) = store_bytes m bss (replicate (4 * Suc n) 0)"
  proof -
    have w: "PUT32 m bss 0 = store_bytes m bss (replicate 4 0)" unfolding PUT32_def by (rule arg_cong [of "word_bytes 0"]) code_simp
    have "4 + 4 * n \<le> 4294967296" using Suc.prems Suc.hyps(2) by simp
    then have "store_bytes m bss (replicate 4 0 @ replicate (4 * n) 0) = store_bytes (PUT32 m bss 0) (bss + 4) (replicate (4 * n) 0)"
      unfolding w by (subst store_bytes_append) simp_all
    then show ?thesis unfolding replicate_add [symmetric] by simp
  qed
  ultimately show ?case using lt Suc.hyps(2) by (subst clear_bss.simps) (simp add: word_less_nat_alt)
qed

text \<open>
  C25: \<open>_cstart\<close> enters \<open>notmain\<close> with every byte of the bss zero and, up to the end of the last word of the bss, no
  other byte of memory changed, and reboots when \<open>notmain\<close> returns; this holds for a bss of any size, the empty one
  included, that ends at least a word below the end of the address space.
\<close>

theorem cstart_clears_bss:
  assumes "unat bss_end + 4 < 4294967296"
  shows "\<exists>m'. cstart B cpsr main bss bss_end m d = Option.bind (main m' d) (\<lambda>r. Some (rbind r (\<lambda>(m, d). rpi_reboot B cpsr d))) \<and>
    (\<forall>a. bss \<le> a \<and> a < bss_end \<longrightarrow> m' a = 0) \<and> (\<forall>a. a < bss \<or> a \<ge> bss_end + 3 \<or> bss_end \<le> bss \<longrightarrow> m' a = m a)"
proof (cases "bss < bss_end")
  case True
  let ?n = "4 * bss_words bss bss_end" and ?m = "store_bytes m bss (replicate (4 * bss_words bss bss_end) 0)"
  have lt: "unat bss < unat bss_end" using True by (simp add: word_less_nat_alt)
  have n: "unat bss_end \<le> unat bss + ?n" "unat bss + ?n \<le> unat bss_end + 3" using lt by (simp_all add: bss_words_def)
  have c: "cstart B cpsr main bss bss_end m d = Option.bind (main ?m d) (\<lambda>r. Some (rbind r (\<lambda>(m, d). rpi_reboot B cpsr d)))"
    using clear_bss_eq [of bss bss_end m] n assms by (simp add: cstart_def)
  have "?m a = 0" if "bss \<le> a" "a < bss_end" for a
  proof -
    have "unat (a - bss) < ?n" using that n(1) by (simp add: unat_sub word_le_nat_alt word_less_nat_alt)
    then show ?thesis by (simp add: store_bytes_def)
  qed
  moreover have "?m a = m a" if "a < bss \<or> a \<ge> bss_end + 3" for a
  proof -
    have "unat (bss_end + 3) = unat bss_end + 3" using assms by (simp add: unat_word_ariths)
    then have "?n \<le> unat (a - bss)"
      using that n(2) lt unat_u32_lt [of bss] assms
      by (auto simp: word_le_nat_alt word_less_nat_alt unat_sub_if')
    then show ?thesis by (simp add: store_bytes_def)
  qed
  ultimately show ?thesis using c True by (intro exI [of _ ?m]) auto
next
  case False
  then have "clear_bss bss bss_end m = Some m" by (subst clear_bss.simps) simp
  then show ?thesis using False by (intro exI [of _ m]) (auto simp: cstart_def)
qed

definition idle_bus :: "unit bus" where
  "idle_bus = \<lparr>bus_get = \<lambda>d _. (0, d), bus_put = \<lambda>d _ _. d, bus_wait = \<lambda>d _. d, bus_wait_us = \<lambda>d _. d\<rparr>"

theorem cstart_clears_bss_witness:
  "\<exists>m' :: mem. m' 0x8102 = 0 \<and> m' 0x80FF = 7 \<and> m' 0x8106 = 7 \<and>
     cstart idle_bus 0x13 (\<lambda>m d. Some (Inr (m, d))) 0x8100 0x8103 (\<lambda>_. 7) () = Some (rpi_reboot idle_bus 0x13 ())"
proof -
  have "unat (0x8103 :: u32) + 4 < 4294967296" by simp
  from cstart_clears_bss [OF this, of idle_bus "0x13" "\<lambda>m d. Some (Inr (m, d))" "0x8100" "\<lambda>_. 7" "()"] obtain m' :: mem where m':
    "cstart idle_bus 0x13 (\<lambda>m d. Some (Inr (m, d))) 0x8100 0x8103 (\<lambda>_. 7) () = Some (rpi_reboot idle_bus 0x13 ())"
    "\<And>a. 0x8100 \<le> a \<Longrightarrow> a < 0x8103 \<Longrightarrow> m' a = 0" "\<And>a. a < 0x8100 \<or> a \<ge> 0x8103 + 3 \<Longrightarrow> m' a = 7" by auto
  show ?thesis using m'(1) m'(2) [of "0x8102"] m'(3) [of "0x80FF"] m'(3) [of "0x8106"] by (intro exI [of _ m']) simp
qed

section \<open>Both versions of the pin functions\<close>

text \<open>The two versions do the same to the pins below 32; they answer success with 0 here and with 1 there.\<close>

lemma pin_below_32:
  "pin < 32 \<Longrightarrow> pin \<le> GPIO_PIN_LAST \<and> unat (pin div 32) = 0 \<and> pin mod 32 = pin \<and> unat pin < 32 \<and>
    gpio_fsel ! unat (pin div 10) = GPIO_BASE + 4 * (pin div 10) \<and> unat (pin mod 10 * 3) = 3 * unat (pin mod 10)"
proof -
  assume p: "pin < 32"
  then have u: "unat pin < 32" by (simp add: word_less_nat_alt)
  then have "unat pin div 10 < 4" by linarith
  then have "unat (pin div 10) \<in> {0, 1, 2, 3}" by (auto simp: unat_div_distrib)
  then consider "pin div 10 = 0" | "pin div 10 = 1" | "pin div 10 = 2" | "pin div 10 = 3"
    by (auto simp: word_unat_eq_iff)
  then have "gpio_fsel ! unat (pin div 10) = GPIO_BASE + 4 * (pin div 10)"
    by cases (simp_all add: gpio_fsel_def)
  then show ?thesis using p u
    by (simp add: GPIO_PIN_LAST_def word_le_nat_alt word_less_nat_alt unat_div_distrib unat_mod_distrib word_unat_eq_iff unat_word_ariths)
qed

lemma seven_mask: "(7 :: u32) = GPIO_FUNC_MASK"
  by (simp add: GPIO_FUNC_MASK_def GPIO_FUNC_BITS_def push_bit_eq_mult)

lemma function_small: "val AND 7 = val \<longleftrightarrow> val \<le> GPIO_FUNC_MASK" for val :: u32
proof
  assume "val AND 7 = val"
  then show "val \<le> GPIO_FUNC_MASK" by (metis seven_mask word_and_le1)
next
  assume "val \<le> GPIO_FUNC_MASK"
  then show "val AND 7 = val" using small_bits [of val] unfolding seven_mask func_mask by (simp add: take_bit_eq_mask)
qed

text \<open>
  Below pin 32 the first version of the pin functions and the one that is built have the same effect on the
  device for every function, every value written and every level read; from pin 32 on, the first version refuses.
\<close>

theorem my_gpio_agrees:
  "if pin < 32 then
     snd (my_gpio_set_function B pin fn d) = snd (gpio_set_function B pin fn d) \<and>
     (fst (my_gpio_set_function B pin fn d) = 0 \<longleftrightarrow> fst (gpio_set_function B pin fn d) = 1) \<and>
     snd (my_gpio_write B pin v d) = snd (gpio_write B pin v d) \<and>
     my_gpio_read B pin d = Inr (gpio_read B pin d)
   else my_gpio_set_function B pin fn d = (- 1, d) \<and> my_gpio_write B pin v d = (- 1, d) \<and> my_gpio_read B pin d = Inl AssertFault"
proof (cases "pin < 32")
  case True
  note p = pin_below_32 [OF True]
  have z: "pin div 32 = 0" using p by (simp add: word_unat_eq_iff)
  have np: "\<not> 32 \<le> pin" "\<not> GPIO_PIN_LAST < pin" using True p by (simp_all add: not_le not_less)
  have "my_gpio_set_function B pin fn d = (if fn \<le> GPIO_FUNC_MASK then (0, snd (gpio_set_function B pin fn d)) else (- 1, d))"
    unfolding my_gpio_set_function_def function_small gpio_set_function_def
    using p np by (auto simp: Let_def split_beta seven_mask GPIO_FUNC_BITS_def not_less not_le)
  moreover have "snd (my_gpio_write B pin v d) = snd (gpio_write B pin v d)"
    using p np by (simp add: my_gpio_write_def my_gpio_set_on_def my_gpio_set_off_def gpio_write_def gpio_set_def gpio_clr_def)
  moreover have "my_gpio_read B pin d = Inr (gpio_read B pin d)"
    using True p z np by (simp add: my_gpio_read_def gpio_read_def gpio_lvl_def Let_def split_beta)
  moreover have "fst (gpio_set_function B pin fn d) = (if fn \<le> GPIO_FUNC_MASK then 1 else 0)"
    "\<not> fn \<le> GPIO_FUNC_MASK \<Longrightarrow> snd (gpio_set_function B pin fn d) = d"
    using np by (auto simp: gpio_set_function_def Let_def split_beta)
  ultimately show ?thesis using True by simp
next
  case False
  then show ?thesis by (simp add: my_gpio_set_function_def my_gpio_write_def my_gpio_set_on_def my_gpio_set_off_def my_gpio_read_def assert_that_def)
qed

end
