(* ===== verification/Pi_Programs.thy ===== *)
theory Pi_Programs
  imports Pi_Gpio
begin

text \<open>
  Small parts of the Pi side that only drive the others: what a panic does (libpi/assert.h), the exceptions that the
  kernel does not handle (kernel/interrupts.c), the printing of a pulse pattern (libpi/pwm.c), and the program usr/blink.
\<close>

section \<open>Panics\<close>

text \<open>
  \<open>panic(msg, args)\<close> in the function \<open>func\<close> at line \<open>line\<close> of \<open>file\<close>: the message is sent to the serial port, then the Pi
  reboots. \<open>None\<close> is waiting forever for the port.
\<close>

definition panic_message :: "u8 list \<Rightarrow> string \<Rightarrow> u32 \<Rightarrow> string \<Rightarrow> arg list \<Rightarrow> u8 list res" where
  "panic_message file func line msg args = printk_nl (''PANIC:%s:%s:%d:'' @ msg) (Text file # Text (str func) # Num line # args)"

definition panic :: "'d bus \<Rightarrow> u32 \<Rightarrow> u8 list \<Rightarrow> string \<Rightarrow> u32 \<Rightarrow> string \<Rightarrow> arg list \<Rightarrow> 'd \<Rightarrow> (u32 \<times> 'd) res option" where
  "panic B cpsr file func line msg args d =
     (case panic_message file func line msg args of
        Inl e \<Rightarrow> Some (Inl e)
      | Inr out \<Rightarrow>
          Option.bind (exec_io B (foldr PutByte (putk out) (Ret ())) d) (\<lambda>(_, d). Some (rpi_reboot B cpsr d)))"

section \<open>Exceptions without a handler (interrupts.c)\<close>

datatype exn = GeneralInterrupt | FastInterrupt | Reset | UndefinedInstruction | PrefetchAbort | DataAbort

fun vector_function :: "exn \<Rightarrow> string" where
  "vector_function GeneralInterrupt = ''interrupt_vector''"
| "vector_function FastInterrupt = ''fast_interrupt_vector''"
| "vector_function Reset = ''reset_vector''"
| "vector_function UndefinedInstruction = ''undefined_instruction_vector''"
| "vector_function PrefetchAbort = ''prefetch_abort_vector''"
| "vector_function DataAbort = ''data_abort_vector''"

fun vector_msg :: "exn \<Rightarrow> string" where
  "vector_msg GeneralInterrupt = ''general interrupt''"
| "vector_msg FastInterrupt = ''fast''"
| "vector_msg Reset = ''reset vector''"
| "vector_msg UndefinedInstruction = ''undefined instruction''"
| "vector_msg PrefetchAbort = ''prefetch abort''"
| "vector_msg DataAbort = ''data abort''"

fun vector_line :: "exn \<Rightarrow> u32" where
  "vector_line GeneralInterrupt = 14"
| "vector_line FastInterrupt = 17"
| "vector_line Reset = 20"
| "vector_line UndefinedInstruction = 23"
| "vector_line PrefetchAbort = 26"
| "vector_line DataAbort = 29"

definition unhandled_vector :: "'d bus \<Rightarrow> u32 \<Rightarrow> u8 list \<Rightarrow> exn \<Rightarrow> u32 \<Rightarrow> 'd \<Rightarrow> (u32 \<times> 'd) res option" where
  "unhandled_vector B cpsr file e pc =
     panic B cpsr file (vector_function e) (vector_line e) ''ERROR: unhandled exception <%s> at PC=%x'' [Text (str (vector_msg e)), Num pc]"

section \<open>Printing a pulse pattern (pwm.c)\<close>

fun pwm_print_loop :: "u32 list \<Rightarrow> nat \<Rightarrow> nat \<Rightarrow> u8 list res" where
  "pwm_print_loop choices i 0 = Inr []"
| "pwm_print_loop choices i (Suc k) =
     (case choices of [] \<Rightarrow> Inl BadAccess
      | c # cs \<Rightarrow> prints [printk (0x09 # str ''pwm[%d]=%d'' @ [0x0A]) [Num (of_nat i), Num c], pwm_print_loop cs (i + 1) k])"

definition pwm_print :: "u32 list \<Rightarrow> u32 \<Rightarrow> u32 \<Rightarrow> u8 list res" where
  "pwm_print choices on n =
     rbind (assert_that (on \<le> n)) (\<lambda>_.
     let off = n - on in
     prints
       [printk_nl ''------------------------------------------------'' [],
        printk_nl ''n=%d, on=%d, off=%d'' [Num (on + off), Num on, Num off],
        pwm_print_loop choices 0 (unat (off + on))])"

section \<open>The program blink\<close>

definition blink_once :: "'d bus \<Rightarrow> u32 \<Rightarrow> 'd \<Rightarrow> 'd" where
  "blink_once B led d =
     (let d = snd (gpio_set_on B led d);
          d = bus_wait B d 5000000;
          d = snd (gpio_set_off B led d)
      in bus_wait B d 5000000)"

definition blink :: "'d bus \<Rightarrow> 'd \<Rightarrow> u32 \<times> 'd" where
  "blink B d =
     (let led = 20;
          d = snd (gpio_set_output B led d)
      in (0, (blink_once B led ^^ 10) d))"

text \<open>
  \<open>blink\<close> turns pin 20 on and off ten times: on a board that records the accesses to its registers, each turn is one
  write to the set register and one to the clear register, with the waiting time after each, and nothing else after the pin has
  become an output.
\<close>

datatype access = Get u32 | Put u32 u32 | Wait u32

definition log_bus :: "access list bus" where
  "log_bus = \<lparr>bus_get = (\<lambda>d a. (0, d @ [Get a])), bus_put = (\<lambda>d a v. d @ [Put a v]),
     bus_wait = (\<lambda>d n. d @ [Wait n]), bus_wait_us = (\<lambda>d n. d @ [Wait n])\<rparr>"

lemma blink_once_log: "blink_once log_bus 20 d =
    d @ [Put (GPIO_BASE + 0x1C) 0x100000, Wait 5000000, Put (GPIO_BASE + 0x28) 0x100000, Wait 5000000]"
  by (simp add: blink_once_def gpio_set_on_def gpio_set_off_def gpio_write_def GPIO_PIN_LAST_def gpio_set_def gpio_clr_def log_bus_def Let_def)

theorem blink_log:
  "blink log_bus d = (0, d @ [Get (GPIO_BASE + 8), Put (GPIO_BASE + 8) 1] @
     concat (replicate 10 [Put (GPIO_BASE + 0x1C) 0x100000, Wait 5000000, Put (GPIO_BASE + 0x28) 0x100000, Wait 5000000]))"
proof -
  have "(blink_once log_bus 20 ^^ n) e =
      e @ concat (replicate n [Put (GPIO_BASE + 0x1C) 0x100000, Wait 5000000, Put (GPIO_BASE + 0x28) 0x100000, Wait 5000000])" for n e
    by (induction n arbitrary: e) (simp_all add: blink_once_log funpow_swap1 del: funpow.simps(2) add: funpow_Suc_right)
  then show ?thesis
    by (simp add: blink_def gpio_set_output_def gpio_set_function_def GPIO_PIN_LAST_def GPIO_FUNC_MASK_def GPIO_FUNC_BITS_def
        GPIO_FUNC_OUTPUT_def gpio_fsel_def log_bus_def Let_def)
qed

end
