(* ===== verification/Pi_Fat_Print.thy ===== *)
theory Pi_Fat_Print
  imports Pi_Fat32 Pi_Printf
begin

text \<open>
  The functions of pi-side/kernel/disk/fat32-helpers.c that print the structures of a FAT32 disk. The result is what
  they send to the serial port, or the failure that stops them. A name in a structure has no terminating NUL of its own:
  \<open>%s\<close> then prints the bytes that follow it as well, up to the first NUL.
\<close>

section \<open>Strings in raw memory\<close>

fun raw_string :: "u8 list \<Rightarrow> u8 list res" where
  "raw_string [] = Inl BadAccess"
| "raw_string (c # cs) = (if c = 0 then Inr [] else rbind (raw_string cs) (\<lambda>s. Inr (c # s)))"

section \<open>Partitions and boot sector\<close>

definition fat32_partition_print :: "u8 list \<Rightarrow> partition_entry \<Rightarrow> u8 list res" where
  "fat32_partition_print msg p =
     rbind (fat32_part_str (part_type p)) (\<lambda>ty.
     rbind (prints
       [printk_nl ''%s:'' [Text msg],
        tab_nl ''bootable  = %s'' [Text (str (if bootable_p p \<noteq> 0 then ''true'' else ''false''))],
        tab_nl ''chs_start = %x'' [Num (ucast (chs_start p))],
        tab_nl ''part type = %x (%s)'' [Num (ucast (part_type p)), Text (str ty)],
        tab_nl ''chs_end   = %x'' [Num (ucast (chs_end p))],
        tab_nl ''lba_start = %x'' [Num (lba_start p)],
        tab_nl ''nector=   = %d (%dGB)'' [Num (p_nsec p), Num (p_nsec p div (2 * 1024 * 1024))]]) (\<lambda>out.
     rbind (assert_that (part_type p = 0xb \<or> part_type p = 0xc)) (\<lambda>_. Inr out)))"

text \<open>The argument is the sector itself, from which the label and the type of the file system are printed.\<close>

definition fat32_volume_id_print :: "u8 list \<Rightarrow> u8 list \<Rightarrow> u8 list res" where
  "fat32_volume_id_print msg sector =
     (let b = boot_sec_of sector in
      rbind (raw_string (drop 71 sector)) (\<lambda>label.
      rbind (raw_string (drop 82 sector)) (\<lambda>fs.
      rbind (prints
       [printk_nl ''%s:'' [Text msg],
        tab_nl ''oem               = <%s>'' [Text (oem b)],
        tab_nl ''bytes_per_sec     = %d'' [Num (ucast (bytes_per_sec b))],
        tab_nl ''sec_per_cluster   = %d'' [Num (ucast (sec_per_cluster b))],
        tab_nl ''reserved size     = %d'' [Num (ucast (reserved_area_nsec b))],
        tab_nl ''nfats             = %d'' [Num (ucast (nfats b))],
        tab_nl ''max_files         = %d'' [Num (ucast (max_files b))],
        tab_nl ''fs n sectors      = %d'' [Num (ucast (fs_nsec b))],
        tab_nl ''media type        = %x'' [Num (ucast (media_type b))],
        tab_nl ''sec per track     = %d'' [Num (ucast (sec_per_track b))],
        tab_nl ''n heads           = %d'' [Num (ucast (n_heads b))],
        tab_nl ''n hidden secs     = %d'' [Num (hidden_secs b)],
        tab_nl ''n nsec in FS      = %d'' [Num (nsec_in_fs b)],
        tab_nl ''n nsec per fat    = %d'' [Num (nsec_per_fat b)],
        tab_nl ''n mirror flags    = %b'' [Num (ucast (mirror_flags b))],
        tab_nl ''n version         = %d'' [Num (ucast (b_version b))],
        tab_nl ''n first_cluster   = %d'' [Num (first_cluster b)],
        tab_nl ''n info_sec_num    = %d'' [Num (ucast (info_sec_num b))],
        tab_nl ''n back_boot_loc   = %d'' [Num (ucast (backup_boot_loc b))],
        tab_nl ''n logical_drive_num= %d'' [Num (ucast (logical_drive_num b))],
        tab_nl ''n extended sig    = %x'' [Num (ucast (extended_sig b))],
        tab_nl ''n serial_num      = %x'' [Num (serial_num b)],
        tab_nl ''n volume label    = <%s>'' [Text label],
        tab_nl ''n fs_type         = <%s>'' [Text fs],
        tab_nl ''n sig             = %x'' [Num (ucast (b_sig b))]]) (\<lambda>out.
      rbind (fat32_volume_id_check b) (\<lambda>_. Inr out)))))"

definition fat32_fsinfo_print :: "u8 list \<Rightarrow> fsinfo \<Rightarrow> u8 list res" where
  "fat32_fsinfo_print msg f =
     prints
       [printk_nl ''%s:'' [Text msg],
        tab_nl ''sig1              = %x'' [Num (sig1 f)],
        tab_nl ''sig2              = %x'' [Num (sig2 f)],
        tab_nl ''sig3              = %x'' [Num (sig3 f)],
        tab_nl ''free cluster cnt  = %d'' [Num (free_cluster_count f)],
        tab_nl ''next free cluster = %x'' [Num (next_free_cluster f)]]"

section \<open>Long names\<close>

text \<open>The loop over the character units of an entry, with \<open>i\<close> the offset of the next one.\<close>

fun lfn_print_units :: "u8 list \<Rightarrow> nat \<Rightarrow> u8 list res" where
  "lfn_print_units (a # b # buf) i =
     (if a = 0 \<and> b = 0 then Inr []
      else rbind (printk_nl ''lfn[%d] = '%c' = %x'' [Num (of_nat i), Num (ucast a), Num (ucast a)]) (\<lambda>o1.
           rbind (lfn_print_units buf (i + 2)) (\<lambda>o2. Inr (o1 @ o2))))"
| "lfn_print_units _ i = Inr []"

definition lfn_print_ent :: "lfn_dir \<Rightarrow> u8 \<Rightarrow> u8 list res" where
  "lfn_print_ent l cksum =
     (let n = seqno l in
      prints
       [tab_nl ''seqno = %x, first=%d, last=%d, deleted=%d''
          [Num (ucast n), Num (of_bool (lfn_is_first n)), Num (of_bool (lfn_is_last n)), Num (of_bool (lfn_is_deleted n))],
        lfn_print_units (name1_5 l @ name6_11 l @ name12_13 l) 0,
        tab_nl ''cksum=%x (expected=%x)'' [Num (ucast (l_cksum l)), Num (ucast cksum)]])"

fun lfn_print_loop :: "lfn_dir list \<Rightarrow> nat \<Rightarrow> u8 \<Rightarrow> bool \<Rightarrow> u8 list res" where
  "lfn_print_loop [] i cksum print_ent_p = Inr []"
| "lfn_print_loop (l # ls) i cksum print_ent_p =
     rbind (assert_that (\<not> lfn_is_deleted (seqno l))) (\<lambda>_.
     rbind (if print_ent_p then prints [printk_nl ''lfn[%d]='' [Num (of_nat i)], lfn_print_ent l cksum] else Inr []) (\<lambda>o1.
     rbind (assert_that (l_cksum l = cksum)) (\<lambda>_.
     rbind (lfn_print_loop ls (i + 1) cksum print_ent_p) (\<lambda>o2. Inr (o1 @ o2)))))"

definition lfn_print :: "lfn_dir list \<Rightarrow> u8 \<Rightarrow> bool \<Rightarrow> u8 list res" where
  "lfn_print s cksum print_ent_p =
     (let cnt = length s in
      rbind (assert_that (cnt \<ge> 1)) (\<lambda>_.
      rbind (demand_that (cnt > 0 \<and> cnt < 3)) (\<lambda>_.
      rbind (lfn_print_loop s 0 cksum print_ent_p) (\<lambda>out.
      rbind (assert_that (lfn_is_last (seqno (s ! 0)))) (\<lambda>_.
      rbind (assert_that (lfn_is_first (seqno (s ! (cnt - 1))))) (\<lambda>_. Inr out))))))"

section \<open>Directory entries\<close>

text \<open>The fields of the short entry at the head of \<open>es\<close>.\<close>

definition dir_print_fields :: "u8 list list \<Rightarrow> u8 list res" where
  "dir_print_fields es =
     (let d = dir_of (hd es) in
      rbind (raw_string (concat es)) (\<lambda>name.
      prints
       ([printk_nl [] [],
         tab_nl ''filename      = <%s>'' [Text name],
         printk (0x09 # str ''attr         = %x '') [Num (ucast (d_attr d))]] @
        (if d_attr d \<noteq> FAT32_LONG_FILE_NAME then
           (if d_attr d AND FAT32_RO \<noteq> 0 then [printk_nl '' [Read-only]'' []] else []) @
           (if d_attr d AND FAT32_HIDDEN \<noteq> 0 then [printk_nl '' [HIDDEN]'' []] else []) @
           (if d_attr d AND FAT32_SYSTEM_FILE \<noteq> 0 then [printk_nl '' [SYSTEM FILE: don't move]'' []] else []) @
           [printk_nl [] []]
         else []) @
        [tab_nl ''ctime_tenths = %d'' [Num (ucast (ctime_tenths d))],
         tab_nl ''ctime         = %d'' [Num (ucast (ctime d))],
         tab_nl ''create_date   = %d'' [Num (ucast (create_date d))],
         tab_nl ''access_date   = %d'' [Num (ucast (access_date d))],
         tab_nl ''hi_start      = %x'' [Num (ucast (hi_start d))],
         tab_nl ''mod_time      = %d'' [Num (ucast (mod_time d))],
         tab_nl ''mod_date      = %d'' [Num (ucast (mod_date d))],
         tab_nl ''lo_start      = %d'' [Num (ucast (lo_start d))],
         tab_nl ''file_nbytes   = %d'' [Num (file_nbytes d)]])))"

text \<open>
  The entries \<open>es\<close> are the \<open>left\<close> ones from \<open>d\<close> on; the result is the output and how many of them were used. The first
  step prints what stands before the fields and finds the entry that has them, if they are to be printed.
\<close>

definition dir_print_head :: "u8 list list \<Rightarrow> (u8 list \<times> (nat \<times> u8 list list) option) res" where
  "dir_print_head es =
     (let e = hd es; attr = d_attr (dir_of e) in
      if attr = FAT32_LONG_FILE_NAME then
        let cnt = 1 + lfn_run (tl es) in
        rbind (assert_that (cnt < length es)) (\<lambda>_.
        let d = dir_of (es ! cnt) in
        rbind (assert_that (is_attr (d_attr d) FAT32_DIR \<or> is_attr (d_attr d) FAT32_ARCHIVE)) (\<lambda>_.
        rbind (printk_nl [] []) (\<lambda>o1.
        rbind (lfn_print (map lfn_of (take cnt es)) (lfn_checksum (d_filename d)) False) (\<lambda>o2.
        rbind (lfn_get_name (map lfn_of (take cnt es))) (\<lambda>name.
        rbind (printk (0x09 # str ''reconstructed filename = <%s>'') [Text name]) (\<lambda>o3.
        Inr (o1 @ o2 @ o3, Some (cnt + 1, drop cnt es))))))))
      else if \<not> is_attr attr FAT32_DIR then
        rbind (fat32_dir_attr_str attr) (\<lambda>a.
        rbind (printk_nl ''need to handle attr %x (%s)'' [Num (ucast attr), Text (str a)]) (\<lambda>out.
        Inr (out, if is_attr attr FAT32_ARCHIVE then None else Some (1, es))))
      else Inr ([], Some (1, es)))"

definition fat32_dir_print :: "u8 list \<Rightarrow> u8 list list \<Rightarrow> (u8 list \<times> nat) res" where
  "fat32_dir_print msg es =
     (case es of [] \<Rightarrow> Inl BadAccess
      | e # rest \<Rightarrow>
          rbind (printk (str ''%s: '') [Text msg]) (\<lambda>o1.
          if fat32_dirent_free e then rbind (tab_nl ''dirent is not allocated'' []) (\<lambda>o2. Inr (o1 @ o2, 1))
          else
            rbind (dir_print_head es) (\<lambda>(o2, next).
            case next of None \<Rightarrow> Inr (o1 @ o2, 1)
            | Some (cnt, ds) \<Rightarrow> rbind (dir_print_fields ds) (\<lambda>o3. Inr (o1 @ o2 @ o3, cnt)))))"

section \<open>Dumps\<close>

fun print_items :: "string \<Rightarrow> u32 list \<Rightarrow> nat \<Rightarrow> u8 list res" where
  "print_items fmt [] i = Inr []"
| "print_items fmt (x # xs) i =
     prints ((if i mod 16 = 0 then [printk [0x0A, 0x09] []] else []) @
       [printk (str fmt) [Num x], print_items fmt xs (i + 1)])"

definition print_bytes :: "u8 list \<Rightarrow> u8 list \<Rightarrow> u8 list res" where
  "print_bytes msg p = prints [printk_nl ''%s'' [Text msg], print_items ''%x, '' (map ucast p) 0, printk_nl [] []]"

definition print_words :: "u8 list \<Rightarrow> u32 list \<Rightarrow> u8 list res" where
  "print_words msg p = prints [printk_nl ''%s'' [Text msg], print_items ''0x%x, '' p 0, printk_nl [] []]"

section \<open>What printing relies on\<close>

lemma raw_string_takeWhile: "raw_string m = Inr s \<longleftrightarrow> s = takeWhile (\<lambda>c. c \<noteq> 0) m \<and> 0 \<in> set m"
  by (induction m arbitrary: s) auto

text \<open>The eleven bytes of a short name run into the attribute, so a directory entry never prints as its name alone.\<close>

lemma dir_name_overrun:
  assumes "raw_string m = Inr s" "12 \<le> length m" "0 \<notin> set (take 12 m)"
  shows "12 \<le> length s"
proof -
  have "takeWhile (\<lambda>c. c \<noteq> 0) (take 12 m @ drop 12 m) = take 12 m @ takeWhile (\<lambda>c. c \<noteq> 0) (drop 12 m)"
    using assms(3) by (intro takeWhile_append2) metis
  then show ?thesis using assms(1,2) by (simp add: raw_string_takeWhile)
qed

text \<open>Without printing the entries, \<open>lfn_print\<close> is the check of their sequence.\<close>

lemma lfn_print_loop_check:
  "lfn_print_loop s i c False = rbind (foldr (\<lambda>l r. rbind (assert_that (\<not> lfn_is_deleted (seqno l))) (\<lambda>_.
     rbind (assert_that (l_cksum l = c)) (\<lambda>_. r))) s (Inr ())) (\<lambda>_. Inr [])"
proof (induction s arbitrary: i)
  case (Cons l s)
  then show ?case by (cases "lfn_is_deleted (seqno l)"; cases "l_cksum l = c") (simp_all add: rbind_assoc)
qed simp

lemma lfn_print_check: "lfn_print s c False = rbind (lfn_check s c) (\<lambda>_. Inr [])"
  by (simp add: lfn_print_def lfn_check_def Let_def lfn_print_loop_check rbind_assoc)

text \<open>
  Printing and looking up a directory go through its entries in the same steps: when an allocated entry has been
  printed, the entries used are within the ones given, and for a long name the last of them is the one that
  \<open>fat32_dir_filename\<close> finds, with the name that was printed.
\<close>

lemma dir_print_steps:
  assumes "fat32_dir_print msg es = Inr (out, cnt)" "\<not> fat32_dirent_free (hd es)"
  shows "1 \<le> cnt \<and> cnt \<le> length es \<and> (d_attr (dir_of (hd es)) = FAT32_LONG_FILE_NAME \<longrightarrow>
    (\<exists>name. lfn_get_name (map lfn_of (take (cnt - 1) es)) = Inr name \<and>
       (length name < 256 \<longrightarrow> fat32_dir_filename es = Inr (name, drop (cnt - 1) es))))"
proof (cases es)
  case (Cons e rest)
  obtain o2 "next" where h: "dir_print_head es = Inr (o2, next)"
    and n: "case next of None \<Rightarrow> cnt = 1 | Some (c, ds) \<Rightarrow> cnt = c"
    using assms by (auto simp: fat32_dir_print_def Cons split: option.splits prod.splits)
  show ?thesis
  proof (cases "d_attr (dir_of e) = FAT32_LONG_FILE_NAME")
    case True
    then show ?thesis using h n assms(2)
      by (auto simp: dir_print_head_def Let_def Cons fat32_dir_filename_def)
  next
    case False
    then show ?thesis using h n by (auto simp: dir_print_head_def Let_def Cons split: if_splits)
  qed
qed (use assms in \<open>simp add: fat32_dir_print_def\<close>)

end
