(* ===== verification/Unix_Echo.thy ===== *)
theory Unix_Echo
  imports Pi_Prelude "HOL-Library.Sublist"
begin

text \<open>
  Waiting for the Pi on the Unix side: the matcher for the strings with which the Pi ends its
  output (\<open>fsm_t\<close> in unix-side/shell/shell-support.c, the same code in unix-side/fs/echo-until.c, and \<open>done\<close>
  in unix-side/install/install.c) and the loops that echo what the Pi sends until the string has
  been seen. Bytes are compared as unsigned ones; the strings looked for are ASCII.
\<close>

section \<open>The matcher\<close>

record fsm =
  pos :: nat
  fsm_end :: nat
  exit_string :: "u8 list"

definition mk_fsm :: "u8 list \<Rightarrow> fsm res" where
  "mk_fsm str =
     (let n = length str in
      rbind (demand_that (n < 1024 - 1)) (\<lambda>_. Inr \<lparr>pos = 0, fsm_end = n, exit_string = str\<rparr>))"

definition fsm_chr_done :: "fsm \<Rightarrow> u8 \<Rightarrow> (bool \<times> fsm) res" where
  "fsm_chr_done f c =
     (if \<not> pos f < fsm_end f then Inl AssertFault
      else
        let ch = exit_string f ! pos f; f = f\<lparr>pos := pos f + 1\<rparr> in
        if c \<noteq> ch then Inr (False, f\<lparr>pos := 0\<rparr>)
        else if pos f = fsm_end f then Inr (True, f)
        else Inr (False, f))"

text \<open>The rest of the string from the byte that completed the match, if one did.\<close>

fun fsm_done :: "fsm \<Rightarrow> u8 list \<Rightarrow> u8 list option res" where
  "fsm_done f [] = Inr None"
| "fsm_done f (c # s) =
     rbind (fsm_chr_done f c) (\<lambda>(yes, f). if yes then Inr (Some (c # s)) else fsm_done f s)"

text \<open>
  \<open>done\<close> of install.c: the position is a static variable, kept from one buffer to the next; the
  recursive call on a mismatch is the loop again.
\<close>

definition DONE :: "u8 list" where
  "DONE = map of_char ''DONE!!!'' @ [0x0A]"

fun install_done :: "nat \<Rightarrow> u8 list \<Rightarrow> (bool \<times> nat) res" where
  "install_done p [] = Inr (False, p)"
| "install_done p (c # s) =
     (if \<not> p < length DONE then Inl AssertFault
      else if c \<noteq> DONE ! p then install_done 0 s
      else if p + 1 = length DONE then Inr (True, p + 1)
      else install_done (p + 1) s)"

section \<open>Echoing\<close>

text \<open>
  What \<open>read\<close> of one byte returns: a byte, nothing while the connection is open, nothing because it is
  closed (\<open>fstat\<close> fails), or an error. When the list is used up the read blocks.
\<close>

datatype rd = Got u8 | Nothing | Closed | Failed

datatype stop = Exit | Blocked | Fault fault

fun echo_loop :: "fsm \<Rightarrow> rd list \<Rightarrow> u8 list \<Rightarrow> (stop + unit) \<times> rd list \<times> u8 list" where
  "echo_loop f [] out = (Inl Blocked, [], out)"
| "echo_loop f (Nothing # rs) out = echo_loop f rs out"
| "echo_loop f (Closed # rs) out = (Inl Exit, rs, out)"
| "echo_loop f (Failed # rs) out = (Inl Exit, rs, out)"
| "echo_loop f (Got c # rs) out =
     (case fsm_chr_done f c of
        Inl e \<Rightarrow> (Inl (Fault e), rs, out @ [c])
      | Inr (True, f) \<Rightarrow> (Inr (), rs, out @ [c])
      | Inr (False, f) \<Rightarrow> echo_loop f rs (out @ [c]))"

text \<open>
  \<open>echo_until_fn\<close> of the Unix file system ends on every empty read; \<open>fn\<close> handles a byte on a state of
  its own and never fails in the program.
\<close>

fun echo_fn_loop :: "('s \<Rightarrow> u8 \<Rightarrow> 's) \<Rightarrow> fsm \<Rightarrow> rd list \<Rightarrow> 's \<Rightarrow> (stop + bool) \<times> rd list \<times> 's" where
  "echo_fn_loop fn f [] s = (Inl Blocked, [], s)"
| "echo_fn_loop fn f (Got c # rs) s =
     (case fsm_chr_done f c of
        Inl e \<Rightarrow> (Inl (Fault e), rs, fn s c)
      | Inr (True, f) \<Rightarrow> (Inr True, rs, fn s c)
      | Inr (False, f) \<Rightarrow> echo_fn_loop fn f rs (fn s c))"
| "echo_fn_loop fn f (r # rs) s = (Inr False, rs, s)"

section \<open>What the matcher finds\<close>

text \<open>The position after reading a text, or \<open>None\<close> if the string was found in it.\<close>

fun scan :: "u8 list \<Rightarrow> nat \<Rightarrow> u8 list \<Rightarrow> nat option" where
  "scan w p [] = Some p"
| "scan w p (c # cs) =
     (if c \<noteq> w ! p then scan w 0 cs else if p + 1 = length w then None else scan w (p + 1) cs)"

lemma scan_sound: "scan w p x = None \<Longrightarrow> p < length w \<Longrightarrow> sublist w (take p w @ x)"
proof (induction w p x rule: scan.induct)
  case (2 w p c cs)
  consider "c \<noteq> w ! p" | "c = w ! p" "p + 1 = length w" | "c = w ! p" "p + 1 < length w"
    using "2.prems"(2) by linarith
  then show ?case
  proof cases
    case 1
    have "sublist w cs" using "2.IH"(1) "2.prems" 1 by force
    moreover have "sublist cs (take p w @ c # cs)" unfolding sublist_def by (intro exI [of _ "take p w @ [c]"] exI [of _ "[]"]) simp
    ultimately show ?thesis by (rule sublist_order.order.trans)
  next
    case 2
    then have "take p w @ [c] = w" by (metis Suc_eq_plus1 lessI take_Suc_conv_app_nth take_all_iff order_refl)
    then have "take p w @ c # cs = [] @ w @ cs" by simp
    then show ?thesis unfolding sublist_def by blast
  next
    case 3
    then have "sublist w (take (p + 1) w @ cs)" using "2.IH"(2) "2.prems"(1) by simp
    then show ?thesis using 3 by (simp add: take_Suc_conv_app_nth)
  qed
qed simp

lemma scan_bound: "scan w p x = Some q \<Longrightarrow> p < length w \<Longrightarrow> q < length w"
  by (induction w p x rule: scan.induct) (force split: if_splits)+

lemma scan_append: "scan w p (x @ y) = (case scan w p x of None \<Rightarrow> None | Some q \<Rightarrow> scan w q y)"
  by (induction w p x rule: scan.induct) auto

text \<open>The last byte of the string occurs nowhere else in it, so after it the matcher starts afresh.\<close>

lemma scan_last:
  assumes "scan w p (x @ [last w]) = Some q" "last w \<notin> set (butlast w)" "p < length w"
  shows "q = 0"
proof -
  obtain r where r: "scan w p x = Some r" using assms(1) by (auto simp: scan_append split: option.splits)
  have "r < length w" using scan_bound [OF r assms(3)] .
  have "w ! r \<noteq> last w" if "r + 1 \<noteq> length w"
  proof -
    have "r < length (butlast w)" using that \<open>r < length w\<close> by simp
    then show ?thesis using assms(2) nth_mem [of r "butlast w"] by (auto simp: nth_butlast)
  qed
  then show ?thesis using assms(1) by (auto simp: scan_append r split: if_splits)
qed

lemma scan_self: "p + length ys < length w \<Longrightarrow> take (length ys) (drop p w) = ys \<Longrightarrow> scan w p ys = Some (p + length ys)"
proof (induction ys arbitrary: p)
  case (Cons y ys)
  have d: "drop p w = w ! p # drop (p + 1) w" using Cons.prems(1) by (simp add: Cons_nth_drop_Suc)
  then show ?case using Cons.prems Cons.IH [of "p + 1"] by simp
qed simp

text \<open>One byte of the matcher is one step of \<open>scan\<close>.\<close>

abbreviation at_pos :: "u8 list \<Rightarrow> nat \<Rightarrow> fsm" where
  "at_pos w p \<equiv> \<lparr>pos = p, fsm_end = length w, exit_string = w\<rparr>"

lemma chr_done_scan:
  "p < length w \<Longrightarrow> fsm_chr_done (at_pos w p) c =
    (if c \<noteq> w ! p then Inr (False, at_pos w 0)
     else if p + 1 = length w then Inr (True, at_pos w (p + 1)) else Inr (False, at_pos w (p + 1)))"
  by (simp add: fsm_chr_done_def)

lemma echo_loop_scan:
  "scan w p x = Some q \<Longrightarrow> p < length w \<Longrightarrow>
   echo_loop (at_pos w p) (map Got x @ rs) out = echo_loop (at_pos w q) rs (out @ x)"
proof (induction x arbitrary: p out)
  case (Cons c x)
  have "0 < length w" using Cons.prems(2) by linarith
  with Cons.prems Cons.IH [of 0 "out @ [c]"] Cons.IH [of "p + 1" "out @ [c]"] show ?case
    by (simp add: chr_done_scan split: if_splits)
qed simp

lemma echo_loop_found:
  assumes "scan w 0 x = Some 0" "w \<noteq> []"
  shows "echo_loop (at_pos w 0) (map Got (x @ w) @ rs) out = (Inr (), rs, out @ x @ w)"
proof -
  have w: "w = butlast w @ [last w]" using assms(2) by simp
  have "scan w 0 (butlast w) = Some (length (butlast w))"
    using scan_self [of 0 "butlast w" w] assms(2) by (simp add: butlast_conv_take)
  then have "scan w 0 (x @ butlast w) = Some (length (butlast w))" by (simp add: scan_append assms(1))
  from echo_loop_scan [OF this, of "Got (last w) # rs" out] assms(2)
  have "echo_loop (at_pos w 0) (map Got (x @ butlast w) @ Got (last w) # rs) out =
      echo_loop (at_pos w (length w - 1)) (Got (last w) # rs) (out @ x @ butlast w)" by simp
  also have "\<dots> = (Inr (), rs, out @ x @ w)"
    using assms(2) append_butlast_last_id [OF assms(2)] by (simp add: chr_done_scan last_conv_nth)
  finally have "echo_loop (at_pos w 0) (map Got (x @ butlast w @ [last w]) @ rs) out = (Inr (), rs, out @ x @ w)" by simp
  then show ?thesis unfolding w [symmetric] .
qed

lemma echo_loop_lines:
  assumes "w \<noteq> []" "last w \<notin> set (butlast w)" "\<not> sublist w x" "x = [] \<or> last x = last w"
  shows "echo_loop (at_pos w 0) (map Got (x @ w) @ rs) out = (Inr (), rs, out @ x @ w)"
proof (rule echo_loop_found [OF _ assms(1)])
  obtain q where q: "scan w 0 x = Some q" using scan_sound [of w 0 x] assms(1,3) by (cases "scan w 0 x") auto
  show "scan w 0 x = Some 0"
  proof (cases "x = []")
    case False
    then have "x = butlast x @ [last w]" using assms(4) by (metis append_butlast_last_id)
    then have "q = 0" using scan_last [of w 0 "butlast x" q] q assms(1,2) by simp
    then show ?thesis using q by simp
  qed simp
qed

end
