(* ===== verification/Unix_Shell.thy ===== *)
theory Unix_Shell
  imports Unix_Echo Pi_Boot Pi_Printf
begin

text \<open>
  The shell on the Unix side, unix-side/shell/shell.c with the tokenizer of shell-support.c. Its state
  is the connection: what the reads will return, the bytes sent, what was shown to the user of
  the Pi's output, and the Unix commands run. An operation returns its value or the reason
  why the shell stops. The shell's own messages to the user are not part of the state. The system
  call \<open>write\<close> is the parameter \<open>wr\<close>: what it returns for a number of bytes; \<open>files\<close> is what \<open>read_file\<close>
  (unix-side/support/support.c) finds under a name.
\<close>

section \<open>Tokens\<close>

definition isspace :: "u8 \<Rightarrow> bool" where
  "isspace c \<longleftrightarrow> c = 0x20 \<or> 0x09 \<le> c \<and> c \<le> 0x0D"

text \<open>
  A pointer into the buffer is the rest of the buffer from there, bytes after a NUL included;
  running off its end is a bad access. The results are the null pointer or a pointer.
\<close>

fun skip_space :: "u8 list \<Rightarrow> u8 list option res" where
  "skip_space [] = Inl BadAccess"
| "skip_space (c # p) = (if c \<noteq> 0 \<and> isspace c then skip_space p else Inr (if c = 0 then None else Some (c # p)))"

text \<open>\<open>skip_nonspace\<close>: also what was skipped, which is the token once its end has been overwritten by a NUL.\<close>

fun skip_token :: "u8 list \<Rightarrow> (u8 list \<times> u8 list) res" where
  "skip_token [] = Inl BadAccess"
| "skip_token (c # p) =
     (if c \<noteq> 0 \<and> \<not> isspace c then rbind (skip_token p) (\<lambda>(tok, p). Inr (c # tok, p)) else Inr ([], c # p))"

definition skip_nonspace :: "u8 list \<Rightarrow> (u8 list \<times> u8 list) option res" where
  "skip_nonspace p = rbind (skip_token p) (\<lambda>(tok, p). Inr (if tok = [] then None else Some (tok, p)))"

fun tokenize_loop :: "nat \<Rightarrow> u8 list \<Rightarrow> u8 list list res" where
  "tokenize_loop 0 p = Inl PanicFault"
| "tokenize_loop (Suc n) p =
     rbind (skip_space p) (\<lambda>q. case q of None \<Rightarrow> Inr []
     | Some p \<Rightarrow> rbind (skip_nonspace p) (\<lambda>q. case q of None \<Rightarrow> Inl AssertFault
       | Some (tok, p) \<Rightarrow> rbind (tokenize_loop n (tl p)) (\<lambda>toks. Inr (tok # toks))))"

definition tokenize :: "nat \<Rightarrow> u8 list \<Rightarrow> u8 list list res" where
  "tokenize max_args buf = tokenize_loop (max_args - 1) buf"

section \<open>The connection to the Pi\<close>

record conn =
  rx :: "rd list"
  tx :: "u8 list"
  shown :: "u8 list"
  ran :: "u8 list list list"

type_synonym 'a ux = "conn \<Rightarrow> (stop + 'a) \<times> conn"

definition ret :: "'a \<Rightarrow> 'a ux" where
  "ret a l = (Inr a, l)"

definition halt :: "stop \<Rightarrow> 'a ux" where
  "halt s l = (Inl s, l)"

definition bind :: "'a ux \<Rightarrow> ('a \<Rightarrow> 'b ux) \<Rightarrow> 'b ux" where
  "bind m f l = (case m l of (Inl s, l) \<Rightarrow> (Inl s, l) | (Inr a, l) \<Rightarrow> f a l)"

definition check :: "'a res \<Rightarrow> 'a ux" where
  "check r l = (case r of Inl e \<Rightarrow> (Inl (Fault e), l) | Inr a \<Rightarrow> (Inr a, l))"

definition read1 :: "rd ux" where
  "read1 l = (case rx l of [] \<Rightarrow> (Inl Blocked, l) | r # rs \<Rightarrow> (Inr r, l\<lparr>rx := rs\<rparr>))"

definition show_user :: "u8 list \<Rightarrow> unit ux" where
  "show_user s l = (Inr (), l\<lparr>shown := shown l @ s\<rparr>)"

definition write_exact :: "(nat \<Rightarrow> int) \<Rightarrow> u8 list \<Rightarrow> unit ux" where
  "write_exact wr buf l =
     (let n = wr (length buf) in
      if n < 0 then (Inl (Fault PanicFault), l)
      else
        let l = l\<lparr>tx := tx l @ take (nat n) buf\<rparr>
        in if n \<noteq> int (length buf) then (Inl (Fault DemandFault), l) else (Inr (), l))"

definition pi_put :: "(nat \<Rightarrow> int) \<Rightarrow> u8 list \<Rightarrow> unit ux" where
  "pi_put wr buf = (if buf = [] then halt (Fault DemandFault) else write_exact wr buf)"

fun pi_readline :: "nat \<Rightarrow> u8 list \<Rightarrow> u8 list ux" where
  "pi_readline 0 buf = halt (Fault PanicFault)"
| "pi_readline (Suc n) buf =
     bind read1 (\<lambda>r. case r of
       Got c \<Rightarrow> if c = 0x0A then ret buf else pi_readline n (buf @ [c])
     | _ \<Rightarrow> halt Exit)"

definition echo_until :: "u8 list \<Rightarrow> unit ux" where
  "echo_until msg l =
     (case mk_fsm msg of
        Inl e \<Rightarrow> (Inl (Fault e), l)
      | Inr f \<Rightarrow> (let (r, rs, out) = echo_loop f (rx l) (shown l) in (r, l\<lparr>rx := rs, shown := out\<rparr>)))"

text \<open>
  A byte program run on the connection: \<open>get_byte\<close> panics unless it reads a byte, \<open>send_byte\<close> panics
  when the write fails.
\<close>

primrec run_ux :: "(nat \<Rightarrow> int) \<Rightarrow> 'a io \<Rightarrow> 'a ux" where
  "run_ux wr (Ret a) = ret a"
| "run_ux wr (GetByte f) = bind read1 (\<lambda>r. case r of Got c \<Rightarrow> run_ux wr (f c) | _ \<Rightarrow> halt (Fault PanicFault))"
| "run_ux wr (PutByte b p) =
     (\<lambda>l. if wr 1 < 0 then (Inl (Fault PanicFault), l) else run_ux wr p (l\<lparr>tx := tx l @ take (nat (wr 1)) [b]\<rparr>))"

section \<open>Commands\<close>

definition ux_pi_done :: "u8 list" where "ux_pi_done = str ''PI REBOOT!!!''"
definition ux_cmd_done :: "u8 list" where "ux_cmd_done = str ''CMD-DONE'' @ [0x0A]"
definition ux_ready :: "u8 list" where "ux_ready = str ''READY'' @ [0x0A]"

definition is_pi_prog :: "u8 list \<Rightarrow> bool" where
  "is_pi_prog prog =
     (let n = min (length prog) 256 in
      if n < 5 then False else drop (n - 4) prog = str ''.bin'')"

text \<open>\<open>read_file\<close> pads the file with zeros to a multiple of four bytes.\<close>

definition read_file :: "(u8 list \<Rightarrow> u8 list option) \<Rightarrow> u8 list \<Rightarrow> u8 list res" where
  "read_file files name =
     (case files name of None \<Rightarrow> Inl PanicFault
      | Some bs \<Rightarrow> let size = (length bs + 3) div 4 * 4 in Inr (bs @ replicate (size - length bs) 0))"

definition run_pi_prog :: "(nat \<Rightarrow> int) \<Rightarrow> (u8 list \<Rightarrow> u8 list option) \<Rightarrow> u8 list list \<Rightarrow> bool ux" where
  "run_pi_prog wr files argv =
     (case argv of [] \<Rightarrow> ret False
      | prog # _ \<Rightarrow>
          if \<not> is_pi_prog prog then ret False
          else
            bind (pi_put wr (str ''load'' @ [0x0A])) (\<lambda>_.
            bind (check (read_file files prog)) (\<lambda>code.
            bind (run_ux wr (send_prog code)) (\<lambda>r.
            bind (check r) (\<lambda>_.
            bind (echo_until ux_cmd_done) (\<lambda>_. ret True))))))"

definition send_reboot :: "(nat \<Rightarrow> int) \<Rightarrow> unit ux" where
  "send_reboot wr =
     bind (pi_put wr (str ''reboot'' @ [0x0A])) (\<lambda>_.
     bind (pi_readline 256 []) (\<lambda>buf.
     check (demand_that (takeWhile (\<lambda>c. c \<noteq> 0) buf = ux_pi_done))))"

fun echo_args :: "(nat \<Rightarrow> int) \<Rightarrow> u8 list list \<Rightarrow> nat ux" where
  "echo_args wr [] = ret 0"
| "echo_args wr (a # as) =
     bind (pi_put wr a) (\<lambda>_.
     bind (pi_put wr (if as \<noteq> [] then str '' '' else [0x0A])) (\<lambda>_.
     bind (echo_args wr as) (\<lambda>size. ret (min (length a) 256 + 1 + size))))"

definition do_echo :: "(nat \<Rightarrow> int) \<Rightarrow> u8 list list \<Rightarrow> bool ux" where
  "do_echo wr argv =
     bind (echo_args wr argv) (\<lambda>size.
     if 256 < size + 1 then halt (Fault PanicFault)
     else
       bind (pi_readline 256 []) (\<lambda>buf.
       bind (show_user (takeWhile (\<lambda>c. c \<noteq> 0) buf @ [0x0A])) (\<lambda>_. ret True)))"

text \<open>The three commands with one argument differ in their names only.\<close>

definition remote_cmd :: "(nat \<Rightarrow> int) \<Rightarrow> string \<Rightarrow> u8 list list \<Rightarrow> bool ux" where
  "remote_cmd wr name argv =
     (if length argv \<noteq> 2 then ret True
      else
        bind (pi_put wr (str name @ str '' '')) (\<lambda>_.
        bind (pi_put wr (argv ! 1)) (\<lambda>_.
        bind (pi_put wr [0x0A]) (\<lambda>_.
        bind (echo_until ux_cmd_done) (\<lambda>_. ret True)))))"

definition do_builtin_cmd :: "(nat \<Rightarrow> int) \<Rightarrow> u8 list list \<Rightarrow> bool ux" where
  "do_builtin_cmd wr argv =
     (case argv of [] \<Rightarrow> ret False
      | cmd # _ \<Rightarrow>
          if cmd = str ''echo'' then do_echo wr argv
          else if cmd = str ''ls'' then remote_cmd wr ''ls'' argv
          else if cmd = str ''cat'' then remote_cmd wr ''cat'' argv
          else if cmd = str ''run'' then remote_cmd wr ''run'' argv
          else if cmd = str ''reboot'' then bind (send_reboot wr) (\<lambda>_. halt Exit)
          else ret False)"

definition do_unix_cmd :: "u8 list list \<Rightarrow> unit ux" where
  "do_unix_cmd argv l = (Inr (), l\<lparr>ran := ran l @ [argv]\<rparr>)"

section \<open>The shell\<close>

text \<open>
  The user types lines, which \<open>fgets\<close> returns with their newline, or control-C. The line buffer
  holds the line without its last byte and two NULs, one of the shell and one of \<open>fgets\<close>; then
  what older lines left there, \<open>junk\<close>, which comes with the line.
\<close>

datatype event = Line "u8 list" "u8 list" | ControlC

definition do_line :: "(nat \<Rightarrow> int) \<Rightarrow> (u8 list \<Rightarrow> u8 list option) \<Rightarrow> u8 list \<Rightarrow> u8 list \<Rightarrow> unit ux" where
  "do_line wr files junk line =
     bind (check (tokenize 32 (butlast line @ [0, 0] @ junk))) (\<lambda>argv.
     if argv = [] then ret ()
     else
       bind (do_builtin_cmd wr argv) (\<lambda>done.
       if done then ret ()
       else bind (run_pi_prog wr files argv) (\<lambda>done. if done then ret () else do_unix_cmd argv)))"

fun shell_lines :: "(nat \<Rightarrow> int) \<Rightarrow> (u8 list \<Rightarrow> u8 list option) \<Rightarrow> event list \<Rightarrow> unit ux" where
  "shell_lines wr files [] = ret ()"
| "shell_lines wr files (ControlC # es) = send_reboot wr"
| "shell_lines wr files (Line line junk # es) =
     bind (do_line wr files junk line) (\<lambda>_. shell_lines wr files es)"

definition shell :: "(nat \<Rightarrow> int) \<Rightarrow> (u8 list \<Rightarrow> u8 list option) \<Rightarrow> event list \<Rightarrow> unit ux" where
  "shell wr files es = bind (echo_until ux_ready) (\<lambda>_. shell_lines wr files es)"

section \<open>Tokens are the words of the line\<close>

abbreviation is_word :: "u8 list \<Rightarrow> bool" where
  "is_word w \<equiv> w \<noteq> [] \<and> (\<forall>c \<in> set w. c \<noteq> 0 \<and> \<not> isspace c)"

abbreviation spaces :: "u8 list \<Rightarrow> bool" where
  "spaces s \<equiv> \<forall>c \<in> set s. isspace c"

lemma isspace_nul [simp]: "\<not> isspace 0"
  by (simp add: isspace_def)

lemma skip_spaces: "spaces s \<Longrightarrow> \<not> isspace c \<Longrightarrow> skip_space (s @ c # p) = Inr (if c = 0 then None else Some (c # p))"
  by (induction s) (auto simp: isspace_def)

lemma skip_word: "\<forall>c \<in> set w. c \<noteq> 0 \<and> \<not> isspace c \<Longrightarrow> d = 0 \<or> isspace d \<Longrightarrow> skip_token (w @ d # p) = Inr (w, d # p)"
  by (induction w) auto

lemma tokenize_word:
  assumes "spaces s" "is_word w" "d = 0 \<or> isspace d"
  shows "tokenize_loop (Suc n) (s @ w @ d # p) = rbind (tokenize_loop n p) (\<lambda>toks. Inr (w # toks))"
proof -
  obtain c v where w: "w = c # v" using assms(2) by (cases w) auto
  have "skip_space (s @ w @ d # p) = Inr (Some (w @ d # p))" using skip_spaces [OF assms(1), of c "v @ d # p"] assms(2) w by simp
  moreover have "skip_nonspace (w @ d # p) = Inr (Some (w, d # p))" using skip_word [of w d p] assms(2,3) by (simp add: skip_nonspace_def)
  ultimately show ?thesis by simp
qed

text \<open>A line from its words, each with the white space after it.\<close>

fun layout :: "(u8 list \<times> u8 list) list \<Rightarrow> u8 list" where
  "layout [] = []"
| "layout ((w, s) # wss) = w @ s @ layout wss"

lemma tokenize_blank: "spaces s \<Longrightarrow> tokenize_loop (Suc n) (s @ 0 # p) = Inr []"
  by (simp add: skip_spaces)

lemma tokenize_layout:
  assumes "\<forall>(w, s) \<in> set wss. is_word w \<and> spaces s" "\<forall>(w, s) \<in> set (butlast wss). s \<noteq> []" "spaces lead"
  shows "tokenize_loop n (lead @ layout wss @ 0 # 0 # junk) = (if length wss < n then Inr (map fst wss) else Inl PanicFault)"
  using assms
proof (induction wss arbitrary: n lead)
  case Nil
  then show ?case using tokenize_blank [of lead _ "0 # junk"] by (cases n) auto
next
  case (Cons ws wss)
  obtain w s where ws: "ws = (w, s)" by (cases ws)
  show ?case
  proof (cases n)
    case (Suc m)
    have w: "spaces lead" "is_word w" "spaces s" using Cons.prems ws by auto
    show ?thesis
    proof (cases s)
      case Nil
      then have "wss = []" using Cons.prems(2) ws by (cases wss) auto
      then show ?thesis using tokenize_word [OF w(1,2), of 0 m "0 # junk"] tokenize_blank [of "[]" _ junk] Suc ws Nil
        by (cases m) auto
    next
      case (Cons d t)
      have "tokenize_loop m (t @ layout wss @ 0 # 0 # junk) = (if length wss < m then Inr (map fst wss) else Inl PanicFault)"
        using Cons.prems Cons w(3) by (intro Cons.IH) (cases wss; auto)+
      then show ?thesis using tokenize_word [OF w(1,2), of d m "t @ layout wss @ 0 # 0 # junk"] Suc ws Cons w(3) by simp
    qed
  qed simp
qed

text \<open>
  C31: A command line splits into its words, whatever the white space before, between and after them and
  whatever older lines have left in the buffer; a line of more words than fit \<open>argv\<close> panics, and
  31 words, which would fit with their null pointer, already do.
\<close>

theorem tokenize_words:
  assumes "\<forall>(w, s) \<in> set wss. is_word w \<and> spaces s" "\<forall>(w, s) \<in> set (butlast wss). s \<noteq> []" "spaces lead"
  shows "tokenize 32 (lead @ layout wss @ [0, 0] @ junk) = (if length wss \<le> 30 then Inr (map fst wss) else Inl PanicFault)"
  using tokenize_layout [OF assms, of 31 junk] by (auto simp: tokenize_def)

theorem tokenize_words_witness:
  "tokenize 32 (str ''  ls   /dir '' @ [0, 0] @ str ''old'') = Inr [str ''ls'', str ''/dir'']"
proof -
  have "\<forall>(w, s) \<in> set [(str ''ls'', str ''   ''), (str ''/dir'', str '' '')]. is_word w \<and> spaces s"
    "\<forall>(w, s) \<in> set (butlast [(str ''ls'', str ''   ''), (str ''/dir'', str '' '')]). s \<noteq> []" "spaces (str ''  '')"
    by (simp_all add: str_def isspace_def)
  from tokenize_words [OF this, of "str ''old''"] show ?thesis by (simp add: str_def)
qed

end
