(* ===== verification/Remote_Shell.thy ===== *)
theory Remote_Shell
  imports Pi_Shell Unix_Shell
begin

text \<open>
  The two shells against each other: the bytes the Unix shell sends are the input of the kernel's
  shell, the bytes the kernel prints are what the Unix shell reads. The last section has a small disk
  for examples. The theorems are in the root theory.
\<close>

section \<open>Listing directories from the other side\<close>

definition ls_line :: "u8 list \<Rightarrow> u8 list" where
  "ls_line path = str ''ls '' @ path"

lemma pi_put_full: "\<forall>n. wr n = int n \<Longrightarrow> buf \<noteq> [] \<Longrightarrow> pi_put wr buf l = (Inr (), l\<lparr>tx := tx l @ buf\<rparr>)"
  by (simp add: pi_put_def write_exact_def)

lemma echo_until_reply:
  assumes "rx l = map Got (out @ ux_cmd_done) @ rest" "\<not> sublist ux_cmd_done out" "ends_nl out"
  shows "echo_until ux_cmd_done l = (Inr (), l\<lparr>rx := rest, shown := shown l @ out @ ux_cmd_done\<rparr>)"
proof -
  have m: "mk_fsm ux_cmd_done = Inr (at_pos ux_cmd_done 0)" by (simp add: mk_fsm_def ux_cmd_done_def str_def)
  have "ux_cmd_done \<noteq> []" "last ux_cmd_done \<notin> set (butlast ux_cmd_done)" "last ux_cmd_done = 0x0A"
    by (simp_all add: ux_cmd_done_def str_def)
  then have "echo_loop (at_pos ux_cmd_done 0) (map Got (out @ ux_cmd_done) @ rest) (shown l) = (Inr (), rest, shown l @ out @ ux_cmd_done)"
    using assms(2,3) by (intro echo_loop_lines) (simp_all add: ends_nl_def)
  then show ?thesis by (simp add: echo_until_def m assms(1))
qed

text \<open>The Unix side of one command.\<close>

lemma unix_ls:
  assumes "\<forall>n. wr n = int n" "is_word path"
    and "rx l = map Got (out @ ux_cmd_done) @ rest" "\<not> sublist ux_cmd_done out" "ends_nl out"
  shows "do_line wr files junk (ls_line path @ [0x0A]) l =
    (Inr (), l\<lparr>rx := rest, tx := tx l @ ls_line path @ [0x0A], shown := shown l @ out @ ux_cmd_done\<rparr>)"
proof -
  let ?wss = "[(str ''ls'', str '' ''), (path, [])]"
  have "is_word (str ''ls'')" "spaces (str '' '')" by (simp_all add: str_def isspace_def)
  then have "tokenize 32 ([] @ layout ?wss @ [0, 0] @ junk) = Inr [str ''ls'', path]"
    using tokenize_words [of ?wss "[]" junk] assms(2) by (simp add: str_def)
  then have tok: "check (tokenize 32 (butlast (ls_line path @ [0x0A]) @ [0, 0] @ junk)) l = (Inr [str ''ls'', path], l)"
    by (simp add: check_def ls_line_def str_def)
  have "remote_cmd wr ''ls'' [str ''ls'', path] l =
    (Inr True, l\<lparr>rx := rest, tx := tx l @ ls_line path @ [0x0A], shown := shown l @ out @ ux_cmd_done\<rparr>)"
    using assms(2) echo_until_reply [OF _ assms(4,5), of "l\<lparr>tx := tx l @ ls_line path @ [0x0A]\<rparr>" rest] assms(3)
    by (simp add: remote_cmd_def bind_def pi_put_full [OF assms(1)] ret_def ls_line_def str_def)
  moreover have "str ''ls'' \<noteq> str ''echo''" by (simp add: str_def)
  ultimately have "do_builtin_cmd wr [str ''ls'', path] l =
    (Inr True, l\<lparr>rx := rest, tx := tx l @ ls_line path @ [0x0A], shown := shown l @ out @ ux_cmd_done\<rparr>)"
    by (simp add: do_builtin_cmd_def)
  then show ?thesis using tok by (simp add: do_line_def bind_def ret_def)
qed

text \<open>The Pi's side of it.\<close>

lemma pi_ls:
  assumes "do_ls dev fs path = Some (Inr out)"
  shows "shell_command prog junk dev fs kp p (ls_line path) k = Some (Inr (Next (out @ ux_cmd_done) k))"
proof -
  have "printk_nl ''%s'' [Text cmd_done] = Inr ux_cmd_done"
    by (simp add: fixed_texts(1) cmd_done_def ux_cmd_done_def str_def)
  then show ?thesis using assms
    by (simp add: shell_command_def starts_def ls_line_def str_def done_after_def after_def)
qed

lemma pi_ls_loop:
  assumes "do_ls dev fs path = Some (Inr out)" "0x0A \<notin> set path" "length path \<le> 1000"
  shows "shell_loop prog junk dev fs kp p (ls_line path @ 0x0A # inp) k =
    map_option (\<lambda>r. rbind r (\<lambda>(out', fin). Inr ((out @ ux_cmd_done) @ out', fin))) (shell_loop prog junk dev fs kp p inp k)"
proof -
  have "0x0A \<notin> set (ls_line path)" "length (ls_line path) < 1024" using assms(2,3) by (simp_all add: ls_line_def str_def)
  then show ?thesis using readline_run [of "ls_line path" 1024 "[]" inp]
    by (subst shell_loop.simps) (simp add: pi_ls [OF assms(1)])
qed

lemma shell_loop_idle: "shell_loop prog junk dev fs kp p [] k = Some (Inr ([], Waiting k))"
proof -
  have "run_io (readline (Suc 1023) []) [] = None" by (simp only: readline.simps) simp
  then show ?thesis by (subst shell_loop.simps) simp
qed

definition listings :: "dev \<Rightarrow> fat32_fs \<Rightarrow> (u8 list \<times> u8 list) list \<Rightarrow> bool" where
  "listings dev fs cmds \<longleftrightarrow> (\<forall>(path, out) \<in> set cmds.
     is_word path \<and> length path \<le> 1000 \<and> do_ls dev fs path = Some (Inr out) \<and> \<not> sublist ux_cmd_done out)"

definition requests :: "(u8 list \<times> u8 list) list \<Rightarrow> u8 list" where
  "requests cmds = concat (map (\<lambda>(path, out). ls_line path @ [0x0A]) cmds)"

definition replies :: "(u8 list \<times> u8 list) list \<Rightarrow> u8 list" where
  "replies cmds = concat (map (\<lambda>(path, out). out @ ux_cmd_done) cmds)"

definition typed :: "u8 list \<Rightarrow> (u8 list \<times> u8 list) list \<Rightarrow> event list" where
  "typed old cmds = map (\<lambda>(path, out). Line (ls_line path @ [0x0A]) old) cmds"

lemma pi_session:
  "listings dev fs cmds \<Longrightarrow> shell_loop prog junk dev fs kp p (requests cmds) k = Some (Inr (replies cmds, Waiting k))"
proof (induction cmds)
  case (Cons cmd cmds)
  obtain path out where cmd: "cmd = (path, out)" by (cases cmd)
  have c: "is_word path" "length path \<le> 1000" "do_ls dev fs path = Some (Inr out)"
    and rest: "listings dev fs cmds" using Cons.prems(1) by (auto simp: listings_def cmd)
  have "0x0A \<notin> set path" using c(1) by (auto simp: isspace_def)
  then show ?case using Cons.IH [OF rest] by (simp add: requests_def replies_def cmd pi_ls_loop [OF c(3) _ c(2)])
qed (simp add: shell_loop_idle requests_def replies_def)

lemma unix_session:
  assumes "listings dev fs cmds" "\<forall>n. wr n = int n" "rx l = map Got (replies cmds) @ rest"
  shows "shell_lines wr files (typed old cmds) l =
    (Inr (), l\<lparr>rx := rest, tx := tx l @ requests cmds, shown := shown l @ replies cmds\<rparr>)"
  using assms
proof (induction cmds arbitrary: l)
  case Nil
  then show ?case by (simp add: requests_def replies_def typed_def ret_def)
next
  case (Cons cmd cmds)
  obtain path out where cmd: "cmd = (path, out)" by (cases cmd)
  have c: "is_word path" "length path \<le> 1000" "do_ls dev fs path = Some (Inr out)" "\<not> sublist ux_cmd_done out"
    and ls: "listings dev fs cmds" using Cons.prems(1) by (auto simp: listings_def cmd)
  have "rx l = map Got (out @ ux_cmd_done) @ map Got (replies cmds) @ rest"
    using Cons.prems(3) by (simp add: replies_def cmd)
  from unix_ls [OF Cons.prems(2) c(1) this c(4) do_ls_ends [OF c(3,2)], of files old] Cons.IH [OF ls Cons.prems(2)]
  show ?case by (simp add: cmd typed_def requests_def replies_def bind_def)
qed

section \<open>Long files are cut, and the marker can be missed\<close>

lemma echo_loop_blocks: "scan w 0 x = Some q \<Longrightarrow> w \<noteq> [] \<Longrightarrow> fst (echo_loop (at_pos w 0) (map Got x) out) = Inl Blocked"
  using echo_loop_scan [of w 0 x q "[]" out] by simp

lemma marker_missed:
  assumes "scan ux_cmd_done 0 x = Some q" "c \<notin> set ux_cmd_done"
  shows "scan ux_cmd_done 0 (x @ [c, 0x43] @ ux_cmd_done) = Some 0"
proof -
  have q: "q < length ux_cmd_done" using scan_bound [OF assms(1)] by (simp add: ux_cmd_done_def str_def)
  then have "c \<noteq> ux_cmd_done ! q" using assms(2) by (metis nth_mem)
  then show ?thesis by (simp add: scan_append assms(1)) (simp add: ux_cmd_done_def str_def)
qed

section \<open>A disk with one long file\<close>

definition toy_ent :: "u8 list" where
  "toy_ent = replicate 11 0x42 @ 0x20 # replicate 8 0 @ [0, 0, 0, 0, 0, 0, 3, 0, 0, 4, 0, 0]"

text \<open>Clusters of two sectors: the root directory in sectors 40 and 41, the file in 42 and 43.\<close>

definition toy_block :: "u32 \<Rightarrow> u8 list" where
  "toy_block lba =
     (if lba = 40 then toy_ent @ replicate 480 0
      else if lba = 42 then replicate 512 0x61
      else if lba = 43 then replicate 510 0x61 @ [0x43, 0x61]
      else replicate 512 0)"

definition toy_dev :: dev where
  "toy_dev lba n = (n * 512, concat (map (\<lambda>i. toy_block (lba + of_nat i)) [0..<unat n]))"

definition toy_fs :: fat32_fs where
  "toy_fs = \<lparr>fat_begin_lba = 32, cluster_begin_lba = 40, sectors_per_cluster = 2, root_dir_first_cluster = 2,
     fat = [0, 0, 0x0FFFFFFF, 0x0FFFFFFF], n_fat = 2\<rparr>"

definition toy_entry :: dirent where
  "toy_entry = \<lparr>de_name = str ''BBBBBBBB.BBB'', cluster_id = 3, is_dir_p = False, nbytes = 1024\<rparr>"

lemma toy_device: "block_device (\<lambda>_ :: unit. toy_dev) (\<lambda>_. True) (\<lambda>_. toy_block)"
  by unfold_locales (simp_all add: toy_block_def toy_ent_def toy_dev_def)

lemma toy_cluster: "block_device.cluster (\<lambda>_ :: unit. toy_block) () toy_fs c = toy_block (2 * c + 36) @ toy_block (2 * c + 37)"
proof -
  have "[0..<2] = [0, 1 :: nat]" by (simp add: upt_rec)
  then show ?thesis
    by (simp add: block_device.cluster_def [OF toy_device] block_device.sectors_def [OF toy_device] toy_fs_def cluster_to_lba_def
        algebra_simps)
qed

lemma dir_entries_zeros:
  assumes "length e = 32"
  shows "dir_entries (e @ replicate (32 * k) 0) (Suc k) = e # replicate k (replicate 32 0)"
proof (rule nth_equalityI)
  fix i
  assume "i < length (dir_entries (e @ replicate (32 * k) 0) (Suc k))"
  then have i: "i < Suc k" by (simp add: dir_entries_def)
  then have "dir_entries (e @ replicate (32 * k) 0) (Suc k) ! i = field (e @ replicate (32 * k) 0) (32 * i) 32"
    by (simp add: dir_entries_def del: upt_Suc)
  also have "\<dots> = (e # replicate k (replicate 32 0)) ! i"
    using assms i by (cases i) (auto simp: field_def min_def)
  finally show "dir_entries (e @ replicate (32 * k) 0) (Suc k) ! i = (e # replicate k (replicate 32 0)) ! i" .
qed (simp add: dir_entries_def)

lemma toy_root: "fat32_read_dir toy_dev toy_fs None = Some (Inr [toy_entry])"
proof -
  have one: "map (\<lambda>i. 2 + of_nat i) [0..<1] = [2 :: u32]" by simp
  have "fat_chain (fat toy_fs) 2 [2]" by code_simp
  then have ch: "fat_chain (fat toy_fs) 2 (map (\<lambda>i. 2 + of_nat i) [0..<1])" unfolding one .
  have f: "sectors_per_cluster toy_fs = 2" "root_dir_first_cluster toy_fs = 2" by (simp_all add: toy_fs_def)
  have c: "concat (map (block_device.cluster (\<lambda>_ :: unit. toy_block) () toy_fs) [2]) = toy_block 40 @ toy_block 41"
    by (simp add: toy_cluster)
  have "fat32_read_dir toy_dev toy_fs None = Some (fat32_to_dirent (dir_entries (toy_block 40 @ toy_block 41)
      (16 * 1 * unat (sectors_per_cluster toy_fs))))"
    by (rule block_device.read_dir_contiguous [OF toy_device TrueI _ _ ch, where d = None and s = "()", unfolded one c])
      (simp_all add: f)
  then have "fat32_read_dir toy_dev toy_fs None = Some (fat32_to_dirent (dir_entries (toy_block 40 @ toy_block 41) 32))"
    by (simp add: f)
  moreover have "dir_entries (toy_block 40 @ toy_block 41) 32 = toy_ent # replicate 31 (replicate 32 0)"
  proof -
    have "toy_block 40 @ toy_block 41 = toy_ent @ replicate (32 * 31) 0" by (simp add: toy_block_def flip: replicate_add)
    then show ?thesis using dir_entries_zeros [of toy_ent 31] by (simp add: toy_ent_def)
  qed
  moreover have "fat32_to_dirent (toy_ent # replicate 31 (replicate 32 0)) = Inr [toy_entry]"
  proof -
    have free: "fat32_dirent_free (replicate 32 0)" "\<not> fat32_dirent_free toy_ent" "d_attr (dir_of toy_ent) = FAT32_ARCHIVE"
      "dirent_of (short_name (dir_of toy_ent)) (dir_of toy_ent) = toy_entry" "FAT32_ARCHIVE \<noteq> FAT32_LONG_FILE_NAME"
      by code_simp+
    then show ?thesis
      by (simp add: fat32_to_dirent_def fat32_dir_cnt_entries_def short_entry free_entries del: to_dirent_loop.simps)
  qed
  ultimately show ?thesis by simp
qed

lemma toy_file:
  "\<exists>f. fat32_read_file toy_dev toy_fs toy_entry = Some (Inr f) \<and> f_data f = toy_block 42 @ toy_block 43"
proof -
  have "fat_chain (fat toy_fs) (cluster_id toy_entry) [3]" by code_simp
  moreover have "sectors_per_cluster toy_fs = 2" "nbytes toy_entry = 1024" "cluster_id toy_entry = 3" by (simp_all add: toy_fs_def toy_entry_def)
  ultimately show ?thesis
    using block_device.read_file_chain [OF toy_device, where s = "()" and fs = toy_fs and d = toy_entry and cs = "[3]"]
    by (simp add: toy_cluster)
qed

lemma toy_ls: "do_ls toy_dev toy_fs (str ''/'') = Some (Inr (str ''/:'' @ [0x0A] @ str ''BBBBBBBB.BBB'' @ [0x0A]))"
  by (simp add: do_ls_def absolute_def SLASH_def fixed_texts list_dir_def toy_root toy_entry_def after_def str_def)

end
