(* ===== verification/Unix_Fs.thy ===== *)
theory Unix_Fs
  imports Unix_Echo Pi_Printf
begin

text \<open>
  The file system that shows the Pi on the Unix side: unix-side/fs/fs.c, fs-support.c and the writing
  half of redirect.c. FUSE calls one operation at a time. The state is the table of files, the index of
  the console's entry, what the reads from the Pi will return and what was written to the Pi. The
  environment says which allocations succeed, what a grown block holds and which writes succeed.
  Sizes and offsets are natural numbers: they stay far below \<open>2 ^ 64\<close>. The notes that the operations
  print for the user are left out. An invariant says that the console's content is everything received from the Pi;
  every operation keeps it.
\<close>

section \<open>Files\<close>

record file_t =
  uf_data :: "u8 list"
  uf_alloc :: nat
  uf_n :: nat

datatype on_write = DoEcho | DoReboot | DoRun

record ux_dirent =
  ud_name :: "u8 list"
  ud_flags :: u32
  ud_file :: "file_t option"
  ud_on_wr :: "on_write option"

definition perm_rd :: u32 where "perm_rd = 0x124"
definition perm_wr :: u32 where "perm_wr = 0x92"
definition perm_exec :: u32 where "perm_exec = 0x49"
definition perm_rw :: u32 where "perm_rw = perm_rd OR perm_wr OR perm_exec"

definition is_legal :: "u32 \<Rightarrow> bool" where
  "is_legal p \<longleftrightarrow> p = perm_rd \<or> p = perm_wr \<or> p = perm_rw"

definition has_perm :: "u32 \<Rightarrow> u32 \<Rightarrow> bool res" where
  "has_perm x p = (if \<not> is_legal p then Inl PanicFault else Inr (x AND p = p))"

definition O_RDONLY :: u32 where "O_RDONLY = 0"
definition O_WRONLY :: u32 where "O_WRONLY = 1"
definition O_RDWR :: u32 where "O_RDWR = 2"

definition flag_to_perm :: "u32 \<Rightarrow> u32 res" where
  "flag_to_perm flags =
     (if flags AND O_WRONLY = O_WRONLY then Inr perm_wr
      else if flags AND O_RDWR = O_RDWR then Inr (perm_wr OR perm_rd)
      else if flags AND O_RDONLY = O_RDONLY then Inr perm_rd
      else Inl PanicFault)"

definition file_new :: "nat \<Rightarrow> file_t" where
  "file_new hint =
     (let hint = (if hint < 8192 then 8192 else hint) * 2
      in \<lparr>uf_data = replicate hint 0, uf_alloc = hint, uf_n = 0\<rparr>)"

definition file_realloc :: "file_t \<Rightarrow> nat \<Rightarrow> file_t res" where
  "file_realloc f needed =
     rbind (assert_that (0 < needed)) (\<lambda>_.
     let n = needed * 2 in
     if n < uf_n f then Inl BadAccess
     else Inr (f\<lparr>uf_data := take (uf_n f) (uf_data f) @ replicate (n - uf_n f) 0, uf_alloc := n\<rparr>))"

fun ent_index :: "ux_dirent list \<Rightarrow> u8 list \<Rightarrow> nat option" where
  "ent_index [] path = None"
| "ent_index (e # es) path = (if ud_name e = path then Some 0 else map_option Suc (ent_index es path))"

definition ent_lookup :: "ux_dirent list \<Rightarrow> u8 list \<Rightarrow> nat option \<times> ux_dirent list" where
  "ent_lookup c path =
     (if path = [] \<or> hd path \<noteq> 0x2F then (None, c)
      else case ent_index c path of None \<Rightarrow> (None, c)
      | Some i \<Rightarrow> (Some i, if ud_file (c ! i) = None then c[i := (c ! i)\<lparr>ud_file := Some (file_new 8)\<rparr>] else c))"

definition ENOENT :: int where "ENOENT = 2"
definition EACCES :: int where "EACCES = 13"
definition ENOMEM :: int where "ENOMEM = 12"

text \<open>The entry, or the error code for \<open>retv\<close>; and the table, in which a file may have been allocated.\<close>

definition file_lookup :: "ux_dirent list \<Rightarrow> u8 list \<Rightarrow> u32 \<Rightarrow> (int + nat) res \<times> ux_dirent list" where
  "file_lookup d path perm =
     (let (e, d) = ent_lookup d path in
      (case e of None \<Rightarrow> Inr (Inl (- ENOENT))
       | Some i \<Rightarrow> rbind (has_perm (ud_flags (d ! i)) perm) (\<lambda>ok. Inr (if ok then Inr i else Inl (- EACCES))), d))"

section \<open>State\<close>

record env =
  mem_ok :: "nat \<Rightarrow> bool"
  grown :: "nat \<Rightarrow> u8"
  wr_ok :: "nat \<Rightarrow> bool"

record fs_state =
  root :: "ux_dirent list"
  console :: "nat option"
  pi_rx :: "rd list"
  pi_tx :: "u8 list"

type_synonym 'a op = "fs_state \<Rightarrow> (stop + 'a) \<times> fs_state"

definition op_bind :: "'a op \<Rightarrow> ('a \<Rightarrow> 'b op) \<Rightarrow> 'b op" where
  "op_bind m f s = (case m s of (Inl e, s) \<Rightarrow> (Inl e, s) | (Inr a, s) \<Rightarrow> f a s)"

definition op_return :: "'a \<Rightarrow> 'a op" where
  "op_return a s = (Inr a, s)"

definition op_lift :: "'a res \<Rightarrow> 'a op" where
  "op_lift r s = (case r of Inl e \<Rightarrow> (Inl (Fault e), s) | Inr a \<Rightarrow> (Inr a, s))"

definition op_lookup :: "u8 list \<Rightarrow> u32 \<Rightarrow> (int + nat) op" where
  "op_lookup path perm s = (let (r, d) = file_lookup (root s) path perm in op_lift r (s\<lparr>root := d\<rparr>))"

text \<open>The entry's file; there is one after a lookup.\<close>

definition op_file :: "nat \<Rightarrow> file_t op" where
  "op_file i s = (case ud_file (root s ! i) of None \<Rightarrow> (Inl (Fault BadAccess), s) | Some f \<Rightarrow> (Inr f, s))"

definition op_set_file :: "nat \<Rightarrow> file_t \<Rightarrow> unit op" where
  "op_set_file i f s = (Inr (), s\<lparr>root := (root s)[i := (root s ! i)\<lparr>ud_file := Some f\<rparr>]\<rparr>)"

section \<open>Operations\<close>

definition pi_open :: "u8 list \<Rightarrow> u32 \<Rightarrow> int op" where
  "pi_open path flags =
     op_bind (op_lift (flag_to_perm flags)) (\<lambda>perm.
     op_bind (op_lookup path perm) (\<lambda>e.
     op_return (case e of Inl retv \<Rightarrow> retv | Inr _ \<Rightarrow> 0)))"

definition pi_readdir :: "u8 list \<Rightarrow> (int \<times> u8 list list) op" where
  "pi_readdir path s =
     (Inr (if path \<noteq> str ''/'' then (- ENOENT, []) else (0, str ''.'' # str ''..'' # map (\<lambda>e. tl (ud_name e)) (root s))), s)"

text \<open>The results are mode, links and size.\<close>

definition S_IFDIR :: u32 where "S_IFDIR = 0x4000"
definition S_IFREG :: u32 where "S_IFREG = 0x8000"

definition pi_getattr :: "u8 list \<Rightarrow> (int \<times> u32 \<times> nat \<times> nat) op" where
  "pi_getattr path s =
     (if path = str ''/'' then (Inr (0, S_IFDIR OR 0x1ED, 2, 0), s)
      else
        let (e, d) = ent_lookup (root s) path; s = s\<lparr>root := d\<rparr> in
        case e of None \<Rightarrow> (Inr (- ENOENT, 0, 0, 0), s)
        | Some i \<Rightarrow> op_bind (op_file i) (\<lambda>f. op_return (0, S_IFREG OR ud_flags (d ! i), 1, uf_n f)) s)"

definition pi_read :: "u8 list \<Rightarrow> nat \<Rightarrow> nat \<Rightarrow> (int \<times> u8 list) op" where
  "pi_read path sz offset =
     op_bind (op_lookup path perm_rd) (\<lambda>e.
     case e of Inl retv \<Rightarrow> op_return (retv, [])
     | Inr i \<Rightarrow> op_bind (op_file i) (\<lambda>f.
         if offset > uf_n f then op_return (0, [])
         else
           let sz = min sz (uf_n f - offset) in
           if length (uf_data f) < offset + sz then op_lift (Inl BadAccess)
           else op_return (int sz, take sz (drop offset (uf_data f)))))"

text \<open>Bytes that \<open>realloc\<close> adds are arbitrary; \<open>memcpy\<close> then overwrites from \<open>offset\<close>.\<close>

definition append_to_file :: "env \<Rightarrow> file_t \<Rightarrow> u8 list \<Rightarrow> nat \<Rightarrow> int \<times> file_t" where
  "append_to_file env f buf offset =
     (let sz = length buf; grow = offset + sz > uf_alloc f in
      if grow \<and> \<not> mem_ok env (offset + sz) then (- ENOMEM, f)
      else
        let f = (if grow
                 then f\<lparr>uf_data := uf_data f @ map (grown env) [uf_alloc f..<offset + sz], uf_alloc := offset + sz\<rparr>
                 else f);
            data = take offset (uf_data f) @ buf @ drop (offset + sz) (uf_data f)
        in (int sz, f\<lparr>uf_data := data, uf_n := max (uf_n f) (offset + sz)\<rparr>))"

definition wr_console :: "env \<Rightarrow> u8 \<Rightarrow> fs_state \<Rightarrow> fs_state res" where
  "wr_console env c s =
     (case console s of None \<Rightarrow> Inl BadAccess
      | Some i \<Rightarrow> (case ud_file (root s ! i) of None \<Rightarrow> Inl BadAccess
        | Some f \<Rightarrow> Inr (snd (op_set_file i (snd (append_to_file env f [c] (uf_n f))) s))))"

definition prompt :: "u8 list" where "prompt = str ''PIX:> ''"

text \<open>\<open>echo_until_fn(pi_rd_fd, prompt, wr_console)\<close>.\<close>

definition await_prompt :: "env \<Rightarrow> unit op" where
  "await_prompt env s =
     (case mk_fsm prompt of Inl e \<Rightarrow> (Inl (Fault e), s)
      | Inr f \<Rightarrow>
          let (r, rs, st) = echo_fn_loop (\<lambda>r c. rbind r (wr_console env c)) f (pi_rx s) (Inr s) in
          case st of Inl e \<Rightarrow> (Inl (Fault e), s\<lparr>pi_rx := rs\<rparr>)
          | Inr s \<Rightarrow> (case r of Inl e \<Rightarrow> Inl e | Inr _ \<Rightarrow> Inr (), s\<lparr>pi_rx := rs\<rparr>))"

definition fd_putc :: "env \<Rightarrow> u8 \<Rightarrow> unit op" where
  "fd_putc env c s =
     (if wr_ok env (length (pi_tx s)) then (Inr (), s\<lparr>pi_tx := pi_tx s @ [c]\<rparr>) else (Inl (Fault PanicFault), s))"

text \<open>A C string: the bytes before the first NUL; without one the loop runs off the buffer.\<close>

fun fd_puts :: "env \<Rightarrow> u8 list \<Rightarrow> unit op" where
  "fd_puts env [] = op_lift (Inl BadAccess)"
| "fd_puts env (c # msg) = (if c = 0 then op_return () else op_bind (fd_putc env c) (\<lambda>_. fd_puts env msg))"

definition do_reboot :: "env \<Rightarrow> int op" where
  "do_reboot env =
     op_bind (fd_puts env (str ''reboot'' @ [0x0A, 0])) (\<lambda>_.
     op_bind (await_prompt env) (\<lambda>_ s. (Inl Exit, s)))"

definition fs_do_echo :: "env \<Rightarrow> u8 list \<Rightarrow> nat \<Rightarrow> int op" where
  "fs_do_echo env buf sz =
     op_bind (fd_puts env (str ''echo '' @ [0])) (\<lambda>_.
     op_bind (fd_puts env buf) (\<lambda>_.
     op_bind (fd_puts env [0x0A, 0]) (\<lambda>_.
     op_bind (await_prompt env) (\<lambda>_. op_return (int sz)))))"

definition fs_do_run :: "env \<Rightarrow> u8 list \<Rightarrow> nat \<Rightarrow> int op" where
  "fs_do_run env buf sz =
     op_bind (fd_puts env buf) (\<lambda>_.
     op_bind (fd_puts env [0x0A, 0]) (\<lambda>_.
     op_bind (await_prompt env) (\<lambda>_. op_return (int sz))))"

text \<open>\<open>buf\<close> is the memory at the pointer that FUSE passes, of which \<open>sz\<close> bytes are the data.\<close>

definition pi_write :: "env \<Rightarrow> u8 list \<Rightarrow> u8 list \<Rightarrow> nat \<Rightarrow> nat \<Rightarrow> int op" where
  "pi_write env path buf sz offset =
     op_bind (op_lookup path perm_wr) (\<lambda>e.
     case e of Inl retv \<Rightarrow> op_return retv
     | Inr i \<Rightarrow> (\<lambda>s. (case ud_on_wr (root s ! i) of
         Some DoEcho \<Rightarrow> fs_do_echo env buf sz s
       | Some DoReboot \<Rightarrow> do_reboot env s
       | Some DoRun \<Rightarrow> fs_do_run env buf sz s
       | None \<Rightarrow> op_bind (op_file i) (\<lambda>f.
           if offset > uf_n f then op_return 0
           else
             let (n, f) = append_to_file env f (take sz buf) offset
             in op_bind (op_set_file i f) (\<lambda>_. op_return n)) s)))"

definition pi_truncate :: "u8 list \<Rightarrow> nat \<Rightarrow> int op" where
  "pi_truncate path len =
     op_bind (op_lookup path perm_wr) (\<lambda>e.
     case e of Inl retv \<Rightarrow> op_return retv
     | Inr i \<Rightarrow> op_bind (op_file i) (\<lambda>f.
         op_bind (if len < uf_n f then op_set_file i (f\<lparr>uf_n := len\<rparr>) else op_return ()) (\<lambda>_. op_return 0)))"

definition pi_ftruncate :: "u8 list \<Rightarrow> nat \<Rightarrow> int op" where
  "pi_ftruncate path len = pi_truncate path len"

section \<open>The running file system\<close>

definition root_files :: "ux_dirent list" where
  "root_files =
    [\<lparr>ud_name = str ''/echo.cmd'', ud_flags = perm_rw, ud_file = None, ud_on_wr = Some DoEcho\<rparr>,
     \<lparr>ud_name = str ''/reboot.cmd'', ud_flags = perm_rw, ud_file = None, ud_on_wr = Some DoReboot\<rparr>,
     \<lparr>ud_name = str ''/run.cmd'', ud_flags = perm_rw, ud_file = None, ud_on_wr = Some DoRun\<rparr>,
     \<lparr>ud_name = str ''/console'', ud_flags = perm_rd, ud_file = None, ud_on_wr = None\<rparr>]"

text \<open>
  \<open>main\<close> up to the call of FUSE; \<open>using_pi\<close> is the option \<open>-pi\<close>. The checks of the inherited descriptor and
  \<open>redir\<close>, which starts the shell and connects its pipes, are left to the operating system.
\<close>

definition op_find :: "u8 list \<Rightarrow> nat option op" where
  "op_find path s = (let (e, d) = ent_lookup (root s) path in (Inr e, s\<lparr>root := d\<rparr>))"

definition fs_main :: "env \<Rightarrow> bool \<Rightarrow> unit op" where
  "fs_main env using_pi =
     op_bind (op_find (str ''/console'')) (\<lambda>e. op_bind (op_lift (assert_that (e \<noteq> None))) (\<lambda>_.
     op_bind (op_find (str ''/echo.cmd'')) (\<lambda>e. op_bind (op_lift (assert_that (e \<noteq> None))) (\<lambda>_.
     op_bind (op_find (str ''/reboot.cmd'')) (\<lambda>e. op_bind (op_lift (assert_that (e \<noteq> None))) (\<lambda>_.
     op_bind (op_find (str ''/run.cmd'')) (\<lambda>e. op_bind (op_lift (assert_that (e \<noteq> None))) (\<lambda>_.
     op_bind (op_find (str ''/console'')) (\<lambda>e.
     op_bind (\<lambda>s. (Inr (), s\<lparr>console := e\<rparr>)) (\<lambda>_.
     if using_pi then await_prompt env else op_return ()))))))))))"

datatype request =
    Open "u8 list" u32
  | Readdir "u8 list"
  | Getattr "u8 list"
  | Read "u8 list" nat nat
  | Write "u8 list" "u8 list" nat nat
  | Truncate "u8 list" nat
  | Ftruncate "u8 list" nat

definition serve :: "env \<Rightarrow> request \<Rightarrow> unit op" where
  "serve env r =
     (case r of
        Open path flags \<Rightarrow> op_bind (pi_open path flags) (\<lambda>_. op_return ())
      | Readdir path \<Rightarrow> op_bind (pi_readdir path) (\<lambda>_. op_return ())
      | Getattr path \<Rightarrow> op_bind (pi_getattr path) (\<lambda>_. op_return ())
      | Read path sz offset \<Rightarrow> op_bind (pi_read path sz offset) (\<lambda>_. op_return ())
      | Write path buf sz offset \<Rightarrow> op_bind (pi_write env path buf sz offset) (\<lambda>_. op_return ())
      | Truncate path len \<Rightarrow> op_bind (pi_truncate path len) (\<lambda>_. op_return ())
      | Ftruncate path len \<Rightarrow> op_bind (pi_ftruncate path len) (\<lambda>_. op_return ()))"

fun serve_all :: "env \<Rightarrow> request list \<Rightarrow> unit op" where
  "serve_all env [] = op_return ()"
| "serve_all env (r # rs) = op_bind (serve env r) (\<lambda>_. serve_all env rs)"

section \<open>Contents\<close>

definition file_ok :: "file_t \<Rightarrow> bool" where
  "file_ok f \<longleftrightarrow> uf_n f \<le> uf_alloc f \<and> length (uf_data f) = uf_alloc f"

definition content :: "file_t \<Rightarrow> u8 list" where
  "content f = take (uf_n f) (uf_data f)"

lemma length_content [simp]: "file_ok f \<Longrightarrow> length (content f) = uf_n f"
  by (simp add: file_ok_def content_def)

lemma file_new_ok: "file_ok (file_new n)" "content (file_new n) = []"
  by (simp_all add: file_ok_def content_def file_new_def Let_def)

text \<open>Writing within the file or at its end replaces the bytes written and keeps the others.\<close>

lemma append_content:
  assumes "file_ok f" "offset \<le> uf_n f" "mem_ok env (offset + length buf)"
  shows "append_to_file env f buf offset = (int (length buf), snd (append_to_file env f buf offset)) \<and>
    file_ok (snd (append_to_file env f buf offset)) \<and>
    content (snd (append_to_file env f buf offset)) = take offset (content f) @ buf @ drop (offset + length buf) (content f)"
proof -
  define d where "d = (if offset + length buf > uf_alloc f then uf_data f @ map (grown env) [uf_alloc f..<offset + length buf] else uf_data f)"
  define a where "a = max (uf_alloc f) (offset + length buf)"
  define f' where "f' = f\<lparr>uf_data := take offset d @ buf @ drop (offset + length buf) d, uf_alloc := a, uf_n := max (uf_n f) (offset + length buf)\<rparr>"
  have d: "length d = a" "take (uf_n f) d = content f" using assms(1,2) by (auto simp: d_def a_def file_ok_def content_def)
  have eq: "append_to_file env f buf offset = (int (length buf), f')"
    using assms(3) by (cases f) (auto simp: append_to_file_def f'_def d_def a_def Let_def max_def)
  have "file_ok f'" using assms(1,2) d(1) by (auto simp: f'_def file_ok_def a_def)
  moreover have "content f' = take offset (content f) @ buf @ drop (offset + length buf) (content f)"
    using assms(2) unfolding d(2) [symmetric]
    by (auto simp: f'_def content_def min_def max_def drop_take d(1) a_def)
  ultimately show ?thesis unfolding eq by simp
qed

lemma append_end:
  "file_ok f \<Longrightarrow> \<forall>n. mem_ok env n \<Longrightarrow> file_ok (snd (append_to_file env f buf (uf_n f))) \<and>
    content (snd (append_to_file env f buf (uf_n f))) = content f @ buf"
  using append_content [of f "uf_n f" env buf] by (simp add: length_content [symmetric] del: length_content)

section \<open>The console is the log of the Pi's output\<close>

definition received :: "rd list \<Rightarrow> u8 list" where
  "received rs = concat (map (\<lambda>r. case r of Got c \<Rightarrow> [c] | _ \<Rightarrow> []) rs)"

lemma received_Nil [simp]: "received [] = []"
  by (simp add: received_def)

lemma received_Got [simp]: "received (map Got x) = x"
  by (induction x) (simp_all add: received_def)

lemma received_append [simp]: "received (a @ b) = received a @ received b"
  by (simp add: received_def)

definition sig :: "ux_dirent \<Rightarrow> u8 list \<times> u32 \<times> on_write option" where
  "sig e = (ud_name e, ud_flags e, ud_on_wr e)"

definition fs_inv :: "u8 list \<Rightarrow> fs_state \<Rightarrow> bool" where
  "fs_inv log s \<longleftrightarrow> map sig (root s) = map sig root_files \<and> console s = Some 3 \<and>
     (\<exists>f. ud_file (root s ! 3) = Some f \<and> file_ok f \<and> content f = log) \<and>
     (\<forall>i < 3. \<exists>f. ud_file (root s ! i) = Some f \<and> uf_n f = 0)"

lemma fs_inv_length: "fs_inv log s \<Longrightarrow> length (root s) = 4"
  unfolding fs_inv_def by (drule conjunct1, drule arg_cong [of _ _ length]) (simp add: root_files_def)

lemma wr_console_inv:
  assumes "fs_inv log s" "\<forall>n. mem_ok env n"
  shows "\<exists>s'. wr_console env c s = Inr s' \<and> fs_inv (log @ [c]) s' \<and> pi_rx s' = pi_rx s \<and> pi_tx s' = pi_tx s"
proof -
  obtain f where f: "ud_file (root s ! 3) = Some f" "file_ok f" "content f = log" using assms(1) by (auto simp: fs_inv_def)
  let ?f = "snd (append_to_file env f [c] (uf_n f))"
  have a: "file_ok ?f" "content ?f = log @ [c]" using append_end [OF f(2) assms(2), of "[c]"] f(3) by auto
  have l: "length (root s) = 4" using fs_inv_length [OF assms(1)] .
  have "sig ((root s ! 3)\<lparr>ud_file := Some ?f\<rparr>) = sig (root s ! 3)" by (simp add: sig_def)
  then have "map sig ((root s)[3 := (root s ! 3)\<lparr>ud_file := Some ?f\<rparr>]) = map sig (root s)"
    using l by (simp add: map_update list_update_same_conv)
  then show ?thesis using assms(1) f(1) a l by (auto simp: wr_console_def fs_inv_def op_set_file_def)
qed

lemma echo_console:
  assumes "fs_inv log s" "\<forall>n. mem_ok env n" "echo_fn_loop (\<lambda>r c. rbind r (wr_console env c)) f rs (Inr s) = (r, rs', st)"
  shows "\<exists>used s'. rs = used @ rs' \<and> st = Inr s' \<and> fs_inv (log @ received used) s' \<and> pi_tx s' = pi_tx s"
  using assms(1,3)
proof (induction rs arbitrary: f log s)
  case Nil
  then show ?case by (auto simp: received_def)
next
  case (Cons x rs)
  show ?case
  proof (cases x)
    case (Got c)
    obtain s1 where s1: "wr_console env c s = Inr s1" "fs_inv (log @ [c]) s1" "pi_tx s1 = pi_tx s"
      using wr_console_inv [OF Cons.prems(1) assms(2)] by blast
    have one: ?thesis if "rs' = rs" "st = Inr s1" using that s1 Got by (intro exI [of _ "[x]"] exI [of _ s1]) (simp add: received_def)
    show ?thesis
    proof (cases "fsm_chr_done f c")
      case (Inl e)
      then show ?thesis using Cons.prems(2) Got s1(1) one by simp
    next
      case (Inr y)
      obtain b f1 where y: "y = (b, f1)" by (cases y)
      show ?thesis
      proof (cases b)
        case True
        then show ?thesis using Cons.prems(2) Got s1(1) Inr y one by simp
      next
        case False
        then have "echo_fn_loop (\<lambda>r c. rbind r (wr_console env c)) f1 rs (Inr s1) = (r, rs', st)"
          using Cons.prems(2) Got s1(1) Inr y by simp
        from Cons.IH [OF s1(2) this] obtain u s' where
          "rs = u @ rs'" "st = Inr s'" "fs_inv ((log @ [c]) @ received u) s'" "pi_tx s' = pi_tx s1" by blast
        then show ?thesis using s1(3) Got by (intro exI [of _ "x # u"] exI [of _ s']) (simp add: received_def)
      qed
    qed
  qed (use Cons.prems in \<open>auto simp: received_def intro!: exI [of _ "[x]"]\<close>)
qed

definition keeps :: "'a op \<Rightarrow> bool" where
  "keeps m \<longleftrightarrow> (\<forall>log s r s'. fs_inv log s \<longrightarrow> m s = (r, s') \<longrightarrow>
     (\<exists>used. pi_rx s = used @ pi_rx s' \<and> fs_inv (log @ received used) s'))"

lemma keepsD:
  assumes "keeps m" "fs_inv log s" "m s = (r, s')"
  obtains used where "pi_rx s = used @ pi_rx s'" "fs_inv (log @ received used) s'"
  using assms unfolding keeps_def by blast

lemma keeps_pure: "(\<And>s r s'. m s = (r, s') \<Longrightarrow> root s' = root s \<and> console s' = console s \<and> pi_rx s' = pi_rx s) \<Longrightarrow> keeps m"
  unfolding keeps_def fs_inv_def by (intro allI impI exI [of _ "[]"]) (simp add: received_def)

lemma keeps_bind [intro]:
  assumes "keeps m" "\<And>a. keeps (f a)"
  shows "keeps (op_bind m f)"
  unfolding keeps_def
proof (intro allI impI)
  fix log s r s'
  assume inv: "fs_inv log s" and e: "op_bind m f s = (r, s')"
  obtain x s1 where m: "m s = (x, s1)" by (cases "m s")
  obtain u where u: "pi_rx s = u @ pi_rx s1" "fs_inv (log @ received u) s1" using keepsD [OF assms(1) inv m] .
  show "\<exists>used. pi_rx s = used @ pi_rx s' \<and> fs_inv (log @ received used) s'"
  proof (cases x)
    case (Inl e')
    then show ?thesis using e m u by (auto simp: op_bind_def)
  next
    case (Inr a)
    then have "f a s1 = (r, s')" using e m by (simp add: op_bind_def)
    then obtain v where "pi_rx s1 = v @ pi_rx s'" "fs_inv ((log @ received u) @ received v) s'" using keepsD [OF assms(2) u(2)] by blast
    then show ?thesis using u by (intro exI [of _ "u @ v"]) simp
  qed
qed

lemma keeps_return [intro, simp]: "keeps (op_return a)"
  by (rule keeps_pure) (auto simp: op_return_def)

lemma keeps_lift [intro, simp]: "keeps (op_lift a)"
  by (rule keeps_pure) (auto simp: op_lift_def split: sum.splits)

lemma keeps_file [intro, simp]: "keeps (op_file i)"
  by (rule keeps_pure) (auto simp: op_file_def split: option.splits)

lemma keeps_putc [intro, simp]: "keeps (fd_putc env c)"
  by (rule keeps_pure) (auto simp: fd_putc_def split: if_splits)

lemma keeps_puts [intro, simp]: "keeps (fd_puts env msg)"
  by (induction msg) auto

lemma keeps_await:
  assumes "\<forall>n. mem_ok env n"
  shows "keeps (await_prompt env)"
  unfolding keeps_def
proof (intro allI impI)
  fix log s r s'
  assume inv: "fs_inv log s" and e: "await_prompt env s = (r, s')"
  show "\<exists>used. pi_rx s = used @ pi_rx s' \<and> fs_inv (log @ received used) s'"
  proof (cases "mk_fsm prompt")
    case (Inl x)
    then show ?thesis using e inv by (auto simp: await_prompt_def received_def intro!: exI [of _ "[]"])
  next
    case (Inr f)
    obtain q rs st where l: "echo_fn_loop (\<lambda>r c. rbind r (wr_console env c)) f (pi_rx s) (Inr s) = (q, rs, st)"
      by (metis prod_cases3)
    obtain u s1 where "pi_rx s = u @ rs" "st = Inr s1" "fs_inv (log @ received u) s1"
      using echo_console [OF inv assms l] by blast
    then show ?thesis using e Inr l by (auto simp: await_prompt_def fs_inv_def)
  qed
qed

section \<open>Lookups\<close>

lemma ent_index_Some: "ent_index c path = Some i \<Longrightarrow> i < length c \<and> ud_name (c ! i) = path"
  by (induction c arbitrary: i) (auto split: if_splits)

lemma fs_inv_file: "fs_inv log s \<Longrightarrow> i < 4 \<Longrightarrow> ud_file (root s ! i) \<noteq> None"
  using less_Suc_eq [of i 3] by (auto simp: fs_inv_def)

lemma op_find_inv:
  assumes "fs_inv log s" "ent_lookup (root s) path = (e, d)"
  shows "d = root s \<and> (\<forall>i. e = Some i \<longrightarrow> i < 4 \<and> ud_name (d ! i) = path)"
proof -
  have "ent_index (root s) path = Some i \<Longrightarrow> i < 4 \<and> ud_name (root s ! i) = path \<and> (ud_file (root s ! i) = None) = False" for i
    using ent_index_Some fs_inv_length [OF assms(1)] fs_inv_file [OF assms(1)] by metis
  then show ?thesis using assms(2)
    by (auto simp: ent_lookup_def split: if_splits option.splits)
qed

lemma nth_lt_4: "i < (4::nat) \<Longrightarrow> i = 0 \<or> i = 1 \<or> i = 2 \<or> i = 3"
  by arith

lemma fs_inv_sig: "fs_inv log s \<Longrightarrow> i < 4 \<Longrightarrow> sig (root s ! i) = sig (root_files ! i)"
proof -
  assume "fs_inv log s" "i < 4"
  then have "map sig (root s) ! i = map sig root_files ! i" "length (root s) = 4" "length root_files = 4"
    using fs_inv_length by (auto simp: fs_inv_def root_files_def)
  then show ?thesis using \<open>i < 4\<close> by simp
qed

lemma op_lookup_inv:
  assumes "fs_inv log s" "op_lookup path perm s = (r, s')"
  shows "s' = s \<and> (\<forall>i. r = Inr (Inr i) \<longrightarrow> i < 4 \<and> has_perm (ud_flags (root s ! i)) perm = Inr True)"
proof -
  obtain e d where d: "ent_lookup (root s) path = (e, d)" by (cases "ent_lookup (root s) path")
  then show ?thesis using op_find_inv [OF assms(1) d] assms(2)
    by (auto simp: op_lookup_def file_lookup_def op_lift_def split: option.splits sum.splits if_splits)
qed

lemma writable_is_command:
  assumes "fs_inv log s" "i < 4" "has_perm (ud_flags (root s ! i)) perm_wr = Inr True"
  shows "i < 3 \<and> ud_on_wr (root s ! i) \<noteq> None"
  using fs_inv_sig [OF assms(1,2)] nth_lt_4 [OF assms(2)] assms(3)
  by (auto simp: sig_def root_files_def has_perm_def is_legal_def perm_wr_def perm_rd_def perm_rw_def)

lemma keeps_after_lookup:
  assumes "\<And>log s e. fs_inv log s \<Longrightarrow> (\<And>i. e = Inr i \<Longrightarrow> i < 4 \<and> has_perm (ud_flags (root s ! i)) perm = Inr True) \<Longrightarrow>
     \<exists>m. keeps m \<and> f e s = m s"
  shows "keeps (op_bind (op_lookup path perm) f)"
  unfolding keeps_def
proof (intro allI impI)
  fix log s r s'
  assume inv: "fs_inv log s" and e: "op_bind (op_lookup path perm) f s = (r, s')"
  obtain x s1 where m: "op_lookup path perm s = (x, s1)" by (cases "op_lookup path perm s")
  note i = op_lookup_inv [OF inv m]
  show "\<exists>used. pi_rx s = used @ pi_rx s' \<and> fs_inv (log @ received used) s'"
  proof (cases x)
    case (Inl y)
    then show ?thesis using e m i inv by (auto simp: op_bind_def received_def intro!: exI [of _ "[]"])
  next
    case (Inr a)
    then have f: "f a s1 = (r, s')" using e m by (simp add: op_bind_def)
    obtain m' where k: "keeps m'" "f a s = m' s" using assms [of log s a] inv i Inr by blast
    have "m' s = (r, s')" using f i k(2) by simp
    then show ?thesis using keepsD [OF k(1) inv] by blast
  qed
qed


section \<open>Every request keeps the log\<close>

lemma keeps_find: "keeps (op_find path)"
  unfolding keeps_def
proof (intro allI impI)
  fix log s r s'
  assume "fs_inv log s" "op_find path s = (r, s')"
  then show "\<exists>used. pi_rx s = used @ pi_rx s' \<and> fs_inv (log @ received used) s'"
    using op_find_inv [of log s path] by (intro exI [of _ "[]"]) (auto simp: op_find_def received_def split: prod.splits)
qed

lemma pi_getattr_find:
  "pi_getattr path = (if path = str ''/'' then op_return (0, S_IFDIR OR 0x1ED, 2, 0) else op_bind (op_find path) (\<lambda>e.
     case e of None \<Rightarrow> op_return (- ENOENT, 0, 0, 0)
     | Some i \<Rightarrow> (\<lambda>s. op_bind (op_file i) (\<lambda>f. op_return (0, S_IFREG OR ud_flags (root s ! i), 1, uf_n f)) s)))"
  by (rule ext) (simp add: pi_getattr_def op_bind_def op_find_def op_return_def split: prod.split option.split)

lemma keeps_attr: "keeps (\<lambda>s. op_bind (op_file i) (\<lambda>f. op_return (g s f)) s)"
  by (rule keeps_pure) (auto simp: op_bind_def op_file_def op_return_def split: option.splits)

lemma keeps_getattr: "keeps (pi_getattr path)"
  unfolding pi_getattr_find
  by (auto intro!: keeps_bind keeps_find keeps_attr split: option.split)

lemma keeps_open: "keeps (pi_open path flags)"
  unfolding pi_open_def by (intro keeps_bind keeps_lift keeps_after_lookup) auto

lemma keeps_readdir: "keeps (pi_readdir path)"
  by (rule keeps_pure) (auto simp: pi_readdir_def)

lemma keeps_read: "keeps (pi_read path sz offset)"
  unfolding pi_read_def
  by (rule keeps_after_lookup, rule exI, rule conjI [OF _ refl]) (auto simp: Let_def split: sum.split)

lemma keeps_exit: "keeps (\<lambda>s. (Inl Exit, s))"
  by (rule keeps_pure) auto

lemma keeps_command:
  assumes "\<forall>n. mem_ok env n"
  shows "keeps (do_reboot env)" "keeps (fs_do_echo env buf sz)" "keeps (fs_do_run env buf sz)"
  unfolding do_reboot_def fs_do_echo_def fs_do_run_def
  by (intro keeps_bind keeps_puts keeps_await keeps_return keeps_exit assms)+

lemma keeps_write:
  assumes "\<forall>n. mem_ok env n"
  shows "keeps (pi_write env path buf sz offset)"
  unfolding pi_write_def
proof (rule keeps_after_lookup, goal_cases)
  case (1 log s e)
  show ?case
  proof (cases e)
    case (Inl x)
    then show ?thesis by auto
  next
    case (Inr i)
    then obtain w where "ud_on_wr (root s ! i) = Some w" using 1 writable_is_command [OF 1(1)] by blast
    then show ?thesis using Inr keeps_command [OF assms]
      by (cases w) (simp_all, (rule exI, rule conjI, assumption, rule refl)+)
  qed
qed

lemma keeps_truncate: "keeps (pi_truncate path len)"
  unfolding pi_truncate_def
proof (rule keeps_after_lookup, goal_cases)
  case (1 log s e)
  show ?case
  proof (cases e)
    case (Inl x)
    then show ?thesis by auto
  next
    case (Inr i)
    then have "i < 3" using 1 writable_is_command [OF 1(1)] by blast
    then obtain f where "ud_file (root s ! i) = Some f" "uf_n f = 0" using 1(1) by (auto simp: fs_inv_def)
    then show ?thesis using Inr by (intro exI [of _ "op_return 0"]) (simp add: op_bind_def op_file_def op_return_def)
  qed
qed

lemma keeps_serve: "\<forall>n. mem_ok env n \<Longrightarrow> keeps (serve env r)"
  by (cases r) (auto simp: serve_def pi_ftruncate_def
      intro!: keeps_bind keeps_open keeps_readdir keeps_getattr keeps_read keeps_write keeps_truncate)

lemma keeps_serve_all: "\<forall>n. mem_ok env n \<Longrightarrow> keeps (serve_all env rs)"
  by (induction rs) (auto intro!: keeps_bind keeps_serve)

lemma fs_inv_started:
  "fs_inv [] \<lparr>root = map (\<lambda>e. e\<lparr>ud_file := Some (file_new 8)\<rparr>) root_files, console = Some 3, pi_rx = rx, pi_tx = tx\<rparr>"
  by (simp add: fs_inv_def root_files_def sig_def file_ok_def content_def file_new_def nth_Cons split: nat.split)

lemma fs_main_starts:
  assumes "\<forall>n. mem_ok env n"
    "fs_main env using_pi \<lparr>root = root_files, console = None, pi_rx = rx, pi_tx = []\<rparr> = (Inr (), s)"
  shows "\<exists>used. rx = used @ pi_rx s \<and> fs_inv (received used) s"
proof -
  define e where "e = map (\<lambda>e. e\<lparr>ud_file := Some (file_new 8)\<rparr>) root_files"
  let ?s = "\<lparr>root = e, console = Some 3, pi_rx = rx, pi_tx = []\<rparr>"
  have m: "(if using_pi then await_prompt env else op_return ()) ?s = (Inr (), s)"
    using assms(2) by (cases using_pi) (simp_all add: fs_main_def op_bind_def op_find_def ent_lookup_def root_files_def e_def str_def op_lift_def assert_that_def numeral_3_eq_3)
  have "fs_inv [] ?s" unfolding e_def by (rule fs_inv_started)
  moreover have "keeps (if using_pi then await_prompt env else op_return ())" using keeps_await [OF assms(1)] by simp
  ultimately show ?thesis using m by (fastforce elim: keepsD)
qed


lemma op_lookup_name:
  assumes "fs_inv log s"
  shows "op_lookup (str ''/console'') perm_rd s = (Inr (Inr 3), s)"
    "op_lookup (str ''/run.cmd'') perm_wr s = (Inr (Inr 2), s)" "ud_on_wr (root s ! 2) = Some DoRun"
proof -
  have l: "length (root s) = Suc (Suc (Suc (Suc 0)))" using fs_inv_length [OF assms] by simp
  obtain a b c e where r: "root s = [a, b, c, e]" using l by (auto simp: length_Suc_conv)
  have n: "ud_name a = str ''/echo.cmd''" "ud_name b = str ''/reboot.cmd''" "ud_name c = str ''/run.cmd''"
      "ud_name e = str ''/console''" "ud_flags e = perm_rd" "ud_flags c = perm_rw" "ud_on_wr c = Some DoRun"
    using fs_inv_sig [OF assms, of 0] fs_inv_sig [OF assms, of 1] fs_inv_sig [OF assms, of 2] fs_inv_sig [OF assms, of 3]
    by (simp_all add: r sig_def root_files_def)
  obtain g h where f: "ud_file e = Some g" "ud_file c = Some h" using fs_inv_file [OF assms, of 3] fs_inv_file [OF assms, of 2] by (auto simp: r)
  show "op_lookup (str ''/console'') perm_rd s = (Inr (Inr 3), s)" "op_lookup (str ''/run.cmd'') perm_wr s = (Inr (Inr 2), s)"
    using n f by (simp_all add: r op_lookup_def file_lookup_def ent_lookup_def str_def has_perm_def is_legal_def
        op_lift_def numeral_3_eq_3 numeral_2_eq_2 perm_rw_def perm_wr_def perm_rd_def perm_exec_def)
  show "ud_on_wr (root s ! 2) = Some DoRun" using n by (simp add: r)
qed

lemma pi_read_console:
  assumes "fs_inv log s"
  shows "pi_read (str ''/console'') sz offset s = (Inr (int (length (take sz (drop offset log))), take sz (drop offset log)), s)"
proof -
  obtain f where f: "ud_file (root s ! 3) = Some f" "file_ok f" "content f = log" using assms by (auto simp: fs_inv_def)
  have l: "length log = uf_n f" using length_content [OF f(2)] f(3) by simp
  have "take sz (drop offset log) = take (min sz (uf_n f - offset)) (drop offset (uf_data f))"
    using f(3) by (auto simp: content_def drop_take min.commute)
  moreover have "offset \<le> uf_n f \<Longrightarrow> offset + min sz (uf_n f - offset) \<le> length (uf_data f)"
    using f(2) by (auto simp: file_ok_def)
  ultimately show ?thesis using f(1) l
    by (auto simp: pi_read_def op_bind_def op_lookup_name [OF assms] op_file_def op_return_def Let_def not_less)
qed

text \<open>
  C11: the console file is the log of the Pi's output. After the start-up and any sequence of requests, with
  memory for the file's growth, reading \<open>/console\<close> at any offset gives that part of the bytes received from the
  Pi since the start, each once and in order, and reading them changes nothing; no request can alter the log.
\<close>

theorem console_is_log:
  assumes "\<forall>n. mem_ok env n"
    "fs_main env using_pi \<lparr>root = root_files, console = None, pi_rx = rx, pi_tx = []\<rparr> = (Inr (), s0)"
    "serve_all env reqs s0 = (r, s)"
  shows "\<exists>used. rx = used @ pi_rx s \<and>
    (\<forall>sz offset. pi_read (str ''/console'') sz offset s =
       (Inr (int (length (take sz (drop offset (received used)))), take sz (drop offset (received used))), s))"
proof -
  obtain u where u: "rx = u @ pi_rx s0" "fs_inv (received u) s0" using fs_main_starts [OF assms(1,2)] by blast
  obtain v where "pi_rx s0 = v @ pi_rx s" "fs_inv (received u @ received v) s"
    using keepsD [OF keeps_serve_all [OF assms(1)] u(2) assms(3)] .
  then show ?thesis using u(1) pi_read_console [of "received (u @ v)" s] by (intro exI [of _ "u @ v"]) simp
qed

theorem console_is_log_witness:
  "\<exists>s0 r s. fs_main \<lparr>mem_ok = \<lambda>_. True, grown = \<lambda>_. 0, wr_ok = \<lambda>_. True\<rparr> False
       \<lparr>root = root_files, console = None, pi_rx = map Got (str ''ok PIX:> more''), pi_tx = []\<rparr> = (Inr (), s0) \<and>
     serve_all \<lparr>mem_ok = \<lambda>_. True, grown = \<lambda>_. 0, wr_ok = \<lambda>_. True\<rparr> [Write (str ''/run.cmd'') (str ''ls'' @ [0]) 2 0] s0 = (r, s) \<and>
     (\<exists>used. map Got (str ''ok PIX:> more'') = used @ pi_rx s \<and>
       (\<forall>sz offset. pi_read (str ''/console'') sz offset s =
          (Inr (int (length (take sz (drop offset (received used)))), take sz (drop offset (received used))), s)))"
proof -
  let ?env = "\<lparr>mem_ok = \<lambda>_. True, grown = \<lambda>_. 0, wr_ok = \<lambda>_. True\<rparr>"
  let ?s = "\<lparr>root = root_files, console = None, pi_rx = map Got (str ''ok PIX:> more''), pi_tx = []\<rparr>"
  obtain x s0 where s0: "fs_main ?env False ?s = (x, s0)" by (cases "fs_main ?env False ?s")
  then have x: "x = Inr ()"
    by (simp add: fs_main_def op_bind_def op_find_def ent_lookup_def root_files_def str_def op_lift_def assert_that_def op_return_def)
  obtain r s where s: "serve_all ?env [Write (str ''/run.cmd'') (str ''ls'' @ [0]) 2 0] s0 = (r, s)" by (metis surj_pair)
  have "\<forall>n. mem_ok ?env n" by simp
  from console_is_log [OF this s0 [unfolded x] s] s0 s x show ?thesis by blast
qed


section \<open>Running a program\<close>

lemma echo_fn_found:
  assumes "echo_loop f (map Got x) out = (Inr (), [], out @ x)"
  shows "\<exists>s'. echo_fn_loop fn f (map Got x @ rs) s = (Inr True, rs, s')"
  using assms
proof (induction x arbitrary: f out s)
  case (Cons c x)
  obtain y where y: "fsm_chr_done f c = Inr y" using Cons.prems by (cases "fsm_chr_done f c") auto
  obtain b f' where "y = (b, f')" by (cases y)
  then show ?case using Cons.prems Cons.IH [of f' "out @ [c]"] y by (cases b) auto
qed simp

lemma fd_puts_ok:
  assumes "\<forall>n. wr_ok env n" "0 \<notin> set msg"
  shows "fd_puts env (msg @ 0 # junk) s = (Inr (), s\<lparr>pi_tx := pi_tx s @ msg\<rparr>)"
  using assms(2)
proof (induction msg arbitrary: s)
  case (Cons c msg)
  then show ?case using assms(1) by (simp add: op_bind_def fd_putc_def)
qed (simp add: op_return_def)

text \<open>
  C23: running a program from Unix. Writing a command to \<open>/run.cmd\<close> sends exactly the C string in the buffer and a
  newline to the Pi, then takes what the Pi sends up to and including its prompt and no more, adds it to the console's
  log, and returns the size it was given.
\<close>

theorem run_cmd_sends:
  assumes "\<forall>n. mem_ok env n" "\<forall>n. wr_ok env n" "fs_inv log s" "0 \<notin> set cmd"
    "pi_rx s = map Got (out @ prompt) @ rest" "scan prompt 0 out = Some 0"
  shows "\<exists>s'. pi_write env (str ''/run.cmd'') (cmd @ 0 # junk) sz offset s = (Inr (int sz), s') \<and>
    pi_tx s' = pi_tx s @ cmd @ [0x0A] \<and> pi_rx s' = rest \<and> fs_inv (log @ out @ prompt) s'"
proof -
  let ?s = "s\<lparr>pi_tx := pi_tx s @ cmd @ [0x0A]\<rparr>"
  have p: "mk_fsm prompt = Inr (at_pos prompt 0)" by (simp add: mk_fsm_def prompt_def str_def demand_that_def)
  have "echo_loop (at_pos prompt 0) (map Got (out @ prompt)) [] = (Inr (), [], out @ prompt)"
    using echo_loop_found [OF assms(6), of "[]" "[]"] by (simp add: prompt_def str_def)
  then obtain st where st: "echo_fn_loop (\<lambda>r c. rbind r (wr_console env c)) (at_pos prompt 0) (pi_rx s) (Inr ?s) = (Inr True, rest, st)"
    using echo_fn_found [of _ "out @ prompt" "[]"] assms(5) by fastforce
  have inv: "fs_inv log ?s" using assms(3) by (simp add: fs_inv_def)
  obtain u s1 where u: "pi_rx s = u @ rest" "st = Inr s1" "fs_inv (log @ received u) s1" "pi_tx s1 = pi_tx ?s"
    using echo_console [OF inv assms(1) st] by auto
  have "u = map Got (out @ prompt)" using u(1) assms(5) by simp
  then have r: "received u = out @ prompt" by (simp only: received_Got)
  have w: "await_prompt env ?s = (Inr (), s1\<lparr>pi_rx := rest\<rparr>)"
    using p st u(2) by (simp add: await_prompt_def)
  have "pi_write env (str ''/run.cmd'') (cmd @ 0 # junk) sz offset s = fs_do_run env (cmd @ 0 # junk) sz s"
    using op_lookup_name [OF assms(3)] by (simp add: pi_write_def op_bind_def)
  also have "\<dots> = (Inr (int sz), s1\<lparr>pi_rx := rest\<rparr>)"
    using w fd_puts_ok [OF assms(2,4)] fd_puts_ok [OF assms(2), of "[0x0A]" "[]"]
    by (simp add: fs_do_run_def op_bind_def op_return_def)
  finally show ?thesis using u(3,4) r by (simp add: fs_inv_def)
qed


theorem run_cmd_sends_witness:
  "\<exists>s'. pi_write \<lparr>mem_ok = \<lambda>_. True, grown = \<lambda>_. 0, wr_ok = \<lambda>_. True\<rparr> (str ''/run.cmd'') (str ''ls'' @ 0 # str ''junk'') 2 0
      \<lparr>root = map (\<lambda>e. e\<lparr>ud_file := Some (file_new 8)\<rparr>) root_files, console = Some 3,
       pi_rx = map Got (str ''a.txt'' @ prompt) @ [Got 0x78], pi_tx = []\<rparr> = (Inr 2, s') \<and>
    pi_tx s' = str ''ls'' @ [0x0A] \<and> pi_rx s' = [Got 0x78] \<and> fs_inv (str ''a.txt'' @ prompt) s'"
  using run_cmd_sends [where env = "\<lparr>mem_ok = \<lambda>_. True, grown = \<lambda>_. 0, wr_ok = \<lambda>_. True\<rparr>" and cmd = "str ''ls''"
      and out = "str ''a.txt''" and rest = "[Got 0x78]" and junk = "str ''junk''" and sz = 2 and offset = 0,
      OF _ _ fs_inv_started [of "map Got (str ''a.txt'' @ prompt) @ [Got 0x78]" "[]"]]
  by (simp add: str_def prompt_def)


section \<open>Opening for reading and writing\<close>

text \<open>
  \<open>O_RDWR\<close> asks for a permission that \<open>has_perm\<close> does not accept as legal, so the process panics whatever file is
  opened.
\<close>

lemma open_rdwr_panics:
  assumes "fs_inv log s"
  shows "pi_open (str ''/run.cmd'') O_RDWR s = (Inl (Fault PanicFault), s)"
proof -
  obtain i d where e: "ent_lookup (root s) (str ''/run.cmd'') = (Some i, d)"
    using op_lookup_name(2) [OF assms] by (auto simp: op_lookup_def file_lookup_def op_lift_def split: prod.splits option.splits)
  then show ?thesis using op_find_inv [OF assms e]
    by (simp add: pi_open_def op_bind_def op_lookup_def file_lookup_def op_lift_def flag_to_perm_def O_RDWR_def O_WRONLY_def
        perm_wr_def perm_rd_def has_perm_def is_legal_def perm_rw_def perm_exec_def)
qed

end
