(* ===== verification/Unix_Install.thy ===== *)
theory Unix_Install
  imports Unix_Echo Pi_Printf
begin

text \<open>
  The installer on the Unix side around the transfer itself: how unix-side/install/install.c reads its
  command line, and how it echoes what the booted program prints until the end marker. The transfer is
  \<open>simple_boot\<close> in \<open>Pi_Boot\<close>. The echo loop is shown not to depend on how the bytes are split into reads.
\<close>

section \<open>The command line\<close>

text \<open>
  The arguments after the program's name. \<open>exec_args\<close> are the words handed to \<open>execvp\<close>; the strings are C
  strings and \<open>traced\<close> is the flag of trace.c.
\<close>

record install_opts =
  prog_name :: "u8 list"
  portname :: "u8 list option"
  print_p :: bool
  traced :: bool
  exec_args :: "u8 list list option"

definition trace_turn_on_raw :: "install_opts \<Rightarrow> install_opts res" where
  "trace_turn_on_raw opts = rbind (assert_that (\<not> traced opts)) (\<lambda>_. Inr (opts\<lparr>traced := True\<rparr>))"

fun parse_opts :: "u8 list list \<Rightarrow> install_opts \<Rightarrow> install_opts res" where
  "parse_opts [] opts = Inr opts"
| "parse_opts (a # as) opts =
     (if a = str ''-silent'' then parse_opts as (opts\<lparr>print_p := False\<rparr>)
      else if a = str ''-trace'' then rbind (trace_turn_on_raw opts) (parse_opts as)
      else if a \<noteq> [] \<and> hd a = 0x2F then parse_opts as (opts\<lparr>portname := Some a\<rparr>)
      else if a = str ''-exec'' then rbind (assert_that (as \<noteq> [])) (\<lambda>_. Inr (opts\<lparr>exec_args := Some as\<rparr>))
      else Inl PanicFault)"

definition install_args :: "u8 list list \<Rightarrow> install_opts res" where
  "install_args args =
     parse_opts (butlast args)
       \<lparr>prog_name = (if args = [] then str ''kernel.img'' else last args), portname = None, print_p = True,
        traced = False, exec_args = None\<rparr>"

text \<open>What \<open>main\<close> does once the program has been sent.\<close>

datatype after_boot = Handoff "u8 list list" | EchoPi | Finish

definition after_boot :: "install_opts \<Rightarrow> after_boot" where
  "after_boot opts = (case exec_args opts of Some as \<Rightarrow> Handoff as | None \<Rightarrow> if print_p opts then EchoPi else Finish)"

section \<open>Echoing the program's output\<close>

text \<open>
  One \<open>read\<close> of at most 4095 bytes: bytes, nothing while the connection is open, nothing because it is
  closed, or an error. The buffer is terminated and handled as a C string. The results are how the loop
  ended, the reads left and what was shown.
\<close>

datatype rd_buf = Data "u8 list" | NoData | Eof | ReadError

fun install_echo :: "nat \<Rightarrow> rd_buf list \<Rightarrow> u8 list \<Rightarrow> stop \<times> rd_buf list \<times> u8 list" where
  "install_echo p [] out = (Blocked, [], out)"
| "install_echo p (NoData # rs) out = install_echo p rs out"
| "install_echo p (Eof # rs) out = (Exit, rs, out)"
| "install_echo p (ReadError # rs) out = (Exit, rs, out)"
| "install_echo p (Data buf # rs) out =
     (let s = takeWhile (\<lambda>b. b \<noteq> 0) buf in
      case install_done p s of
        Inl e \<Rightarrow> (Fault e, rs, out @ s)
      | Inr (True, _) \<Rightarrow> (Exit, rs, out @ s)
      | Inr (False, p) \<Rightarrow> install_echo p rs (out @ s))"

section \<open>Splitting into reads does not matter\<close>

lemma install_done_scan:
  "p < length DONE \<Longrightarrow>
   install_done p s = (case scan DONE p s of None \<Rightarrow> Inr (True, length DONE) | Some q \<Rightarrow> Inr (False, q))"
proof (induction s arbitrary: p)
  case (Cons c s)
  have z: "0 < length DONE" by (simp add: DONE_def)
  consider "c \<noteq> DONE ! p" | "c = DONE ! p" "p + 1 = length DONE" | "c = DONE ! p" "p + 1 \<noteq> length DONE" by blast
  then show ?case
  proof cases
    case 1
    then show ?thesis using Cons.IH [OF z] Cons.prems by (simp only: install_done.simps scan.simps if_True not_True_eq_False if_False simp_thms)
  next
    case 2
    then show ?thesis using Cons.prems by (simp only: install_done.simps scan.simps simp_thms if_True if_False option.case)
  next
    case 3
    then have "p + 1 < length DONE" using Cons.prems by linarith
    from Cons.IH [OF this] show ?thesis using 3 Cons.prems
      by (simp only: install_done.simps scan.simps if_True not_True_eq_False if_False simp_thms)
  qed
qed simp

lemma install_echo_data:
  assumes "0 \<notin> set b" "p < length DONE"
  shows "install_echo p (Data b # rs) out =
    (case scan DONE p b of None \<Rightarrow> (Exit, rs, out @ b) | Some q \<Rightarrow> install_echo q rs (out @ b))"
proof -
  have t: "takeWhile (\<lambda>x. x \<noteq> 0) b = b" using assms(1) by (simp add: takeWhile_eq_all_conv) blast
  show ?thesis unfolding install_echo.simps Let_def t install_done_scan [OF assms(2)] by (cases "scan DONE p b") simp_all
qed

lemma install_echo_reads:
  assumes "p < length DONE" "\<forall>b \<in> set bufs. 0 \<notin> set b"
  shows "\<exists>k. k \<le> length bufs \<and>
    install_echo p (map Data bufs) out =
      (if scan DONE p (concat bufs) = None then Exit else Blocked, map Data (drop k bufs), out @ concat (take k bufs)) \<and>
    (\<forall>j < k. scan DONE p (concat (take j bufs)) \<noteq> None) \<and>
    (scan DONE p (concat bufs) = None \<longrightarrow> scan DONE p (concat (take k bufs)) = None) \<and>
    (scan DONE p (concat bufs) \<noteq> None \<longrightarrow> k = length bufs)"
  using assms
proof (induction bufs arbitrary: p out)
  case (Cons b bufs)
  have s: "0 \<notin> set b" using Cons.prems(2) by simp
  show ?case
  proof (cases "scan DONE p b")
    case None
    then show ?thesis using Cons.prems(1) s
      by (intro exI [of _ 1]) (simp add: install_echo_data scan_append del: install_echo.simps)
  next
    case (Some q)
    have q: "q < length DONE" using scan_bound [OF Some Cons.prems(1)] .
    obtain k where k: "k \<le> length bufs"
        "install_echo q (map Data bufs) (out @ b) =
          (if scan DONE q (concat bufs) = None then Exit else Blocked, map Data (drop k bufs), (out @ b) @ concat (take k bufs))"
        "\<forall>j < k. scan DONE q (concat (take j bufs)) \<noteq> None"
        "scan DONE q (concat bufs) = None \<longrightarrow> scan DONE q (concat (take k bufs)) = None"
        "scan DONE q (concat bufs) \<noteq> None \<longrightarrow> k = length bufs"
      using Cons.IH [OF q, of "out @ b"] Cons.prems(2) by auto
    have "\<forall>j < Suc k. scan DONE p (concat (take j (b # bufs))) \<noteq> None"
      using k(3) Some by (auto simp: scan_append less_Suc_eq_0_disj)
    then show ?thesis using k Some Cons.prems(1) s
      by (intro exI [of _ "Suc k"]) (simp add: install_echo_data scan_append del: install_echo.simps)
  qed
qed simp

text \<open>
  C40: the installer ends exactly when the marker is in the bytes the Pi has sent, however they are split into
  reads: it stops with the first read that completes the marker and has shown every byte up to the end of that read;
  otherwise it has shown everything and waits for more. The marker is looked for with the matcher's rule (no byte is
  examined twice).
\<close>

theorem install_echo_split:
  assumes "\<forall>b \<in> set bufs. 0 \<notin> set b"
  shows "\<exists>k \<le> length bufs.
    install_echo 0 (map Data bufs) [] =
      (if scan DONE 0 (concat bufs) = None then Exit else Blocked, map Data (drop k bufs), concat (take k bufs)) \<and>
    (\<forall>j < k. scan DONE 0 (concat (take j bufs)) \<noteq> None) \<and>
    (scan DONE 0 (concat bufs) = None \<longrightarrow> scan DONE 0 (concat (take k bufs)) = None) \<and>
    (scan DONE 0 (concat bufs) \<noteq> None \<longrightarrow> k = length bufs)"
  using install_echo_reads [of 0 bufs "[]"] assms by (auto simp: DONE_def)

theorem install_echo_split_witness:
  "\<exists>k \<le> 3. install_echo 0 (map Data [str ''hi DO'', str ''NE!!!'' @ [0x0A], str ''x'']) [] =
     (Exit, map Data (drop k [str ''hi DO'', str ''NE!!!'' @ [0x0A], str ''x'']),
      concat (take k [str ''hi DO'', str ''NE!!!'' @ [0x0A], str ''x'']))"
proof -
  let ?bufs = "[str ''hi DO'', str ''NE!!!'' @ [0x0A], str ''x'']"
  have "scan DONE 0 (concat ?bufs) = None" by code_simp
  then have e: "(if scan DONE 0 (concat ?bufs) = None then Exit else Blocked) = Exit" by simp
  have "\<forall>b \<in> set ?bufs. 0 \<notin> set b" by code_simp
  from install_echo_split [OF this] show ?thesis unfolding e by (elim exE conjE) (intro exI conjI, simp_all)
qed

section \<open>What the command line selects\<close>

text \<open>The last word is the program, whatever stands before it; the words after \<open>-exec\<close> are not read as options.\<close>

lemma parse_opts_name: "parse_opts as o1 = Inr o2 \<Longrightarrow> prog_name o2 = prog_name o1"
  by (induction as o1 rule: parse_opts.induct) (auto simp: trace_turn_on_raw_def split: if_splits)

lemma install_args_name: "install_args args = Inr o1 \<Longrightarrow> args \<noteq> [] \<Longrightarrow> prog_name o1 = last args"
  by (auto simp: install_args_def dest: parse_opts_name)

lemma install_args_exec:
  "as \<noteq> [] \<Longrightarrow> \<exists>o1. install_args (str ''-exec'' # as @ [p]) = Inr o1 \<and> after_boot o1 = Handoff as \<and> prog_name o1 = p"
  by (simp add: install_args_def after_boot_def str_def butlast_append)

end
