(* ===== verification/Unix_Os.thy ===== *)
theory Unix_Os
  imports Complex_Main Unix_Install Unix_Shell
begin

text \<open>
  How the Unix programs start each other and share the connection to the Pi: the installer (unix-side/install/install.c,
  tty.c), the descriptors it hands on (support/trace.c, support.c), and the file system, which forks the shell and
  connects its pipes (fs/redirect.c, fs/fs.c). A process has a table of descriptors; \<open>pipe\<close>, \<open>dup2\<close>, \<open>close\<close> and
  \<open>open\<close> are what POSIX says of them, on a process that may have descriptors below \<open>maxfd\<close>. The names under /dev, the
  devices that can be opened and whether \<open>fork\<close> succeeds are parameters.
\<close>

section \<open>Descriptors\<close>

datatype desc = PipeRead nat | PipeWrite nat | Device "u8 list" | OtherFile nat

type_synonym fdt = "nat \<Rightarrow> desc option"

definition free_fds :: "nat \<Rightarrow> fdt \<Rightarrow> nat list" where
  "free_fds maxfd t = filter (\<lambda>i. t i = None) [0..<maxfd]"

text \<open>The pipe with number \<open>p\<close>.\<close>

definition os_pipe :: "nat \<Rightarrow> nat \<Rightarrow> fdt \<Rightarrow> ((nat \<times> nat) \<times> fdt) option" where
  "os_pipe maxfd p t =
     (case free_fds maxfd t of r # w # _ \<Rightarrow> Some ((r, w), t(r \<mapsto> PipeRead p, w \<mapsto> PipeWrite p)) | _ \<Rightarrow> None)"

definition os_dup2 :: "nat \<Rightarrow> nat \<Rightarrow> nat \<Rightarrow> fdt \<Rightarrow> fdt option" where
  "os_dup2 maxfd old new t = (if t old = None \<or> maxfd \<le> new then None else Some (t(new := t old)))"

definition os_close :: "nat \<Rightarrow> fdt \<Rightarrow> fdt option" where
  "os_close fd t = (if t fd = None then None else Some (t(fd := None)))"

definition os_open :: "nat \<Rightarrow> desc option \<Rightarrow> fdt \<Rightarrow> (nat \<times> fdt) option" where
  "os_open maxfd d t = (case (free_fds maxfd t, d) of (fd # _, Some d) \<Rightarrow> Some (fd, t(fd \<mapsto> d)) | _ \<Rightarrow> None)"

definition is_open :: "fdt \<Rightarrow> nat \<Rightarrow> bool" where
  "is_open t fd \<longleftrightarrow> t fd \<noteq> None"

text \<open>\<open>sys_die\<close> and \<open>panic\<close> end the process.\<close>

definition or_die :: "'a option \<Rightarrow> 'a res" where
  "or_die r = (case r of None \<Rightarrow> Inl PanicFault | Some x \<Rightarrow> Inr x)"

section \<open>Handing on the connection (trace.c, install.c)\<close>

definition TRACE_FD_REPLAY :: nat where "TRACE_FD_REPLAY = 11"
definition TRACE_FD_HANDOFF :: nat where "TRACE_FD_HANDOFF = 12"

text \<open>The static variables of \<open>trace_get_fd\<close>.\<close>

record trace_state =
  trace_fd :: "nat option"
  get_fd_init_p :: bool

definition trace_get_fd :: "fdt \<Rightarrow> trace_state \<Rightarrow> nat option \<times> trace_state" where
  "trace_get_fd t st =
     (let st = (if get_fd_init_p st then st
                else let st = st\<lparr>get_fd_init_p := True\<rparr> in
                  if is_open t TRACE_FD_REPLAY then st\<lparr>trace_fd := Some TRACE_FD_REPLAY\<rparr>
                  else if is_open t TRACE_FD_HANDOFF then st\<lparr>trace_fd := Some TRACE_FD_HANDOFF\<rparr>
                  else st)
      in (trace_fd st, st))"

text \<open>What \<open>waitpid\<close> says of the child: nothing, that it has exited with a code, or that a signal has ended it.\<close>

datatype wait_status = Exited nat | Signalled nat

definition exit_code :: "wait_status option \<Rightarrow> nat res" where
  "exit_code w = (case w of None \<Rightarrow> Inl PanicFault | Some (Signalled _) \<Rightarrow> Inl PanicFault | Some (Exited n) \<Rightarrow> Inr n)"

text \<open>\<open>exec\<close> is the program that the child turns into, on the child's descriptors.\<close>

definition handoff_to :: "nat \<Rightarrow> bool \<Rightarrow> (fdt \<Rightarrow> wait_status option) \<Rightarrow> nat \<Rightarrow> fdt \<Rightarrow> unit res" where
  "handoff_to maxfd forks exec fd t =
     (if \<not> forks then Inl PanicFault
      else
        let child = (case os_dup2 maxfd fd TRACE_FD_HANDOFF t of None \<Rightarrow> Some (Exited 1) | Some c \<Rightarrow> exec c)
        in rbind (exit_code child) (\<lambda>_. Inr ()))"

section \<open>Printing the transfer (trace.c)\<close>

definition cmd_to_str :: "u32 \<Rightarrow> string" where
  "cmd_to_str u =
     (if u = ARMBASE then ''ARMBASE?'' else if u = SOH then ''SOH?'' else if u = 1 then ''BAD_CKSUM?''
      else if u = 2 then ''BAD_START?'' else if u = 3 then ''BAD_END?'' else if u = 4 then ''TOO_BIG?''
      else if u = ACK then ''ACK?'' else if u = NAK then ''NAK?'' else if u = EOT then ''EOT?'' else ''DATA?'')"

text \<open>
  \<open>on\<close> is the flag \<open>trace_init_p\<close>, \<open>n\<close> the counter \<open>n_offset\<close>, as long as it is not negative. The results are what is
  printed and the counter.
\<close>

definition trace_line :: "string \<Rightarrow> u32 \<Rightarrow> u32 \<Rightarrow> string \<Rightarrow> u8 list" where
  "trace_line op n u what =
     str ''TRACE:'' @ str op @ str '':'' @ rev (emit_digits 10 n) @ str '':'' @ rev (emit_digits 16 u) @ str '' ['' @ str what @
     str '']'' @ [0x0A]"

definition trace_emit_read32 :: "u32 \<Rightarrow> u32 \<Rightarrow> u8 list \<times> u32" where
  "trace_emit_read32 u n = (trace_line ''READ32'' n u (cmd_to_str u), n + 1)"

definition trace_emit_write32 :: "u32 \<Rightarrow> u32 \<Rightarrow> u8 list \<times> u32" where
  "trace_emit_write32 u n = (trace_line ''WRITE32'' n u (cmd_to_str u), n + 1)"

definition trace_emit_read8 :: "u8 \<Rightarrow> u32 \<Rightarrow> u8 list \<times> u32" where
  "trace_emit_read8 c n = (trace_line ''READ8'' n (ucast c) ''bytes'', n + 1)"

definition trace_read32 :: "bool \<Rightarrow> u32 \<Rightarrow> u32 \<Rightarrow> u8 list \<times> u32" where
  "trace_read32 on u n = (if on then trace_emit_read32 u n else ([], n))"

definition trace_write32 :: "bool \<Rightarrow> u32 \<Rightarrow> u32 \<Rightarrow> u8 list \<times> u32" where
  "trace_write32 on u n = (if on then trace_emit_write32 u n else ([], n))"

fun trace_bytes :: "u8 list \<Rightarrow> u32 \<Rightarrow> u8 list \<times> u32" where
  "trace_bytes [] n = ([], n)"
| "trace_bytes (c # cs) n =
     (let (o1, n) = trace_emit_read8 c n; (o2, n) = trace_bytes cs n in (o1 @ o2, n))"

definition trace_read_bytes :: "bool \<Rightarrow> u8 list \<Rightarrow> u32 \<Rightarrow> u8 list \<times> u32" where
  "trace_read_bytes on p n = (if on then trace_bytes p n else ([], n))"

section \<open>Finding and configuring the terminal (support.c, tty.c)\<close>

definition ttyusb_prefixes :: "u8 list list" where
  "ttyusb_prefixes = [str ''ttyUSB'', str ''tty.SLAB_USB'']"

definition filter_for_usb :: "u8 list \<Rightarrow> bool" where
  "filter_for_usb d_name = list_ex (\<lambda>p. take (length p) d_name = p) ttyusb_prefixes"

text \<open>
  \<open>dev\<close> are the names in /dev in the order of \<open>alphasort\<close>, or nothing when \<open>scandir\<close> fails. The path that the caller
  gives is not looked at, so it is no argument; the results are the descriptor, the path and the table.
\<close>

definition open_tty :: "nat \<Rightarrow> u8 list list option \<Rightarrow> (u8 list \<Rightarrow> desc option) \<Rightarrow> fdt \<Rightarrow> (nat \<times> u8 list \<times> fdt) res" where
  "open_tty maxfd dev openable t =
     rbind (or_die dev) (\<lambda>names.
     let entries = filter filter_for_usb names in
     if entries = [] then Inl PanicFault
     else
       let dev_dir = str ''/dev'';
           first_entry = hd entries;
           path = dev_dir @ str ''/'' @ take 256 first_entry
       in rbind (or_die (os_open maxfd (openable path) t)) (\<lambda>(fd, t). Inr (fd, path, t)))"

text \<open>The settings of a terminal, and the masks that \<open>termios.h\<close> defines for them, which differ between systems.\<close>

record termios =
  c_iflag :: u32
  c_oflag :: u32
  c_cflag :: u32
  c_lflag :: u32
  vmin :: u8
  vtime :: u8

record tty_masks =
  IGNBRK :: u32
  PARENB :: u32
  CSTOPB :: u32
  CSIZE :: u32
  CS8 :: u32
  CRTSCTS :: u32
  CREAD :: u32
  CLOCAL :: u32
  IXON :: u32
  IXOFF :: u32
  IXANY :: u32
  ICANON :: u32
  ECHO :: u32
  ECHOE :: u32
  ISIG :: u32
  OPOST :: u32

text \<open>
  \<open>speed\<close> is what \<open>cfsetspeed\<close> does to the settings, \<open>got\<close> whether \<open>tcgetattr\<close> succeeds and \<open>set_ok\<close> whether
  \<open>tcsetattr\<close> accepts the settings, which are the result. The cast to \<open>int\<close> applies to the timeout before it is multiplied.
\<close>

definition set_tty_to_8n1 :: "tty_masks \<Rightarrow> (termios \<Rightarrow> termios) \<Rightarrow> bool \<Rightarrow> (termios \<Rightarrow> bool) \<Rightarrow> real \<Rightarrow> termios res" where
  "set_tty_to_8n1 M speed got set_ok timeout =
     (if \<not> got then Inl PanicFault
      else
        let tty = speed \<lparr>c_iflag = 0, c_oflag = 0, c_cflag = 0, c_lflag = 0, vmin = 0, vtime = 0\<rparr>;
            tty = tty\<lparr>c_iflag := c_iflag tty AND NOT (IGNBRK M)\<rparr>;
            tty = tty\<lparr>c_lflag := 0\<rparr>;
            tty = tty\<lparr>c_oflag := 0\<rparr>;
            tty = tty\<lparr>vmin := 0\<rparr>
        in rbind (assert_that (timeout < 100 \<and> timeout > 0)) (\<lambda>_.
        let tty = tty\<lparr>vtime := of_int (\<lfloor>timeout\<rfloor> * 10)\<rparr>;
            tty = tty\<lparr>c_cflag := c_cflag tty AND NOT (PARENB M)\<rparr>;
            tty = tty\<lparr>c_cflag := c_cflag tty AND NOT (CSTOPB M)\<rparr>;
            tty = tty\<lparr>c_cflag := c_cflag tty AND NOT (CSIZE M)\<rparr>;
            tty = tty\<lparr>c_cflag := c_cflag tty OR CS8 M\<rparr>;
            tty = tty\<lparr>c_cflag := c_cflag tty AND NOT (CRTSCTS M)\<rparr>;
            tty = tty\<lparr>c_cflag := c_cflag tty OR (CREAD M OR CLOCAL M)\<rparr>;
            tty = tty\<lparr>c_iflag := c_iflag tty AND NOT (IXON M OR IXOFF M OR IXANY M)\<rparr>;
            tty = tty\<lparr>c_iflag := c_iflag tty AND NOT (ICANON M OR ECHO M OR ECHOE M OR ISIG M)\<rparr>;
            tty = tty\<lparr>c_oflag := c_oflag tty AND NOT (OPOST M)\<rparr>
        in if set_ok tty then Inr tty else Inl PanicFault))"

section \<open>The installer (install.c)\<close>

text \<open>
  What \<open>main\<close> takes from its surroundings. \<open>configure\<close> is \<open>set_tty_to_8n1\<close> at 115200 baud and one second on the
  terminal just opened.
\<close>

record install_env =
  fd_limit :: nat
  unix_files :: "u8 list \<Rightarrow> u8 list option"
  dev_names :: "u8 list list option"
  openable :: "u8 list \<Rightarrow> desc option"
  masks :: tty_masks
  baud :: "termios \<Rightarrow> termios"
  is_tty :: "u8 list \<Rightarrow> bool"
  accepts :: "u8 list \<Rightarrow> termios \<Rightarrow> bool"

text \<open>The connection: the one inherited, or the terminal found.\<close>

definition connect :: "install_env \<Rightarrow> fdt \<Rightarrow> (nat \<times> fdt) res" where
  "connect E t =
     (case fst (trace_get_fd t \<lparr>trace_fd = None, get_fd_init_p = False\<rparr>) of
        Some fd \<Rightarrow> Inr (fd, t)
      | None \<Rightarrow>
          rbind (open_tty (fd_limit E) (dev_names E) (openable E) t) (\<lambda>(fd, path, t).
          rbind (set_tty_to_8n1 (masks E) (baud E) (is_tty E path) (accepts E path) 1) (\<lambda>_.
          Inr (fd, t))))"

text \<open>The result is the connection, the transfer over it, and what is done when the transfer has succeeded.\<close>

definition install_main :: "install_env \<Rightarrow> u8 list list \<Rightarrow> fdt \<Rightarrow> (nat \<times> fdt \<times> unit res io \<times> after_boot) res" where
  "install_main E args t =
     rbind (install_args args) (\<lambda>opts.
     rbind (read_file (unix_files E) (prog_name opts)) (\<lambda>program.
     rbind (connect E t) (\<lambda>(fd, t).
     Inr (fd, t, simple_boot program, after_boot opts))))"

section \<open>The file system and its shell (redirect.c, fs.c)\<close>

text \<open>
  The child's table when it turns into the shell, or its end. \<open>parent_fds\<close> and \<open>child_fds\<close> are the two ends of each pipe.
\<close>

definition redir_child :: "nat \<Rightarrow> nat \<times> nat \<Rightarrow> nat \<times> nat \<Rightarrow> fdt \<Rightarrow> fdt res" where
  "redir_child maxfd parent_fds child_fds t =
     rbind (or_die (os_dup2 maxfd (fst child_fds) 0 t)) (\<lambda>t.
     rbind (or_die (os_dup2 maxfd (snd parent_fds) 1 t)) (\<lambda>t.
     rbind (or_die (os_dup2 maxfd (snd parent_fds) 2 t)) (\<lambda>t.
     rbind (or_die (os_close (fst parent_fds) t)) (\<lambda>t.
     or_die (os_close (snd child_fds) t)))))"

text \<open>
  Without a child, when \<open>fork\<close> fails, the code goes on as the parent. The results are the two descriptors, the table of
  the parent, and the child if there is one; \<open>p\<close> and \<open>p + 1\<close> are the pipes made.
\<close>

definition redir :: "nat \<Rightarrow> bool \<Rightarrow> nat \<Rightarrow> fdt \<Rightarrow> (nat \<times> nat \<times> fdt \<times> fdt res option) res" where
  "redir maxfd forks p t =
     rbind (or_die (os_pipe maxfd p t)) (\<lambda>(parent_fds, t).
     rbind (or_die (os_pipe maxfd (p + 1) t)) (\<lambda>(child_fds, t).
     let child = (if forks then Some (redir_child maxfd parent_fds child_fds t) else None);
         rd_fd = fst parent_fds;
         wr_fd = snd child_fds
     in rbind (or_die (os_close (snd parent_fds) t)) (\<lambda>t.
        rbind (or_die (os_close (fst child_fds) t)) (\<lambda>t.
        Inr (rd_fd, wr_fd, t, child)))))"

text \<open>The option \<open>-pi\<close>: \<open>argv\<close>, the program's name included, without it, and the shell.\<close>

definition fs_args :: "u8 list list \<Rightarrow> u8 list list \<times> u8 list option" where
  "fs_args argv =
     (let argc = length argv in
      if argc > 3 \<and> argv ! (argc - 2) = str ''-pi'' then (take (argc - 2) argv, Some (argv ! (argc - 1)))
      else (argv, None))"

definition fs_start :: "nat \<Rightarrow> bool \<Rightarrow> nat \<Rightarrow> u8 list list \<Rightarrow> fdt \<Rightarrow> (nat \<times> nat \<times> fdt \<times> fdt res option) option res" where
  "fs_start maxfd forks p argv t =
     (case snd (fs_args argv) of
        Some pi_prog \<Rightarrow>
          rbind (demand_that (is_open t TRACE_FD_HANDOFF)) (\<lambda>_.
          rbind (redir maxfd forks p t) (\<lambda>r. Inr (Some r)))
      | None \<Rightarrow> rbind (demand_that (\<not> is_open t TRACE_FD_HANDOFF)) (\<lambda>_. Inr None))"

section \<open>Pipes between the file system and its shell\<close>

lemma free_fds_iff: "free_fds maxfd t = fs \<Longrightarrow> fd \<in> set fs \<longleftrightarrow> fd < maxfd \<and> t fd = None"
  by (auto simp: free_fds_def)

lemma free_fds_taken: "free_fds maxfd t = fd # fs \<Longrightarrow> free_fds maxfd (t(fd \<mapsto> d)) = fs"
proof -
  assume f: "free_fds maxfd t = fd # fs"
  have "distinct (fd # fs)" unfolding f [symmetric] by (simp add: free_fds_def)
  then have "filter (\<lambda>i. i \<noteq> fd) (fd # fs) = fs" by (auto intro: filter_True)
  moreover have "free_fds maxfd (t(fd \<mapsto> d)) = filter (\<lambda>i. i \<noteq> fd) (free_fds maxfd t)"
    by (auto simp: free_fds_def intro: filter_cong)
  ultimately show ?thesis using f by simp
qed

lemma os_pipe_two:
  assumes "free_fds maxfd t = r # w # fs"
  shows "os_pipe maxfd p t = Some ((r, w), t(r \<mapsto> PipeRead p, w \<mapsto> PipeWrite p))"
    "free_fds maxfd (t(r \<mapsto> PipeRead p, w \<mapsto> PipeWrite p)) = fs"
  using assms by (simp_all add: os_pipe_def free_fds_taken)

text \<open>The computation of \<open>redir\<close> when four descriptors are free.\<close>

lemma redir_eq:
  assumes "free_fds maxfd t = r # w # r' # w' # fs" "t 0 \<noteq> None" "t 1 \<noteq> None" "t 2 \<noteq> None" "2 < maxfd"
  shows "redir maxfd True p t = Inr (r, w', t(r \<mapsto> PipeRead p, w' \<mapsto> PipeWrite (p + 1)),
    Some (Inr (t(0 \<mapsto> PipeRead (p + 1), 1 \<mapsto> PipeWrite p, 2 \<mapsto> PipeWrite p, w \<mapsto> PipeWrite p, r' \<mapsto> PipeRead (p + 1)))))"
proof -
  have n: "t r = None" "t w = None" "t r' = None" "t w' = None" using free_fds_iff [OF assms(1)] by (metis list.set_intros)+
  have "distinct (free_fds maxfd t)" by (simp add: free_fds_def)
  then have d: "distinct [r, w, r', w']" unfolding assms(1) by simp
  have z: "0 \<notin> {r, w, r', w'}" "1 \<notin> {r, w, r', w'}" "2 \<notin> {r, w, r', w'}" using n assms(2-4) by (metis empty_iff insert_iff)+
  let ?t = "t(r \<mapsto> PipeRead p, w \<mapsto> PipeWrite p)" and ?u = "t(r \<mapsto> PipeRead p, w \<mapsto> PipeWrite p, r' \<mapsto> PipeRead (p + 1), w' \<mapsto> PipeWrite (p + 1))"
  note one = os_pipe_two [OF assms(1), of p] and two = os_pipe_two [OF os_pipe_two(2) [OF assms(1), of p], of "p + 1"]
  have c: "redir_child maxfd (r, w) (r', w') ?u =
      Inr (t(0 \<mapsto> PipeRead (p + 1), 1 \<mapsto> PipeWrite p, 2 \<mapsto> PipeWrite p, w \<mapsto> PipeWrite p, r' \<mapsto> PipeRead (p + 1)))"
    proof -
    have "\<not> maxfd \<le> 0" "\<not> maxfd \<le> 1" "\<not> maxfd \<le> Suc 0" "\<not> maxfd \<le> 2" using assms(5) by simp_all
    then have "redir_child maxfd (r, w) (r', w') ?u =
        Inr (?u(0 \<mapsto> PipeRead (p + 1), 1 \<mapsto> PipeWrite p, 2 \<mapsto> PipeWrite p, r := None, w' := None))"
      using d z by (auto simp add: redir_child_def os_dup2_def os_close_def or_die_def simp del: rbind_eq_Inr)
    also have "\<dots> = Inr (t(0 \<mapsto> PipeRead (p + 1), 1 \<mapsto> PipeWrite p, 2 \<mapsto> PipeWrite p, w \<mapsto> PipeWrite p, r' \<mapsto> PipeRead (p + 1)))"
      using d z n by (auto simp: fun_eq_iff)
    finally show ?thesis .
  qed
  have p: "os_close w ?u = Some (?u(w := None))" "os_close r' (?u(w := None)) = Some (?u(w := None, r' := None))"
    using d by (simp_all add: os_close_def)
  have "?u(w := None, r' := None) = t(r \<mapsto> PipeRead p, w' \<mapsto> PipeWrite (p + 1))" using d n by (auto simp: fun_eq_iff)
  then show ?thesis using one two c p by (simp add: redir_def or_die_def Let_def)
qed

text \<open>
  C20: from \<open>my-install -exec\<close> of the file system with the option \<open>-pi\<close> to the shell: the file system starts on the
  descriptor 12 that the installer hands on, and the shell that it forks has the installer's connection to the Pi there as
  well, reads what the file system writes to \<open>pi_wr_fd\<close>, and writes both its outputs to what the file system reads
  from \<open>pi_rd_fd\<close>; no other process end keeps a pipe open: the file system cannot write to the pipe it reads, nor the
  shell to its own input, so each sees the end of the other.
\<close>

theorem handoff_chain:
  assumes "4 \<le> length (free_fds maxfd (t(TRACE_FD_HANDOFF \<mapsto> dev)))" "t 0 \<noteq> None" "t 1 \<noteq> None" "t 2 \<noteq> None"
    and "TRACE_FD_HANDOFF < maxfd" "t fd = Some dev" "dev = Device path" "length opts \<ge> 2"
    and "\<forall>i q. t i = Some (PipeRead q) \<or> t i = Some (PipeWrite q) \<longrightarrow> q < p"
  shows "\<exists>rd wr parent child.
    (\<forall>exec. handoff_to maxfd True exec fd t = rbind (exit_code (exec (t(TRACE_FD_HANDOFF \<mapsto> dev)))) (\<lambda>_. Inr ())) \<and>
    fs_start maxfd True p (opts @ [str ''-pi'', sh]) (t(TRACE_FD_HANDOFF \<mapsto> dev)) = Inr (Some (rd, wr, parent, Some (Inr child))) \<and>
    child TRACE_FD_HANDOFF = Some dev \<and>
    parent wr = Some (PipeWrite (p + 1)) \<and> child 0 = Some (PipeRead (p + 1)) \<and> (\<forall>i. child i \<noteq> Some (PipeWrite (p + 1))) \<and>
    parent rd = Some (PipeRead p) \<and> child 1 = Some (PipeWrite p) \<and> child 2 = Some (PipeWrite p) \<and>
    (\<forall>i. parent i \<noteq> Some (PipeWrite p))"
proof -
  let ?t = "t(TRACE_FD_HANDOFF \<mapsto> dev)"
  obtain r w r' w' fs where f: "free_fds maxfd ?t = r # w # r' # w' # fs"
    using assms(1) by (auto simp: Suc_le_length_iff numeral_eq_Suc)
  have s: "?t 0 \<noteq> None" "?t 1 \<noteq> None" "?t 2 \<noteq> None" "2 < maxfd" using assms(2-5) by (simp_all add: TRACE_FD_HANDOFF_def)
  note R = redir_eq [OF f s, of p]
  have n: "?t r = None" "?t w = None" "?t r' = None" "?t w' = None" using free_fds_iff [OF f] by (metis list.set_intros)+
  have "distinct (free_fds maxfd ?t)" by (simp add: free_fds_def)
  then have d: "distinct [r, w, r', w']" unfolding f by simp
  have h: "TRACE_FD_HANDOFF \<notin> {r, w, r', w', 0, 1, 2}" using n by (auto simp: TRACE_FD_HANDOFF_def)
  have z: "0 \<notin> {r, w, r', w'}" "1 \<notin> {r, w, r', w'}" "2 \<notin> {r, w, r', w'}" using n s(1-3) by (metis empty_iff insert_iff)+
  have q: "t i \<noteq> Some (PipeWrite p)" "t i \<noteq> Some (PipeWrite (p + 1))" for i using assms(9) by (metis less_irrefl_nat, metis not_add_less1)
  have a: "snd (fs_args (opts @ [str ''-pi'', sh])) = Some sh" using assms(8) by (simp add: fs_args_def Let_def nth_append)
  have fs: "fs_start maxfd True p (opts @ [str ''-pi'', sh]) ?t = rbind (redir maxfd True p ?t) (\<lambda>r. Inr (Some r))"
    by (simp add: fs_start_def a is_open_def demand_that_def)
  have "\<forall>exec. handoff_to maxfd True exec fd t = rbind (exit_code (exec ?t)) (\<lambda>_. Inr ())"
    using assms(5,6) by (simp add: handoff_to_def os_dup2_def)
  moreover have "(\<lambda>i. if i = TRACE_FD_HANDOFF then Some dev else t i) = ?t" by auto
  ultimately show ?thesis unfolding fs R rbind.simps sum.inject option.inject prod.inject using d h z q assms(7)
    apply (intro exI conjI)
             apply assumption
            apply (rule refl)+
          apply (auto simp: TRACE_FD_HANDOFF_def)
    done
qed

text \<open>The installer has its console on 0 to 2 and the terminal on 3.\<close>

definition demo_fds :: fdt where
  "demo_fds = [0 \<mapsto> OtherFile 0, 1 \<mapsto> OtherFile 1, 2 \<mapsto> OtherFile 2, 3 \<mapsto> Device (str ''/dev/ttyUSB0'')]"

theorem handoff_chain_witness:
  "\<exists>rd wr parent child.
    fs_start 16 True 0 [str ''fs'', str ''mnt'', str ''-pi'', str ''sh''] (demo_fds(12 \<mapsto> Device (str ''/dev/ttyUSB0''))) =
      Inr (Some (rd, wr, parent, Some (Inr child))) \<and>
    child 12 = Some (Device (str ''/dev/ttyUSB0'')) \<and> child 0 = Some (PipeRead 1) \<and> parent wr = Some (PipeWrite 1)"
proof -
  have f: "4 \<le> length (free_fds 16 (demo_fds(TRACE_FD_HANDOFF \<mapsto> Device (str ''/dev/ttyUSB0''))))"
    by (simp add: free_fds_def demo_fds_def TRACE_FD_HANDOFF_def upt_rec)
  have d: "demo_fds 0 \<noteq> None" "demo_fds 1 \<noteq> None" "demo_fds 2 \<noteq> None" "demo_fds 3 = Some (Device (str ''/dev/ttyUSB0''))"
    "\<forall>i q. demo_fds i = Some (PipeRead q) \<or> demo_fds i = Some (PipeWrite q) \<longrightarrow> q < 0" by (auto simp: demo_fds_def split: if_splits)
  show ?thesis
    using handoff_chain [OF f d(1-3) _ d(4) refl, of "[str ''fs'', str ''mnt'']" 0 "str ''sh''"] d(5) by (auto simp: TRACE_FD_HANDOFF_def)
qed

section \<open>The installer boots the program it was given\<close>

lemma os_open_fresh: "os_open maxfd d t = Some (fd, t') \<Longrightarrow> t fd = None \<and> fd < maxfd \<and> d \<noteq> None \<and> t' = t(fd := d)"
  using free_fds_iff [of maxfd t "free_fds maxfd t" fd] by (auto simp: os_open_def split: list.splits option.splits)

lemma connect_cases:
  assumes "connect E t = Inr (fd, t')"
  obtains "t' = t" "fd = TRACE_FD_REPLAY" "is_open t fd"
  | "t' = t" "fd = TRACE_FD_HANDOFF" "is_open t fd" "\<not> is_open t TRACE_FD_REPLAY"
  | names n ns where "\<not> is_open t TRACE_FD_REPLAY" "\<not> is_open t TRACE_FD_HANDOFF" "dev_names E = Some names"
      "filter filter_for_usb names = n # ns" "t fd = None" "t' = t(fd := openable E (str ''/dev/'' @ take 256 n))" "is_open t' fd"
proof (cases "is_open t TRACE_FD_REPLAY \<or> is_open t TRACE_FD_HANDOFF")
  case True
  then show ?thesis using assms that(1,2) by (auto simp: connect_def trace_get_fd_def Let_def split: if_splits)
next
  case False
  then obtain path where o: "open_tty (fd_limit E) (dev_names E) (openable E) t = Inr (fd, path, t')"
    using assms by (auto simp: connect_def trace_get_fd_def Let_def)
  obtain names where n: "dev_names E = Some names" using o by (cases "dev_names E") (simp_all add: open_tty_def or_die_def)
  obtain e es where e: "filter filter_for_usb names = e # es"
    using o n by (cases "filter filter_for_usb names") (simp_all add: open_tty_def or_die_def Let_def)
  have "os_open (fd_limit E) (openable E (str ''/dev/'' @ take 256 e)) t = Some (fd, t')"
    using o n e by (auto simp: open_tty_def or_die_def Let_def str_def split: option.splits)
  from os_open_fresh [OF this] show ?thesis using False n e that(3) by (auto simp: is_open_def)
qed


text \<open>The masks of Linux, and a computer with one USB adapter on which a program of three bytes is installed.\<close>

definition linux_masks :: tty_masks where
  "linux_masks = \<lparr>IGNBRK = 0x1, PARENB = 0x100, CSTOPB = 0x40, CSIZE = 0x30, CS8 = 0x30, CRTSCTS = 0x80000000, CREAD = 0x80,
     CLOCAL = 0x800, IXON = 0x400, IXOFF = 0x1000, IXANY = 0x800, ICANON = 0x2, ECHO = 0x8, ECHOE = 0x10, ISIG = 0x1, OPOST = 0x1\<rparr>"

definition demo_env :: install_env where
  "demo_env = \<lparr>fd_limit = 16, unix_files = [str ''a.img'' \<mapsto> [1, 2, 3]], dev_names = Some [str ''sda'', str ''ttyUSB0''],
     openable = (\<lambda>path. Some (Device path)), masks = linux_masks, baud = (\<lambda>t. t), is_tty = (\<lambda>_. True), accepts = (\<lambda>_ _. True)\<rparr>"

lemma demo_connect: "connect demo_env (demo_fds(3 := None)) = Inr (3, demo_fds)"
proof -
  have "filter filter_for_usb [str ''sda'', str ''ttyUSB0''] = [str ''ttyUSB0'']"
    by (simp add: filter_for_usb_def ttyusb_prefixes_def str_def)
  moreover have "free_fds 16 (demo_fds(3 := None)) = 3 # [4..<16]" by (simp add: free_fds_def demo_fds_def upt_rec)
  ultimately have "open_tty 16 (Some [str ''sda'', str ''ttyUSB0'']) (\<lambda>path. Some (Device path)) (demo_fds(3 := None)) =
      Inr (3, str ''/dev/ttyUSB0'', demo_fds)"
    by (simp add: open_tty_def or_die_def os_open_def Let_def str_def demo_fds_def fun_eq_iff del: filter.simps rbind_eq_Inr)
  then show ?thesis
    by (simp add: connect_def demo_env_def trace_get_fd_def Let_def is_open_def demo_fds_def TRACE_FD_REPLAY_def TRACE_FD_HANDOFF_def
        set_tty_to_8n1_def assert_that_def del: rbind_eq_Inr)
qed


section \<open>The terminal is set to eight bits, no parity, one stop bit\<close>

text \<open>
  On a system whose masks stand for different bits, the settings of the terminal are eight data bits, no parity, one
  stop bit, no flow control of either kind, and nothing of what is received or sent interpreted; a read does not wait for a
  byte, and the timeout is in whole seconds: a shorter one is none.
\<close>

theorem tty_is_8n1:
  assumes "set_tty_to_8n1 M speed got set_ok timeout = Inr tty" "CS8 M AND CSIZE M = CS8 M"
    and "(CREAD M OR CLOCAL M) AND (PARENB M OR CSTOPB M OR CSIZE M OR CRTSCTS M) = 0"
    and "CSIZE M AND (PARENB M OR CSTOPB M OR CRTSCTS M) = 0"
  shows "c_cflag tty AND CSIZE M = CS8 M \<and> c_cflag tty AND (PARENB M OR CSTOPB M OR CRTSCTS M) = 0 \<and>
    c_cflag tty AND (CREAD M OR CLOCAL M) = CREAD M OR CLOCAL M \<and>
    c_iflag tty AND (IGNBRK M OR IXON M OR IXOFF M OR IXANY M) = 0 \<and> c_lflag tty = 0 \<and> c_oflag tty = 0 \<and>
    vmin tty = 0 \<and> vtime tty = of_int (\<lfloor>timeout\<rfloor> * 10) \<and> 0 < timeout \<and> timeout < 100 \<and> (timeout < 1 \<longrightarrow> vtime tty = 0)"
proof -
  have f: "timeout < 1 \<Longrightarrow> 0 < timeout \<Longrightarrow> \<lfloor>timeout\<rfloor> = 0" by linarith
  have b: "\<And>n. n < 32 \<Longrightarrow> bit (CS8 M) n \<Longrightarrow> bit (CSIZE M) n"
    "\<And>n. n < 32 \<Longrightarrow> bit (CREAD M) n \<or> bit (CLOCAL M) n \<Longrightarrow> \<not> bit (PARENB M) n \<and> \<not> bit (CSTOPB M) n \<and> \<not> bit (CSIZE M) n \<and> \<not> bit (CRTSCTS M) n"
    "\<And>n. n < 32 \<Longrightarrow> bit (CSIZE M) n \<Longrightarrow> \<not> bit (PARENB M) n \<and> \<not> bit (CSTOPB M) n \<and> \<not> bit (CRTSCTS M) n"
    using assms(2-4) by (auto simp: bit_eq_iff bit_simps)
  define c where "c = speed \<lparr>c_iflag = 0, c_oflag = 0, c_cflag = 0, c_lflag = 0, vmin = 0, vtime = 0\<rparr>"
  have t: "0 < timeout" "timeout < 100" and tty: "c_lflag tty = 0" "c_oflag tty = 0" "vmin tty = 0" "vtime tty = of_int (\<lfloor>timeout\<rfloor> * 10)"
      "c_cflag tty = ((((c_cflag c AND NOT (PARENB M)) AND NOT (CSTOPB M)) AND NOT (CSIZE M) OR CS8 M) AND NOT (CRTSCTS M)) OR (CREAD M OR CLOCAL M)"
      "c_iflag tty = ((c_iflag c AND NOT (IGNBRK M)) AND NOT (IXON M OR IXOFF M OR IXANY M)) AND NOT (ICANON M OR ECHO M OR ECHOE M OR ISIG M)"
    using assms(1) by (auto simp: set_tty_to_8n1_def Let_def assert_that_def c_def split: if_splits)
  have "c_cflag tty AND CSIZE M = CS8 M" "c_cflag tty AND (PARENB M OR CSTOPB M OR CRTSCTS M) = 0"
    "c_cflag tty AND (CREAD M OR CLOCAL M) = CREAD M OR CLOCAL M" "c_iflag tty AND (IGNBRK M OR IXON M OR IXOFF M OR IXANY M) = 0"
    unfolding tty(5,6) using b by (auto simp: bit_eq_iff bit_simps)
  then show ?thesis using t tty(1-4) f by auto
qed

theorem tty_is_8n1_witness:
  "\<exists>tty. set_tty_to_8n1 linux_masks (\<lambda>t. t) True (\<lambda>_. True) (1 / 2) = Inr tty \<and> c_cflag tty AND CSIZE linux_masks = CS8 linux_masks \<and> vtime tty = 0"
proof -
  obtain tty where t: "set_tty_to_8n1 linux_masks (\<lambda>t. t) True (\<lambda>_. True) (1 / 2) = Inr tty"
    by (simp add: set_tty_to_8n1_def assert_that_def Let_def)
  have "CS8 linux_masks AND CSIZE linux_masks = CS8 linux_masks"
    "(CREAD linux_masks OR CLOCAL linux_masks) AND (PARENB linux_masks OR CSTOPB linux_masks OR CSIZE linux_masks OR CRTSCTS linux_masks) = 0"
    "CSIZE linux_masks AND (PARENB linux_masks OR CSTOPB linux_masks OR CRTSCTS linux_masks) = 0" by (simp_all add: linux_masks_def)
  from tty_is_8n1 [OF t this] t show ?thesis by auto
qed

section \<open>Deviations\<close>

text \<open>When \<open>fork\<close> fails, \<open>redir\<close> returns as if there were a shell; its pipe then has no end to read from.\<close>

lemma redir_without_child:
  assumes "free_fds maxfd t = r # w # r' # w' # fs" "\<forall>i q. t i = Some (PipeRead q) \<longrightarrow> q < p"
  shows "\<exists>parent. redir maxfd False p t = Inr (r, w', parent, None) \<and> parent w' = Some (PipeWrite (p + 1)) \<and>
    (\<forall>i. parent i \<noteq> Some (PipeRead (p + 1)))"
proof -
  have "distinct (free_fds maxfd t)" by (simp add: free_fds_def)
  then have d: "distinct [r, w, r', w']" unfolding assms(1) by simp
  note one = os_pipe_two [OF assms(1), of p] and two = os_pipe_two [OF os_pipe_two(2) [OF assms(1), of p], of "p + 1"]
  have q: "t i \<noteq> Some (PipeRead (p + 1))" "t i \<noteq> Some (PipeRead (Suc p))" for i using assms(2) by fastforce+
  show ?thesis using one two d q by (auto simp: redir_def or_die_def Let_def os_close_def simp del: rbind_eq_Inr)
qed

text \<open>The installer's argument that names a device has no effect.\<close>

lemma parse_opts_port:
  assumes "\<And>o' p. f (o'\<lparr>portname := p\<rparr>) = f o'"
  shows "rbind (parse_opts as (opts\<lparr>portname := p\<rparr>)) f = rbind (parse_opts as opts) f"
proof (induction as arbitrary: opts p)
  case Nil
  then show ?case by (simp add: assms)
next
  case (Cons a as)
  have c: "(opts\<lparr>portname := p\<rparr>)\<lparr>print_p := b\<rparr> = (opts\<lparr>print_p := b\<rparr>)\<lparr>portname := p\<rparr>"
    "(opts\<lparr>portname := p\<rparr>)\<lparr>traced := b\<rparr> = (opts\<lparr>traced := b\<rparr>)\<lparr>portname := p\<rparr>"
    "(opts\<lparr>portname := p\<rparr>)\<lparr>exec_args := e\<rparr> = (opts\<lparr>exec_args := e\<rparr>)\<lparr>portname := p\<rparr>" for b e by simp_all
  show ?case using Cons.IH
    by (simp add: trace_turn_on_raw_def assert_that_def rbind_assoc c assms del: rbind_eq_Inr)
qed

lemma install_ignores_device:
  assumes "args \<noteq> []" "a \<noteq> []" "hd a = 0x2F"
  shows "install_main E (a # args) t = install_main E args t"
proof -
  have "a \<noteq> str ''-silent''" "a \<noteq> str ''-trace''" using assms(3) by (auto simp: str_def)
  then have p: "install_args (a # args) = parse_opts (butlast args) (opts\<lparr>portname := Some a\<rparr>)" "install_args args = parse_opts (butlast args) opts"
    if "opts = \<lparr>prog_name = last args, portname = None, print_p = True, traced = False, exec_args = None\<rparr>" for opts
    using assms that by (simp_all add: install_args_def)
  show ?thesis unfolding install_main_def p [OF refl] by (rule parse_opts_port) (simp add: after_boot_def)
qed

end
