(* ===== verification/Unix_Wire.thy ===== *)
theory Unix_Wire
  imports Unix_Os
begin

text \<open>
  The transfer of unix-side/support/simple-boot.c as the code performs it: bytes written and read one by one on a
  descriptor, words put together from them and traced, and the checksum of simple-boot.h with its own copy of the
  table. It is shown to implement the byte program \<open>simple_boot\<close>, on which the properties of the protocol rest, whatever
  the line does, and to trace exactly the words transferred.
\<close>

section \<open>The checksum of the Unix side (simple-boot.h)\<close>

definition ux_crc32_tab :: "u32 list" where
  "ux_crc32_tab = [
   0x00000000, 0x77073096, 0xee0e612c, 0x990951ba, 0x076dc419, 0x706af48f,
   0xe963a535, 0x9e6495a3, 0x0edb8832, 0x79dcb8a4, 0xe0d5e91e, 0x97d2d988,
   0x09b64c2b, 0x7eb17cbd, 0xe7b82d07, 0x90bf1d91, 0x1db71064, 0x6ab020f2,
   0xf3b97148, 0x84be41de, 0x1adad47d, 0x6ddde4eb, 0xf4d4b551, 0x83d385c7,
   0x136c9856, 0x646ba8c0, 0xfd62f97a, 0x8a65c9ec, 0x14015c4f, 0x63066cd9,
   0xfa0f3d63, 0x8d080df5, 0x3b6e20c8, 0x4c69105e, 0xd56041e4, 0xa2677172,
   0x3c03e4d1, 0x4b04d447, 0xd20d85fd, 0xa50ab56b, 0x35b5a8fa, 0x42b2986c,
   0xdbbbc9d6, 0xacbcf940, 0x32d86ce3, 0x45df5c75, 0xdcd60dcf, 0xabd13d59,
   0x26d930ac, 0x51de003a, 0xc8d75180, 0xbfd06116, 0x21b4f4b5, 0x56b3c423,
   0xcfba9599, 0xb8bda50f, 0x2802b89e, 0x5f058808, 0xc60cd9b2, 0xb10be924,
   0x2f6f7c87, 0x58684c11, 0xc1611dab, 0xb6662d3d, 0x76dc4190, 0x01db7106,
   0x98d220bc, 0xefd5102a, 0x71b18589, 0x06b6b51f, 0x9fbfe4a5, 0xe8b8d433,
   0x7807c9a2, 0x0f00f934, 0x9609a88e, 0xe10e9818, 0x7f6a0dbb, 0x086d3d2d,
   0x91646c97, 0xe6635c01, 0x6b6b51f4, 0x1c6c6162, 0x856530d8, 0xf262004e,
   0x6c0695ed, 0x1b01a57b, 0x8208f4c1, 0xf50fc457, 0x65b0d9c6, 0x12b7e950,
   0x8bbeb8ea, 0xfcb9887c, 0x62dd1ddf, 0x15da2d49, 0x8cd37cf3, 0xfbd44c65,
   0x4db26158, 0x3ab551ce, 0xa3bc0074, 0xd4bb30e2, 0x4adfa541, 0x3dd895d7,
   0xa4d1c46d, 0xd3d6f4fb, 0x4369e96a, 0x346ed9fc, 0xad678846, 0xda60b8d0,
   0x44042d73, 0x33031de5, 0xaa0a4c5f, 0xdd0d7cc9, 0x5005713c, 0x270241aa,
   0xbe0b1010, 0xc90c2086, 0x5768b525, 0x206f85b3, 0xb966d409, 0xce61e49f,
   0x5edef90e, 0x29d9c998, 0xb0d09822, 0xc7d7a8b4, 0x59b33d17, 0x2eb40d81,
   0xb7bd5c3b, 0xc0ba6cad, 0xedb88320, 0x9abfb3b6, 0x03b6e20c, 0x74b1d29a,
   0xead54739, 0x9dd277af, 0x04db2615, 0x73dc1683, 0xe3630b12, 0x94643b84,
   0x0d6d6a3e, 0x7a6a5aa8, 0xe40ecf0b, 0x9309ff9d, 0x0a00ae27, 0x7d079eb1,
   0xf00f9344, 0x8708a3d2, 0x1e01f268, 0x6906c2fe, 0xf762575d, 0x806567cb,
   0x196c3671, 0x6e6b06e7, 0xfed41b76, 0x89d32be0, 0x10da7a5a, 0x67dd4acc,
   0xf9b9df6f, 0x8ebeeff9, 0x17b7be43, 0x60b08ed5, 0xd6d6a3e8, 0xa1d1937e,
   0x38d8c2c4, 0x4fdff252, 0xd1bb67f1, 0xa6bc5767, 0x3fb506dd, 0x48b2364b,
   0xd80d2bda, 0xaf0a1b4c, 0x36034af6, 0x41047a60, 0xdf60efc3, 0xa867df55,
   0x316e8eef, 0x4669be79, 0xcb61b38c, 0xbc66831a, 0x256fd2a0, 0x5268e236,
   0xcc0c7795, 0xbb0b4703, 0x220216b9, 0x5505262f, 0xc5ba3bbe, 0xb2bd0b28,
   0x2bb45a92, 0x5cb36a04, 0xc2d7ffa7, 0xb5d0cf31, 0x2cd99e8b, 0x5bdeae1d,
   0x9b64c2b0, 0xec63f226, 0x756aa39c, 0x026d930a, 0x9c0906a9, 0xeb0e363f,
   0x72076785, 0x05005713, 0x95bf4a82, 0xe2b87a14, 0x7bb12bae, 0x0cb61b38,
   0x92d28e9b, 0xe5d5be0d, 0x7cdcefb7, 0x0bdbdf21, 0x86d3d2d4, 0xf1d4e242,
   0x68ddb3f8, 0x1fda836e, 0x81be16cd, 0xf6b9265b, 0x6fb077e1, 0x18b74777,
   0x88085ae6, 0xff0f6a70, 0x66063bca, 0x11010b5c, 0x8f659eff, 0xf862ae69,
   0x616bffd3, 0x166ccf45, 0xa00ae278, 0xd70dd2ee, 0x4e048354, 0x3903b3c2,
   0xa7672661, 0xd06016f7, 0x4969474d, 0x3e6e77db, 0xaed16a4a, 0xd9d65adc,
   0x40df0b66, 0x37d83bf0, 0xa9bcae53, 0xdebb9ec5, 0x47b2cf7f, 0x30b5ffe9,
   0xbdbdf21c, 0xcabac28a, 0x53b39330, 0x24b4a3a6, 0xbad03605, 0xcdd70693,
   0x54de5729, 0x23d967bf, 0xb3667a2e, 0xc4614ab8, 0x5d681b02, 0x2a6f2b94,
   0xb40bbe37, 0xc30c8ea1, 0x5a05df1b, 0x2d02ef8d
   ]"

fun ux_crc32_loop :: "u32 \<Rightarrow> u8 list \<Rightarrow> u32" where
  "ux_crc32_loop crc [] = crc"
| "ux_crc32_loop crc (p # ps) = ux_crc32_loop (ux_crc32_tab ! unat ((crc XOR ucast p) AND 0xFF) XOR drop_bit 8 crc) ps"

definition ux_crc32 :: "u8 list \<Rightarrow> u32" where
  "ux_crc32 buf = (let crc = 0; crc = crc XOR NOT 0 in ux_crc32_loop crc buf XOR NOT 0)"

section \<open>Bytes and words on the descriptor (simple-boot.c)\<close>

text \<open>The connection, and the variables of trace.c with what has been printed of the trace.\<close>

record wire =
  w_conn :: conn
  w_on :: bool
  w_n :: u32
  w_out :: "u8 list"

type_synonym 'a wx = "wire \<Rightarrow> (stop + 'a) \<times> wire"

definition wret :: "'a \<Rightarrow> 'a wx" where
  "wret a w = (Inr a, w)"

definition wbind :: "'a wx \<Rightarrow> ('a \<Rightarrow> 'b wx) \<Rightarrow> 'b wx" where
  "wbind m f w = (case m w of (Inl s, w) \<Rightarrow> (Inl s, w) | (Inr a, w) \<Rightarrow> f a w)"

definition on_conn :: "'a ux \<Rightarrow> 'a wx" where
  "on_conn m w = (let (r, l) = m (w_conn w) in (r, w\<lparr>w_conn := l\<rparr>))"

definition wpanic :: "'a wx" where
  "wpanic w = (Inl (Fault PanicFault), w)"

definition send_byte :: "(nat \<Rightarrow> int) \<Rightarrow> u8 \<Rightarrow> unit ux" where
  "send_byte wr b l =
     (if wr 1 < 0 then (Inl (Fault PanicFault), l) else (Inr (), l\<lparr>tx := tx l @ take (nat (wr 1)) [b]\<rparr>))"

definition get_byte :: "u8 ux" where
  "get_byte = bind read1 (\<lambda>r. case r of Got b \<Rightarrow> ret b | _ \<Rightarrow> halt (Fault PanicFault))"

definition emit_trace :: "(bool \<Rightarrow> u32 \<Rightarrow> u32 \<Rightarrow> u8 list \<times> u32) \<Rightarrow> u32 \<Rightarrow> unit wx" where
  "emit_trace t u w = (let (out, n) = t (w_on w) u (w_n w) in (Inr (), w\<lparr>w_n := n, w_out := w_out w @ out\<rparr>))"

definition fd_get_uint :: "u32 wx" where
  "fd_get_uint =
     wbind (on_conn get_byte) (\<lambda>b. let u = ucast b in
     wbind (on_conn get_byte) (\<lambda>b. let u = u OR push_bit 8 (ucast b) in
     wbind (on_conn get_byte) (\<lambda>b. let u = u OR push_bit 16 (ucast b) in
     wbind (on_conn get_byte) (\<lambda>b. let u = u OR push_bit 24 (ucast b) in
     wbind (emit_trace trace_read32 u) (\<lambda>_. wret u)))))"

definition fd_put_uint :: "(nat \<Rightarrow> int) \<Rightarrow> u32 \<Rightarrow> unit wx" where
  "fd_put_uint wr u =
     wbind (on_conn (send_byte wr (ucast (drop_bit 0 u AND 0xff)))) (\<lambda>_.
     wbind (on_conn (send_byte wr (ucast (drop_bit 8 u AND 0xff)))) (\<lambda>_.
     wbind (on_conn (send_byte wr (ucast (drop_bit 16 u AND 0xff)))) (\<lambda>_.
     wbind (on_conn (send_byte wr (ucast (drop_bit 24 u AND 0xff)))) (\<lambda>_.
     emit_trace trace_write32 u))))"

definition fd_expect :: "(nat \<Rightarrow> int) \<Rightarrow> u32 \<Rightarrow> unit wx" where
  "fd_expect wr v =
     wbind fd_get_uint (\<lambda>x.
     if x \<noteq> v then wbind (fd_put_uint wr NAK) (\<lambda>_. wpanic) else wret ())"

fun fd_put_words :: "(nat \<Rightarrow> int) \<Rightarrow> u32 list \<Rightarrow> unit wx" where
  "fd_put_words wr [] = wret ()"
| "fd_put_words wr (u # us) = wbind (fd_put_uint wr u) (\<lambda>_. fd_put_words wr us)"

definition fd_simple_boot :: "(nat \<Rightarrow> int) \<Rightarrow> u8 list \<Rightarrow> unit wx" where
  "fd_simple_boot wr buf =
     (let n = (of_nat (length buf) :: u32) in
      if n mod 4 \<noteq> 0 then wpanic
      else
        let n_words = unat (n div 4);
            code_checksum = ux_crc32 buf;
            size_checksum = ux_crc32 (word_bytes n) in
        wbind (fd_put_uint wr SOH) (\<lambda>_.
        wbind (fd_put_uint wr n) (\<lambda>_.
        wbind (fd_put_uint wr code_checksum) (\<lambda>_.
        wbind (fd_expect wr SOH) (\<lambda>_.
        wbind (fd_expect wr size_checksum) (\<lambda>_.
        wbind (fd_expect wr code_checksum) (\<lambda>_.
        wbind (fd_put_uint wr ACK) (\<lambda>_.
        wbind (fd_put_words wr (map (word_at buf) [0..<n_words])) (\<lambda>_.
        wbind (fd_put_uint wr EOT) (\<lambda>_.
        fd_expect wr ACK))))))))))"

section \<open>Both sides compute the same checksum\<close>

lemma ux_crc32_tab_eq: "ux_crc32_tab = crc32_tab"
  by (simp only: ux_crc32_tab_def crc32_tab_def)

lemma ux_crc32_loop_eq: "ux_crc32_loop crc buf = crc32_loop crc buf"
  by (induction buf arbitrary: crc) (simp_all add: ux_crc32_tab_eq crc32_step_def)

lemma ux_crc32_eq: "ux_crc32 buf = crc32 buf"
  by (simp add: ux_crc32_def crc32_def ux_crc32_loop_eq Let_def)

section \<open>The transfer implements the byte program\<close>

text \<open>A computation on the wire implements a byte program when, apart from the trace, it does the same on the connection.\<close>

definition implements :: "(nat \<Rightarrow> int) \<Rightarrow> 'a wx \<Rightarrow> 'a res io \<Rightarrow> bool" where
  "implements wr m p \<longleftrightarrow> (\<forall>w. map_prod id w_conn (m w) = bind (run_ux wr p) check (w_conn w))"

named_theorems impl

lemma impl_ret [impl]: "implements wr (wret a) (Ret (Inr a))"
  by (simp add: implements_def wret_def bind_def ret_def check_def)

lemma impl_panic [impl]: "implements wr wpanic (Ret (Inl PanicFault))"
  by (simp add: implements_def wpanic_def bind_def ret_def check_def)

lemma wbind_assoc: "wbind (wbind m f) g = wbind m (\<lambda>a. wbind (f a) g)"
  by (auto simp: wbind_def fun_eq_iff split: prod.splits sum.splits)

lemma wbind_wret [simp]: "wbind (wret a) f = f a"
  by (simp add: wbind_def wret_def fun_eq_iff)

lemma wbind_wpanic [simp]: "wbind wpanic f = wpanic"
  by (simp add: wbind_def wpanic_def fun_eq_iff)

lemma impl_if: "implements wr m p \<Longrightarrow> implements wr m' p' \<Longrightarrow> implements wr (if b then m else m') (if b then p else p')"
  by simp

lemma impl_get_byte: "(\<And>b. implements wr (m b) (f b)) \<Longrightarrow> implements wr (wbind (on_conn get_byte) m) (GetByte f)"
  unfolding implements_def
  by (auto simp: wbind_def on_conn_def get_byte_def bind_def read1_def ret_def halt_def Let_def split: list.split rd.split)

lemma impl_send_byte: "implements wr m p \<Longrightarrow> implements wr (wbind (on_conn (send_byte wr b)) (\<lambda>_. m)) (PutByte b p)"
  unfolding implements_def by (auto simp: wbind_def on_conn_def send_byte_def bind_def Let_def)

lemma impl_trace: "implements wr m p \<Longrightarrow> implements wr (wbind (emit_trace t u) (\<lambda>_. m)) p"
  unfolding implements_def by (simp add: wbind_def emit_trace_def Let_def split: prod.split)

lemma impl_get_uint [impl]:
  assumes "\<And>u. implements wr (m u) (f u)"
  shows "implements wr (wbind fd_get_uint m) (get_uint f)"
  unfolding fd_get_uint_def get_uint_def Let_def wbind_assoc wbind_wret
  by (intro impl_get_byte impl_trace) (simp only: or.assoc, rule assms)

lemma impl_put_uint [impl]:
  assumes "implements wr m p"
  shows "implements wr (wbind (fd_put_uint wr u) (\<lambda>_. m)) (put_uint u p)"
  unfolding fd_put_uint_def put_uint_def wbind_assoc by (intro impl_send_byte impl_trace assms)

lemma impl_expect [impl]:
  assumes "implements wr m p"
  shows "implements wr (wbind (fd_expect wr v) (\<lambda>_. m)) (expect v p)"
proof -
  have "implements wr (if u \<noteq> v then wbind (fd_put_uint wr NAK) (\<lambda>_. wpanic) else m) (if u \<noteq> v then put_uint NAK (Ret (Inl PanicFault)) else p)" for u
    using assms by (simp add: impl)
  moreover have "wbind (if u \<noteq> v then wbind (fd_put_uint wr NAK) (\<lambda>_. wpanic) else wret ()) (\<lambda>_. m) =
      (if u \<noteq> v then wbind (fd_put_uint wr NAK) (\<lambda>_. wpanic) else m)" for u
    by (simp add: wbind_assoc)
  ultimately show ?thesis unfolding fd_expect_def expect_def wbind_assoc by (simp only:) (rule impl_get_uint)
qed

lemma impl_put_words [impl]:
  "implements wr m p \<Longrightarrow> implements wr (wbind (fd_put_words wr us) (\<lambda>_. m)) (send_words us p)"
  by (induction us) (simp_all add: wbind_assoc impl_put_uint)

lemma impl_expect_last [impl]: "implements wr (fd_expect wr v) (expect v (Ret (Inr ())))"
proof -
  have "wbind m (\<lambda>_. wret ()) = m" for m :: "unit wx"
    by (auto simp: wbind_def wret_def fun_eq_iff split: prod.splits sum.splits)
  then show ?thesis using impl_expect [OF impl_ret, of wr v "()"] by (simp only:)
qed

text \<open>
  C22: the installer's transfer does on the descriptor what the byte program \<open>simple_boot\<close> does, for every image and
  whatever the line does: failing writes, reads that return nothing, wrong answers; the trace, on or off, changes nothing of
  it, and the two sides' tables give the same checksum.
\<close>

theorem transfer_refines:
  "map_prod id w_conn (fd_simple_boot wr buf w) = bind (run_ux wr (simple_boot buf)) check (w_conn w)"
proof -
  have "implements wr (fd_simple_boot wr buf) (simple_boot buf)"
    unfolding fd_simple_boot_def simple_boot_def Let_def ux_crc32_eq by (intro impl_if impl)
  then show ?thesis by (simp add: implements_def)
qed

text \<open>What a transfer over a line that works sends, reads and traces: a line for each word, numbered in order.\<close>

fun transcript :: "(string \<times> u32) list \<Rightarrow> u32 \<Rightarrow> u8 list" where
  "transcript [] n = []"
| "transcript ((op, u) # ops) n = trace_line op n u (cmd_to_str u) @ transcript ops (n + 1)"

definition after_ops :: "wire \<Rightarrow> rd list \<Rightarrow> u8 list \<Rightarrow> (string \<times> u32) list \<Rightarrow> wire" where
  "after_ops w rs sent ops =
     w\<lparr>w_conn := (w_conn w)\<lparr>rx := rs, tx := tx (w_conn w) @ sent\<rparr>, w_n := w_n w + of_nat (length ops),
       w_out := w_out w @ transcript ops (w_n w)\<rparr>"

lemma transcript_append: "transcript (xs @ ys) n = transcript xs n @ transcript ys (n + of_nat (length xs))"
  by (induction xs n rule: transcript.induct) (simp_all add: algebra_simps)

lemma put_uint_ops:
  assumes "w_on w" "wr 1 = 1"
  shows "fd_put_uint wr u (after_ops w rs sent ops) = (Inr (), after_ops w rs (sent @ word_bytes u) (ops @ [(''WRITE32'', u)]))"
proof -
  have one: "take (nat (wr (Suc 0))) [b] = [b]" for b :: u8 using assms(2) by simp
  show ?thesis using assms
    by (simp add: fd_put_uint_def wbind_def on_conn_def send_byte_def emit_trace_def trace_write32_def trace_emit_write32_def
        after_ops_def transcript_append low_byte word_bytes_def one Let_def del: take.simps take_Cons)
qed

lemma get_uint_ops:
  assumes "w_on w"
  shows "fd_get_uint (after_ops w (map Got (word_bytes u) @ rs) sent ops) = (Inr u, after_ops w rs sent (ops @ [(''READ32'', u)]))"
proof -
  have b: "ucast (ucast u :: u8) OR push_bit 8 (ucast (ucast (drop_bit 8 u) :: u8)) OR push_bit 16 (ucast (ucast (drop_bit 16 u) :: u8)) OR
      push_bit 24 (ucast (ucast (drop_bit 24 u) :: u8)) = u"
    unfolding uint_of_bytes by (rule bytes_word_4)
  show ?thesis using assms
    by (simp add: fd_get_uint_def wbind_def wret_def on_conn_def get_byte_def bind_def read1_def ret_def emit_trace_def trace_read32_def
        trace_emit_read32_def after_ops_def transcript_append word_bytes_def Let_def or.assoc b)
qed

lemma expect_ops:
  assumes "w_on w"
  shows "fd_expect wr u (after_ops w (map Got (word_bytes u) @ rs) sent ops) = (Inr (), after_ops w rs sent (ops @ [(''READ32'', u)]))"
  by (simp add: fd_expect_def wbind_def [of fd_get_uint] get_uint_ops [OF assms] wret_def)

lemma put_words_ops:
  assumes "w_on w" "wr 1 = 1"
  shows "fd_put_words wr us (after_ops w rs sent ops) =
    (Inr (), after_ops w rs (sent @ concat (map word_bytes us)) (ops @ map (Pair ''WRITE32'') us))"
  by (induction us arbitrary: sent ops) (simp_all add: wret_def wbind_def put_uint_ops [where wr = wr, OF assms])

lemma transfer_traced:
  assumes "w_on w" "wr 1 = 1" "4 dvd length buf" "length buf < 4294967296"
    and "rx (w_conn w) = map Got (word_bytes SOH) @ map Got (word_bytes (crc32 (word_bytes (of_nat (length buf))))) @
      map Got (word_bytes (crc32 buf)) @ map Got (word_bytes ACK) @ rs"
  shows "fd_simple_boot wr buf w = (Inr (), after_ops w rs
    (word_bytes SOH @ word_bytes (of_nat (length buf)) @ word_bytes (crc32 buf) @ word_bytes ACK @ buf @ word_bytes EOT)
    ([(''WRITE32'', SOH), (''WRITE32'', of_nat (length buf)), (''WRITE32'', crc32 buf), (''READ32'', SOH),
      (''READ32'', crc32 (word_bytes (of_nat (length buf)))), (''READ32'', crc32 buf), (''WRITE32'', ACK)] @
     map (Pair ''WRITE32'') (words_of buf) @ [(''WRITE32'', EOT), (''READ32'', ACK)]))"
proof -
  have w: "w = after_ops w (rx (w_conn w)) [] []" by (simp add: after_ops_def)
  note sz = size_word [OF assms(4,3)] and ws = words_of_concat [OF assms(3)]
  have z: "(of_nat (length buf) :: u32) mod 4 = 0" "map (word_at buf) [0..<unat ((of_nat (length buf) :: u32) div 4)] = words_of buf"
    using sz by (simp_all add: words_of_def)
  show ?thesis unfolding fd_simple_boot_def Let_def z(2) ux_crc32_eq
    by (subst w, unfold assms(5)) (simp add: z(1) wbind_def put_uint_ops [where wr = wr, OF assms(1,2)] expect_ops [OF assms(1)]
        put_words_ops [where wr = wr, OF assms(1,2)] ws del: append.simps list.map, simp)
qed

end
